(* ===== verification/Cpp_Rounding.thy ===== *)
theory Cpp_Rounding
  imports Complex_Main
begin

text \<open>
  The mathematics of rounding to IEEE 754 binary64, on real numbers: \<open>rhe\<close> rounds to the
  nearest integer with ties to even, \<open>rnd\<close> rounds a non-negative real to the nearest
  multiple of its unit in the last place (53 significant bits, never below
  \<open>2\<^bsup>-1074\<^esup>\<close>; the upper end of the format is handled where doubles are built).
  The locale \<open>rounding\<close> states what the clients use of a rounding function (it is
  monotone, lands in a grid and fixes the grid) and derives that bounds on the grid survive
  rounding; its interpretation shows that \<open>rnd\<close> has these laws.
\<close>

section \<open>Round half to even\<close>

definition rhe :: "real \<Rightarrow> int" where
  "rhe x =
     (let f = \<lfloor>x\<rfloor>; r = x - of_int f
      in if r < 1 / 2 \<or> r = 1 / 2 \<and> even f then f else f + 1)"

lemma rhe_cases: "rhe x = \<lfloor>x\<rfloor> \<or> rhe x = \<lfloor>x\<rfloor> + 1"
  by (simp add: rhe_def Let_def)

lemma rhe_of_int [simp]: "rhe (of_int k) = k"
  by (simp add: rhe_def)

lemma rhe_error: "\<bar>of_int (rhe x) - x\<bar> \<le> 1 / 2"
proof -
  have "of_int \<lfloor>x\<rfloor> \<le> x" "x < of_int \<lfloor>x\<rfloor> + 1" by linarith+
  then show ?thesis by (auto simp: rhe_def Let_def abs_le_iff not_less)
qed

lemma rhe_mono:
  assumes "x \<le> y"
  shows "rhe x \<le> rhe y"
proof (cases "\<lfloor>x\<rfloor> = \<lfloor>y\<rfloor>")
  case True
  then show ?thesis using assms by (auto simp: rhe_def Let_def)
next
  case False
  then have "\<lfloor>x\<rfloor> + 1 \<le> \<lfloor>y\<rfloor>" using floor_mono [OF assms] by linarith
  then show ?thesis using rhe_cases [of x] rhe_cases [of y] by linarith
qed

lemma rhe_le_int: "x \<le> of_int k \<Longrightarrow> rhe x \<le> k"
  using rhe_mono [of x "of_int k"] by simp

lemma rhe_ge_int: "of_int k \<le> x \<Longrightarrow> k \<le> rhe x"
  using rhe_mono [of "of_int k" x] by simp

lemma rhe_unique: "\<bar>x - of_int k\<bar> < 1 / 2 \<Longrightarrow> rhe x = k"
  using rhe_error [of x] by linarith

section \<open>The unit in the last place\<close>

definition emin :: int where "emin = -1074"

definition ex :: "real \<Rightarrow> int" where
  "ex x = max emin (\<lfloor>log 2 x\<rfloor> - 52)"

definition rnd :: "real \<Rightarrow> real" where
  "rnd x = (if x \<le> 0 then 0 else of_int (rhe (x / 2 powi ex x)) * 2 powi ex x)"

definition grid :: "real set" where
  "grid = {real m * 2 powi e | m e. m \<le> 2 ^ 53 \<and> emin \<le> e}"

lemma powi2_pos [simp]: "0 < (2::real) powi e"
  by simp

lemma powi2_add: "(2::real) powi (a + b) = 2 powi a * 2 powi b"
  by (simp add: power_int_add)

lemma powi2_le: "a \<le> b \<Longrightarrow> (2::real) powi a \<le> 2 powi b"
  by (simp add: power_int_increasing)

lemma powi2_less_iff: "(2::real) powi a < 2 powi b \<longleftrightarrow> a < b"
  by (metis power_int_strict_increasing powi2_le linorder_not_less one_less_numeral_iff
      semiring_norm(76))

lemma floor_log2_iff:
  "0 < x \<Longrightarrow> \<lfloor>log 2 x\<rfloor> = k \<longleftrightarrow> 2 powi k \<le> x \<and> x < 2 powi (k + 1)"
  using floor_log_eq_powr_iff [of x 2 k]
  by (simp add: powr_real_of_int' del: of_int_add)

lemma floor_log2_bounds:
  assumes "0 < x"
  shows "2 powi \<lfloor>log 2 x\<rfloor> \<le> x" and "x < 2 powi (\<lfloor>log 2 x\<rfloor> + 1)"
  using floor_log2_iff [OF assms, of "\<lfloor>log 2 x\<rfloor>"] by auto

lemma floor_log2_ge:
  assumes "2 powi k \<le> x"
  shows "k \<le> \<lfloor>log 2 x\<rfloor>"
proof -
  have pos: "0 < x" using assms by (meson less_le_trans powi2_pos)
  have "(2::real) powi k < 2 powi (\<lfloor>log 2 x\<rfloor> + 1)"
    using floor_log2_bounds(2) [OF pos] assms by linarith
  then have "k < \<lfloor>log 2 x\<rfloor> + 1" by (simp only: powi2_less_iff)
  then show ?thesis by linarith
qed

lemma ex_ge_emin: "emin \<le> ex x"
  by (simp add: ex_def)

lemma ex_upper:
  assumes "0 < x"
  shows "x < 2 powi (ex x + 53)"
proof -
  have "x < 2 powi (\<lfloor>log 2 x\<rfloor> + 1)" using floor_log2_bounds [OF assms] by simp
  also have "\<dots> \<le> 2 powi (ex x + 53)" by (intro powi2_le) (simp add: ex_def)
  finally show ?thesis .
qed

lemma ex_lower:
  assumes "0 < x" and "emin < ex x"
  shows "2 powi (ex x + 52) \<le> x"
proof -
  have "ex x + 52 = \<lfloor>log 2 x\<rfloor>" using assms(2) by (simp add: ex_def max_def split: if_splits)
  then show ?thesis using floor_log2_bounds [OF assms(1)] by simp
qed

lemma ex_mono:
  assumes "0 < x" and "x \<le> y"
  shows "ex x \<le> ex y"
proof -
  have "\<lfloor>log 2 x\<rfloor> \<le> \<lfloor>log 2 y\<rfloor>" using assms by (intro floor_mono) simp
  then show ?thesis by (simp add: ex_def)
qed

lemma ex_le_of_less:
  assumes "0 < x" and "x < 2 powi (e + 53)" and "emin \<le> e"
  shows "ex x \<le> e"
proof -
  have "(2::real) powi \<lfloor>log 2 x\<rfloor> < 2 powi (e + 53)"
    using floor_log2_bounds(1) [OF assms(1)] assms(2) by linarith
  then have "\<lfloor>log 2 x\<rfloor> < e + 53" by (simp only: powi2_less_iff)
  then show ?thesis using assms(3) by (simp add: ex_def)
qed

section \<open>Laws of rnd\<close>

lemma rnd_pos: "0 < x \<Longrightarrow> rnd x = of_int (rhe (x / 2 powi ex x)) * 2 powi ex x"
  by (simp add: rnd_def)

lemma scale_mono: "(a::real) \<le> b \<Longrightarrow> a * 2 powi e \<le> b * 2 powi e"
  by (simp add: mult_right_mono)

lemma powi2_scale: "real (2 ^ n) * 2 powi e = 2 powi (e + int n)"
  by (simp add: powi2_add)

lemma rnd_upper:
  assumes "0 < x"
  shows "rnd x \<le> 2 powi (ex x + 53)"
proof -
  have "x / 2 powi ex x \<le> of_int (2 ^ 53)"
    using ex_upper [OF assms] powi2_scale [of 53 "ex x"]
    by (simp add: pos_divide_le_eq less_imp_le)
  then have "rhe (x / 2 powi ex x) \<le> 2 ^ 53" by (rule rhe_le_int)
  then have "of_int (rhe (x / 2 powi ex x)) \<le> (of_int (2 ^ 53) :: real)" by (simp only: of_int_le_iff)
  then have "rnd x \<le> of_int (2 ^ 53) * 2 powi ex x"
    unfolding rnd_pos [OF assms] by (rule scale_mono)
  also have "\<dots> = 2 powi (ex x + 53)" using powi2_scale [of 53 "ex x"] by simp
  finally show ?thesis .
qed

lemma rnd_lower:
  assumes "0 < x" and "emin < ex x"
  shows "2 powi (ex x + 52) \<le> rnd x"
proof -
  have "of_int (2 ^ 52) \<le> x / 2 powi ex x"
    using ex_lower [OF assms] powi2_scale [of 52 "ex x"] by (simp add: pos_le_divide_eq)
  then have "2 ^ 52 \<le> rhe (x / 2 powi ex x)" by (rule rhe_ge_int)
  then have "(of_int (2 ^ 52) :: real) \<le> of_int (rhe (x / 2 powi ex x))" by (simp only: of_int_le_iff)
  then have "of_int (2 ^ 52) * 2 powi ex x \<le> rnd x"
    unfolding rnd_pos [OF assms(1)] by (rule scale_mono)
  moreover have "of_int (2 ^ 52) * 2 powi ex x = (2::real) powi (ex x + 52)"
    using powi2_scale [of 52 "ex x"] by simp
  ultimately show ?thesis by simp
qed

lemma rnd_nonneg: "0 \<le> rnd x"
proof (cases "x \<le> 0")
  case False
  then have "0 \<le> rhe (x / 2 powi ex x)" by (intro rhe_ge_int) simp
  then show ?thesis by (simp add: rnd_def)
qed (simp add: rnd_def)

lemma rnd_mono_pos:
  assumes "0 < x" and "x \<le> y"
  shows "rnd x \<le> rnd y"
proof (cases "ex x = ex y")
  case True
  have "x / 2 powi ex y \<le> y / 2 powi ex y" using assms by (simp add: divide_right_mono)
  from rhe_mono [OF this] show ?thesis
    using assms True by (simp add: rnd_def mult_right_mono)
next
  case False
  then have less: "ex x < ex y" using ex_mono [OF assms] by simp
  have "rnd x \<le> 2 powi (ex x + 53)" using rnd_upper [OF assms(1)] .
  also have "\<dots> \<le> 2 powi (ex y + 52)" using less by (intro powi2_le) simp
  also have "\<dots> \<le> rnd y"
    using assms less ex_ge_emin [of x] by (intro rnd_lower) auto
  finally show ?thesis .
qed

lemma rnd_mono: "x \<le> y \<Longrightarrow> rnd x \<le> rnd y"
  using rnd_mono_pos [of x y] rnd_nonneg [of y] by (cases "0 < x") (auto simp: rnd_def)

lemma rnd_in_grid: "rnd x \<in> grid"
proof (cases "x \<le> 0")
  case True
  then show ?thesis unfolding grid_def mem_Collect_eq
    by (intro exI [of _ 0] exI [of _ emin]) (simp add: rnd_def)
next
  case False
  let ?k = "rhe (x / 2 powi ex x)"
  have "0 \<le> ?k" using False by (intro rhe_ge_int) simp
  moreover have "?k \<le> 2 ^ 53"
    using ex_upper [of x] False powi2_scale [of 53 "ex x"]
    by (intro rhe_le_int) (simp add: pos_divide_le_eq less_imp_le)
  ultimately show ?thesis unfolding grid_def mem_Collect_eq using False ex_ge_emin
    by (intro exI [of _ "nat ?k"] exI [of _ "ex x"]) (simp add: rnd_def nat_le_iff)
qed

lemma rnd_scaled_small:
  assumes "m < 2 ^ 53" and "emin \<le> e"
  shows "rnd (real m * 2 powi e) = real m * 2 powi e"
proof (cases "m = 0")
  case True
  then show ?thesis by (simp add: rnd_def)
next
  case False
  let ?x = "real m * 2 powi e"
  have pos: "0 < ?x" using False by simp
  have "?x < real (2 ^ 53) * 2 powi e"
    using assms(1) by (intro mult_strict_right_mono) (simp_all only: of_nat_less_iff powi2_pos)
  also have "\<dots> = 2 powi (e + 53)" using powi2_scale [of 53 e] by simp
  finally have "ex ?x \<le> e" using assms(2) pos by (intro ex_le_of_less)
  then have "(2::real) powi e = 2 ^ nat (e - ex ?x) * 2 powi ex ?x"
    using powi2_scale [of "nat (e - ex ?x)" "ex ?x"] by simp
  then have "?x / 2 powi ex ?x = of_int (int m * 2 ^ nat (e - ex ?x))" by (simp add: field_simps)
  then have "rhe (?x / 2 powi ex ?x) = int m * 2 ^ nat (e - ex ?x)" by (simp only: rhe_of_int)
  with \<open>?x / 2 powi ex ?x = _\<close> have "of_int (rhe (?x / 2 powi ex ?x)) = ?x / 2 powi ex ?x" by simp
  then show ?thesis by (simp add: rnd_pos [OF pos])
qed

lemma rnd_fixes_grid:
  assumes "x \<in> grid"
  shows "rnd x = x"
proof -
  obtain m e where m: "x = real m * 2 powi e" "m \<le> 2 ^ 53" "emin \<le> e"
    using assms by (auto simp: grid_def)
  show ?thesis
  proof (cases "m = 2 ^ 53")
    case True
    then have "x = real (2 ^ 52) * 2 powi (e + 1)" using m(1) by (simp add: powi2_add)
    moreover have "rnd (real (2 ^ 52) * 2 powi (e + 1)) = real (2 ^ 52) * 2 powi (e + 1)"
      using m(3) by (intro rnd_scaled_small) auto
    ultimately show ?thesis by simp
  next
    case False
    then show ?thesis using m rnd_scaled_small [of m e] by simp
  qed
qed

text \<open>Away from the subnormal range the relative error is at most half a unit.\<close>

lemma rnd_relative_error:
  assumes "2 powi (-1022) \<le> x"
  shows "\<bar>rnd x - x\<bar> \<le> x / 2 ^ 53"
proof -
  have pos: "0 < x" using assms by (meson less_le_trans powi2_pos)
  have "- 1022 \<le> \<lfloor>log 2 x\<rfloor>" using assms by (rule floor_log2_ge)
  then have "ex x + 52 = \<lfloor>log 2 x\<rfloor>" unfolding ex_def emin_def by linarith
  then have lower: "2 powi (ex x + 52) \<le> x" using floor_log2_bounds(1) [OF pos] by simp
  have "rnd x - x = (of_int (rhe (x / 2 powi ex x)) - x / 2 powi ex x) * 2 powi ex x"
    by (simp add: rnd_pos [OF pos] left_diff_distrib)
  then have "\<bar>rnd x - x\<bar> = \<bar>of_int (rhe (x / 2 powi ex x)) - x / 2 powi ex x\<bar> * 2 powi ex x"
    by (simp only: abs_mult abs_of_pos [OF powi2_pos])
  also have "\<dots> \<le> 1 / 2 * 2 powi ex x"
    using rhe_error by (intro mult_right_mono) auto
  also have "\<dots> \<le> x / 2 ^ 53"
    using lower powi2_scale [of 52 "ex x"] by (simp add: field_simps)
  finally show ?thesis .
qed

section \<open>The contract of a rounding function\<close>

locale rounding =
  fixes rd :: "real \<Rightarrow> real"
    and rep :: "real set"
  assumes rd_mono: "x \<le> y \<Longrightarrow> rd x \<le> rd y"
    and rd_rep: "rd x \<in> rep"
    and rd_fixes: "x \<in> rep \<Longrightarrow> rd x = x"
begin

lemma rd_idem: "rd (rd x) = rd x"
  by (rule rd_fixes) (rule rd_rep)

lemma rd_le_rep: "x \<le> g \<Longrightarrow> g \<in> rep \<Longrightarrow> rd x \<le> g"
  using rd_mono [of x g] by (simp add: rd_fixes)

lemma rep_le_rd: "g \<le> x \<Longrightarrow> g \<in> rep \<Longrightarrow> g \<le> rd x"
  using rd_mono [of g x] by (simp add: rd_fixes)

lemma rd_between: "g \<le> x \<Longrightarrow> x \<le> h \<Longrightarrow> g \<in> rep \<Longrightarrow> h \<in> rep \<Longrightarrow> g \<le> rd x \<and> rd x \<le> h"
  by (simp add: rd_le_rep rep_le_rd)

end

interpretation binary64: rounding rnd grid
  by unfold_locales (fact rnd_mono rnd_in_grid rnd_fixes_grid)+

lemma nat_in_grid: "n \<le> 2 ^ 53 \<Longrightarrow> real n \<in> grid"
  unfolding grid_def mem_Collect_eq by (intro exI [of _ n] exI [of _ 0]) (simp add: emin_def)

end
