(* ===== verification/Sysnet_Prelude.thy ===== *)
theory Sysnet_Prelude
  imports Main
begin

text \<open>
  Shared vocabulary of the development: the fact collections the component theories fill
  (\<open>evals\<close> for definitions a concrete run unfolds, \<open>keeps\<close> for frame facts,
  \<open>commutes\<close> for operations on different parts of a state), the names of the types the C++ sources use everywhere, the exceptional outcomes of
  the two native programs, and the generic list lemmas the components share.
  The locale \<open>transition_system\<close> is the common shape of the two event loops
  (\<^verbatim>\<open>MonitorServer::run\<close> and the agent's \<^verbatim>\<open>main\<close>): an initial predicate,
  a step function on an input, the reachable states and the invariant rule.
\<close>

named_theorems evals "definitions unfolded when a model is run on a concrete input"
named_theorems keeps "what an operation leaves unchanged"
named_theorems commutes "operations that act on different parts of a state"

type_synonym cpp_string = "char list"
type_synonym socket_t = int

text \<open>
  How a native process can end other than by returning: an exception no handler catches
  (\<^verbatim>\<open>std::stod\<close> and \<^verbatim>\<open>std::stoll\<close> throw \<^verbatim>\<open>std::out_of_range\<close>),
  the default action of \<^verbatim>\<open>SIGPIPE\<close>, or an operation whose behaviour the C and
  POSIX standards leave undefined.
\<close>

datatype abort = Out_of_range | Killed_by_SIGPIPE | Undefined_FD_SET

type_synonym 'a result = "abort + 'a"

abbreviation CHR_nl :: char where "CHR_nl \<equiv> CHR 0x0A"
abbreviation CHR_cr :: char where "CHR_cr \<equiv> CHR 0x0D"
abbreviation CHR_tab :: char where "CHR_tab \<equiv> CHR 0x09"
abbreviation CHR_quote :: char where "CHR_quote \<equiv> CHR 0x22"
abbreviation CHR_backslash :: char where "CHR_backslash \<equiv> CHR 0x5C"

text \<open>Sequencing of a computation that may end the process.\<close>

fun and_then :: "'a result \<Rightarrow> ('a \<Rightarrow> 'b result) \<Rightarrow> 'b result" where
  "and_then (Inl e) f = Inl e"
| "and_then (Inr x) f = f x"

lemma and_then_Inr_iff: "and_then r f = Inr y \<longleftrightarrow> (\<exists>x. r = Inr x \<and> f x = Inr y)"
  by (cases r) auto

lemma and_then_InrE:
  assumes "and_then r f = Inr y"
  obtains x where "r = Inr x" "f x = Inr y"
  using assms by (auto simp: and_then_Inr_iff)

lemma and_then_cong [fundef_cong]:
  "r = r' \<Longrightarrow> (\<And>x. r' = Inr x \<Longrightarrow> f x = g x) \<Longrightarrow> and_then r f = and_then r' g"
  by (cases r') auto

lemma and_then_assoc: "and_then (and_then r f) g = and_then r (\<lambda>x. and_then (f x) g)"
  by (cases r) auto

lemma and_then_Inr_right [simp]: "and_then r Inr = r"
  by (cases r) auto

lemma and_then_Inl_iff:
  "and_then r f = Inl e \<longleftrightarrow> r = Inl e \<or> (\<exists>x. r = Inr x \<and> f x = Inl e)"
  by (cases r) auto

subsection \<open>Lists\<close>

lemma dropWhile_append_stop:
  assumes "\<forall>x \<in> set xs. p x" and "\<not> p y"
  shows "dropWhile p (xs @ y # ys) = y # ys"
  using assms by (induction xs) auto

lemma takeWhile_append_stop:
  assumes "\<forall>x \<in> set xs. p x" and "\<not> p y"
  shows "takeWhile p (xs @ y # ys) = xs"
  using assms by (induction xs) auto

lemma until_append [simp]:
  assumes "q \<notin> set a"
  shows "takeWhile (\<lambda>x. x \<noteq> q) (a @ q # b) = a"
    and "dropWhile (\<lambda>x. x \<noteq> q) (a @ q # b) = q # b"
  using assms by (induction a) auto

lemma dropWhile_idem: "dropWhile p (dropWhile p xs) = dropWhile p xs"
  by (induction xs) auto

lemma dropWhile_hd: "xs \<noteq> [] \<Longrightarrow> \<not> p (hd xs) \<Longrightarrow> dropWhile p xs = xs"
  by (cases xs) auto

lemma length_dropWhile_Cons: "dropWhile p xs = y # ys \<Longrightarrow> length ys < length xs"
  using length_dropWhile_le [of p xs] by simp

lemma dropWhile_eq_Cons_D: "dropWhile p xs = y # ys \<Longrightarrow> \<not> p y"
  by (induction xs) (auto split: if_splits)

lemma takeWhile_stop_append:
  "dropWhile p xs = y # ys \<Longrightarrow> takeWhile p xs @ y # ys = xs"
  by (metis takeWhile_dropWhile_id)

lemma takeWhile_as_take: "take (length xs - length (dropWhile p xs)) xs = takeWhile p xs"
proof -
  have "length xs - length (dropWhile p xs) = length (takeWhile p xs)"
    by (metis add_diff_cancel_right' length_append takeWhile_dropWhile_id)
  then show ?thesis by (simp add: takeWhile_eq_take [symmetric])
qed

lemma concat_map_concat:
  "concat (map f (concat xss)) = concat (map (\<lambda>xs. concat (map f xs)) xss)"
  by (induction xss) auto

lemma concat_concat: "concat (concat xss) = concat (map concat xss)"
  by (induction xss) auto

lemma concat_map_all_Nil: "\<forall>x \<in> set xs. f x = [] \<Longrightarrow> concat (map f xs) = []"
  by (induction xs) auto

lemma map_list_update_same:
  assumes "f x = f (xs ! i)"
  shows "map f (xs[i := x]) = map f xs"
proof (cases "i < length xs")
  case True
  then show ?thesis using assms by (simp add: map_update list_update_same_conv)
next
  case False
  then show ?thesis by (simp add: list_update_beyond)
qed

subsection \<open>Transition systems\<close>

locale transition_system =
  fixes start :: "'s \<Rightarrow> bool"
    and step :: "'s \<Rightarrow> 'i \<Rightarrow> 's \<Rightarrow> bool"
begin

inductive reach :: "'s \<Rightarrow> bool" where
  reach_start: "start s \<Longrightarrow> reach s"
| reach_step: "reach s \<Longrightarrow> step s i t \<Longrightarrow> reach t"

lemma invariant_rule:
  assumes "reach s"
    and "\<And>s. start s \<Longrightarrow> P s"
    and "\<And>s i t. reach s \<Longrightarrow> P s \<Longrightarrow> step s i t \<Longrightarrow> P t"
  shows "P s"
  using assms(1) by (induction rule: reach.induct) (auto intro: assms(2,3))

end

end
