(* ===== verification/Cpp_Strings.thy ===== *)
theory Cpp_Strings
  imports Sysnet_Prelude
begin

text \<open>
  The string helpers of \<^verbatim>\<open>cpp/include/common.hpp\<close> (\<open>trim\<close>, \<open>lower_copy\<close>,
  \<open>escape_json\<close>, the \<open>Maybe\<close> class) with what they use of the C++ library in the
  classic locale: \<^verbatim>\<open>std::isspace\<close>, \<^verbatim>\<open>std::tolower\<close>, decimal
  printing of integers and \<^verbatim>\<open>std::atoi\<close>.
  Strings are byte strings: a \<^typ>\<open>char\<close> is one \<^verbatim>\<open>unsigned char\<close>.
\<close>

section \<open>Character classes\<close>

definition spaces :: "char list" where
  "spaces = [CHR '' '', CHR 0x09, CHR 0x0A, CHR 0x0B, CHR 0x0C, CHR 0x0D]"

definition isspace :: "char \<Rightarrow> bool" where
  "isspace c \<longleftrightarrow> c \<in> set spaces"

definition digit_chars :: "char list" where
  "digit_chars = ''0123456789''"

definition isdigit :: "char \<Rightarrow> bool" where
  "isdigit c \<longleftrightarrow> c \<in> set digit_chars"

definition tolower :: "char \<Rightarrow> char" where
  "tolower c =
     (if 65 \<le> (of_char c :: nat) \<and> (of_char c :: nat) \<le> 90
      then char_of ((of_char c :: nat) + 32) else c)"

definition toupper :: "char \<Rightarrow> char" where
  "toupper c =
     (if 97 \<le> (of_char c :: nat) \<and> (of_char c :: nat) \<le> 122
      then char_of ((of_char c :: nat) - 32) else c)"

section \<open>trim, lower\_copy, escape\_json, Maybe\<close>

definition trim :: "cpp_string \<Rightarrow> cpp_string" where
  "trim value =
     (let front = dropWhile isspace value
      in rev (dropWhile isspace (rev front)))"

definition lower_copy :: "cpp_string \<Rightarrow> cpp_string" where
  "lower_copy value = map tolower value"

definition escape_char :: "char \<Rightarrow> cpp_string" where
  "escape_char ch =
     (if ch = CHR_backslash then [CHR_backslash, CHR_backslash]
      else if ch = CHR_quote then [CHR_backslash, CHR_quote]
      else if ch = CHR_nl then [CHR_backslash, CHR ''n'']
      else if ch = CHR_cr then [CHR_backslash, CHR ''r'']
      else if ch = CHR_tab then [CHR_backslash, CHR ''t'']
      else [ch])"

definition escape_json :: "cpp_string \<Rightarrow> cpp_string" where
  "escape_json value = concat (map escape_char value)"

text \<open>
  \<open>Maybe<T>\<close> is \<^typ>\<open>'a option\<close>: \<open>has_value()\<close> and \<open>value_or\<close>.
\<close>

definition has_value :: "'a option \<Rightarrow> bool" where
  "has_value m \<longleftrightarrow> m \<noteq> None"

definition value_or :: "'a option \<Rightarrow> 'a \<Rightarrow> 'a" where
  "value_or m fallback = (case m of Some v \<Rightarrow> v | None \<Rightarrow> fallback)"

section \<open>Decimal numbers\<close>

definition digit_char :: "nat \<Rightarrow> char" where
  "digit_char n = digit_chars ! n"

fun nat_to_string :: "nat \<Rightarrow> cpp_string" where
  "nat_to_string n =
     (if n < 10 then [digit_char n]
      else nat_to_string (n div 10) @ [digit_char (n mod 10)])"

declare nat_to_string.simps [simp del]

definition int_to_string :: "int \<Rightarrow> cpp_string" where
  "int_to_string i =
     (if i < 0 then CHR ''-'' # nat_to_string (nat (- i)) else nat_to_string (nat i))"

definition digit_value :: "char \<Rightarrow> nat" where
  "digit_value c = (of_char c :: nat) - 48"

fun digits_value :: "nat \<Rightarrow> cpp_string \<Rightarrow> nat" where
  "digits_value acc [] = acc"
| "digits_value acc (c # cs) = digits_value (10 * acc + digit_value c) cs"

text \<open>
  \<^verbatim>\<open>std::atoi\<close>: leading white space, an optional sign, the longest run of digits;
  0 when there is none. A value outside \<^verbatim>\<open>int\<close> is undefined in C; glibc
  computes it with \<^verbatim>\<open>strtol\<close> (saturating at 64 bits) and keeps the low 32 bits.
\<close>

definition sat64 :: "int \<Rightarrow> int" where
  "sat64 i = max (- (2 ^ 63)) (min (2 ^ 63 - 1) i)"

definition wrap32 :: "int \<Rightarrow> int" where
  "wrap32 i = (i + 2 ^ 31) mod 2 ^ 32 - 2 ^ 31"

definition atoi :: "cpp_string \<Rightarrow> int" where
  "atoi s =
     (let t = dropWhile isspace s;
          neg = (t \<noteq> [] \<and> hd t = CHR ''-'');
          u = (if t \<noteq> [] \<and> (hd t = CHR ''-'' \<or> hd t = CHR ''+'') then tl t else t);
          v = int (digits_value 0 (takeWhile isdigit u))
      in wrap32 (sat64 (if neg then - v else v)))"

text \<open>
  The body of a JSON string literal as RFC 8259 reads it, up to its closing quote: a quote
  ends it, a backslash starts one of the two-character escapes, a raw control character is
  not allowed. (The \<^verbatim>\<open>\u\<close> escape, which no encoder of this program emits, is
  rejected too.) This is the reference the encoder \<open>escape_json\<close> is judged by; it is
  not part of the program.
\<close>

definition escape_meaning :: "char \<Rightarrow> char option" where
  "escape_meaning c =
     (if c = CHR_backslash \<or> c = CHR_quote \<or> c = CHR ''/'' then Some c
      else if c = CHR ''n'' then Some CHR_nl
      else if c = CHR ''r'' then Some CHR_cr
      else if c = CHR ''t'' then Some CHR_tab
      else if c = CHR ''b'' then Some (CHR 0x08)
      else if c = CHR ''f'' then Some (CHR 0x0C)
      else None)"

definition iscntrl :: "char \<Rightarrow> bool" where
  "iscntrl c \<longleftrightarrow> (of_char c :: nat) < 32"

fun read_json_string :: "cpp_string \<Rightarrow> (cpp_string \<times> cpp_string) option" where
  "read_json_string [] = None"
| "read_json_string (c # cs) =
     (if c = CHR_quote then Some ([], cs)
      else if c = CHR_backslash then
        (case cs of [] \<Rightarrow> None
         | e # es \<Rightarrow>
             (case escape_meaning e of None \<Rightarrow> None
              | Some d \<Rightarrow> map_option (apfst (Cons d)) (read_json_string es)))
      else if iscntrl c then None
      else map_option (apfst (Cons c)) (read_json_string cs))"

text \<open>A byte that \<open>escape_json\<close> copies as it is.\<close>

definition plain :: "char \<Rightarrow> bool" where
  "plain c \<longleftrightarrow> c \<notin> {CHR_backslash, CHR_quote, CHR_nl, CHR_cr, CHR_tab}"

section \<open>Facts about trim\<close>

lemma trim_eqI:
  assumes "\<forall>c \<in> set pre. isspace c" and "\<forall>c \<in> set post. isspace c"
    and "m \<noteq> []" and "\<not> isspace (hd m)" and "\<not> isspace (last m)"
  shows "trim (pre @ m @ post) = m"
proof -
  obtain x xs where m: "m = x # xs" using assms(3) by (cases m) auto
  obtain ys y where m': "m = ys @ [y]" using assms(3) by (cases m rule: rev_cases) auto
  have "dropWhile isspace (pre @ m @ post) = m @ post"
    using assms(1,4) dropWhile_append_stop [of pre isspace x "xs @ post"] by (simp add: m)
  moreover have "dropWhile isspace (rev post @ y # rev ys) = y # rev ys"
    using assms(2,5) m' by (intro dropWhile_append_stop) auto
  ultimately show ?thesis by (simp add: trim_def m')
qed

lemma trim_all_space: "\<forall>c \<in> set s. isspace c \<Longrightarrow> trim s = []"
  by (simp add: trim_def dropWhile_eq_Nil_conv dropWhile_eq_Nil_conv [THEN iffD2])

lemma trim_decomp:
  obtains pre post where "s = pre @ trim s @ post"
    and "\<forall>c \<in> set pre. isspace c" and "\<forall>c \<in> set post. isspace c"
proof
  let ?f = "dropWhile isspace s"
  have "?f = trim s @ rev (takeWhile isspace (rev ?f))"
    unfolding trim_def Let_def rev_append [symmetric] takeWhile_dropWhile_id by simp
  then show "s = takeWhile isspace s @ trim s @ rev (takeWhile isspace (rev ?f))"
    by (metis takeWhile_dropWhile_id)
qed (auto dest: set_takeWhileD)

lemma trim_ends:
  assumes "trim s \<noteq> []"
  shows "\<not> isspace (hd (trim s))" and "\<not> isspace (last (trim s))"
proof -
  let ?f = "dropWhile isspace s" and ?g = "dropWhile isspace (rev (dropWhile isspace s))"
  have g: "?g \<noteq> []" using assms by (auto simp: trim_def)
  then show "\<not> isspace (last (trim s))"
    using hd_dropWhile [of isspace "rev ?f"] by (simp add: trim_def last_rev)
  obtain ws where ws: "?f = trim s @ ws"
    using takeWhile_dropWhile_id [of isspace "rev ?f"]
    by (metis (no_types, lifting) Let_def rev_append rev_rev_ident trim_def)
  then have "hd ?f = hd (trim s)" and "?f \<noteq> []" using assms by auto
  then show "\<not> isspace (hd (trim s))" using hd_dropWhile [of isspace s] by simp
qed

lemma trim_idem [simp]: "trim (trim s) = trim s"
proof (cases "trim s = []")
  case True
  then show ?thesis by (simp add: trim_all_space)
next
  case False
  then show ?thesis using trim_eqI [of "[]" "[]" "trim s"] trim_ends [of s] by simp
qed

lemma set_trim: "set (trim s) \<subseteq> set s"
  by (rule trim_decomp [of s]) (metis Un_iff set_append subsetI)

lemma trim_eq_Nil_iff: "trim s = [] \<longleftrightarrow> (\<forall>c \<in> set s. isspace c)"
  using trim_all_space trim_decomp [of s] by (metis Un_iff append_Nil set_append)

section \<open>Facts about lower\_copy\<close>

lemma tolower_idem [simp]: "tolower (tolower c) = tolower c"
  by (auto simp: tolower_def)

lemma lower_copy_idem [simp]: "lower_copy (lower_copy s) = lower_copy s"
  by (simp add: lower_copy_def)

lemma length_lower_copy [simp]: "length (lower_copy s) = length s"
  by (simp add: lower_copy_def)

section \<open>Facts about escape\_json\<close>

lemma escape_json_simps [simp]:
  "escape_json [] = []"
  "escape_json (c # cs) = escape_char c @ escape_json cs"
  "escape_json (s @ t) = escape_json s @ escape_json t"
  by (simp_all add: escape_json_def)

lemma escape_json_plain: "\<forall>c \<in> set s. plain c \<Longrightarrow> escape_json s = s"
  by (induction s) (auto simp: escape_char_def plain_def)

lemma escape_json_single_line: "c \<in> set (escape_json s) \<Longrightarrow> c \<notin> {CHR_nl, CHR_cr, CHR_tab}"
  by (induction s) (auto simp: escape_char_def split: if_splits)

lemma read_json_string_escape_char:
  assumes "c \<in> {CHR_nl, CHR_cr, CHR_tab} \<or> \<not> iscntrl c"
  shows "read_json_string (escape_char c @ rest)
       = map_option (apfst (Cons c)) (read_json_string rest)"
  using assms by (auto simp: escape_char_def escape_meaning_def)

section \<open>Facts about decimal printing\<close>

lemma less_10_cases:
  assumes "(n::nat) < 10"
  obtains "n = 0" | "n = 1" | "n = 2" | "n = 3" | "n = 4" | "n = 5" | "n = 6" | "n = 7"
    | "n = 8" | "n = 9"
proof -
  have "n \<in> {0, 1, 2, 3, 4, 5, 6, 7, 8, 9}" using assms by auto
  then show ?thesis using that by blast
qed

lemma digit_value_digit_char [simp]: "n < 10 \<Longrightarrow> digit_value (digit_char n) = n"
  by (rule less_10_cases [of n]) (auto simp: digit_value_def digit_char_def digit_chars_def)

lemma isdigit_digit_char [simp]: "n < 10 \<Longrightarrow> isdigit (digit_char n)"
  unfolding isdigit_def digit_char_def by (rule nth_mem) (simp add: digit_chars_def)

lemma digits_value_append:
  "digits_value acc (xs @ ys) = digits_value (digits_value acc xs) ys"
  by (induction xs arbitrary: acc) auto

lemma digits_value_shift:
  "digits_value acc xs = acc * 10 ^ length xs + digits_value 0 xs"
proof (induction xs arbitrary: acc)
  case (Cons c cs)
  have "digits_value acc (c # cs) = (10 * acc + digit_value c) * 10 ^ length cs + digits_value 0 cs"
    using Cons [of "10 * acc + digit_value c"] by simp
  also have "\<dots> = acc * 10 ^ length (c # cs) + (digit_value c * 10 ^ length cs + digits_value 0 cs)"
    by (simp add: algebra_simps)
  also have "digit_value c * 10 ^ length cs + digits_value 0 cs = digits_value 0 (c # cs)"
    using Cons [of "digit_value c"] by simp
  finally show ?case .
qed simp

lemma nat_to_string_digits: "c \<in> set (nat_to_string n) \<Longrightarrow> isdigit c"
proof (induction n rule: nat_to_string.induct)
  case (1 n)
  then show ?case by (auto simp: nat_to_string.simps [of n] split: if_splits)
qed

lemma nat_to_string_nonempty [simp]: "nat_to_string n \<noteq> []"
  by (subst nat_to_string.simps) simp

lemma digits_value_nat_to_string [simp]: "digits_value 0 (nat_to_string n) = n"
proof (induction n rule: nat_to_string.induct)
  case (1 n)
  then show ?case
    by (cases "n < 10") (auto simp: nat_to_string.simps [of n] digits_value_append)
qed

lemma isdigit_not_space: "isdigit c \<Longrightarrow> \<not> isspace c"
  by (auto simp: isdigit_def isspace_def digit_chars_def spaces_def)

lemma isdigit_not_sign: "isdigit c \<Longrightarrow> c \<noteq> CHR ''-'' \<and> c \<noteq> CHR ''+''"
  by (auto simp: isdigit_def digit_chars_def)

section \<open>What the string helpers guarantee\<close>

text \<open>
  A text that contains no control characters other than newline, carriage return and tab is
  recovered from its escaped form by a JSON reader, whatever follows the closing quote.
\<close>

lemma escape_json_round_trip:
  assumes "\<forall>c \<in> set s. c \<in> {CHR_nl, CHR_cr, CHR_tab} \<or> \<not> iscntrl c"
  shows "read_json_string (escape_json s @ CHR_quote # rest) = Some (s, rest)"
  using assms by (induction s) (simp_all add: read_json_string_escape_char)

lemma escape_json_round_trip_example:
  "read_json_string (escape_json ''C:\"x'' @ CHR_quote # ''}'') = Some (''C:\"x'', ''}'')"
  by (rule escape_json_round_trip) (simp add: iscntrl_def)

text \<open>
  Any other control character is copied as it is, and the literal is then not JSON: a reader
  rejects it.
\<close>

lemma escape_json_control_character_rejected:
  "escape_json [CHR 0x01] = [CHR 0x01] \<and> read_json_string (escape_json [CHR 0x01] @ CHR_quote # rest) = None"
  by (simp add: escape_char_def iscntrl_def)

text \<open>
  \<open>trim\<close> removes white space at both ends and nothing else: the text is its trimmed form between
  two runs of white space, and the trimmed form, unless empty, begins and ends with another character.
\<close>

lemma trim_spec:
  "\<exists>pre post. s = pre @ trim s @ post \<and> (\<forall>c \<in> set (pre @ post). isspace c) \<and>
     (trim s = [] \<or> \<not> isspace (hd (trim s)) \<and> \<not> isspace (last (trim s)))"
proof -
  obtain pre post where "s = pre @ trim s @ post" "\<forall>c \<in> set pre. isspace c" "\<forall>c \<in> set post. isspace c"
    by (rule trim_decomp)
  then show ?thesis using trim_ends [of s] by (intro exI [of _ pre] exI [of _ post]) auto
qed

lemma trim_spec_example:
  "\<exists>pre post. '' a b '' = pre @ trim '' a b '' @ post \<and> trim '' a b '' = ''a b''"
  using trim_spec [of "'' a b ''"] by (auto simp: trim_def isspace_def spaces_def)

end
