(* ===== verification/Cpp_Regex.thy ===== *)
theory Cpp_Regex
  imports Cpp_Strings
begin

text \<open>
  The fragment of ECMAScript regular expressions that \<^verbatim>\<open>common.hpp\<close> gives to
  \<^verbatim>\<open>std::regex\<close>: character classes, greedy repetition of a class, sequence,
  a greedy optional part and capturing groups. \<open>matches r s\<close> lists every way to match a
  prefix of \<open>s\<close> in the order in which the backtracking matcher tries them, each with its
  captures and the text that is left; the first entry is the one
  \<^verbatim>\<open>std::regex_search\<close> takes at that position, and the first entry that leaves
  nothing is the one \<^verbatim>\<open>std::regex_match\<close> takes. The second half of the theory
  shows when a greedy repetition is deterministic, which turns the patterns of the program
  into one-pass scanners.
\<close>

section \<open>Patterns and the backtracking matcher\<close>

datatype cclass = OneOf "char list" | NoneOf "char list"

fun in_class :: "cclass \<Rightarrow> char \<Rightarrow> bool" where
  "in_class (OneOf cs) c \<longleftrightarrow> c \<in> set cs"
| "in_class (NoneOf cs) c \<longleftrightarrow> c \<notin> set cs"

datatype regex =
    Eps
  | Cls cclass
  | Rep cclass
  | Seq regex regex
  | Opt regex
  | Grp regex

text \<open>What is left after each admissible number of repetitions, the longest run first.\<close>

fun rep_rests :: "(char \<Rightarrow> bool) \<Rightarrow> cpp_string \<Rightarrow> cpp_string list" where
  "rep_rests p [] = [[]]"
| "rep_rests p (x # xs) = (if p x then rep_rests p xs @ [x # xs] else [x # xs])"

fun matches :: "regex \<Rightarrow> cpp_string \<Rightarrow> (cpp_string list \<times> cpp_string) list" where
  "matches Eps s = [([], s)]"
| "matches (Cls c) s =
     (case s of [] \<Rightarrow> [] | x # xs \<Rightarrow> if in_class c x then [([], xs)] else [])"
| "matches (Rep c) s = map (Pair []) (rep_rests (in_class c) s)"
| "matches (Seq r1 r2) s =
     concat (map (\<lambda>(g1, t). map (\<lambda>(g2, u). (g1 @ g2, u)) (matches r2 t)) (matches r1 s))"
| "matches (Opt r) s = matches r s @ [([], s)]"
| "matches (Grp r) s = map (\<lambda>(g, t). (take (length s - length t) s # g, t)) (matches r s)"

definition first_match :: "regex \<Rightarrow> cpp_string \<Rightarrow> (cpp_string list \<times> cpp_string) option" where
  "first_match r s = (case matches r s of [] \<Rightarrow> None | m # _ \<Rightarrow> Some m)"

text \<open>\<^verbatim>\<open>std::regex_search\<close>: the leftmost position at which the pattern matches.\<close>

fun regex_search :: "regex \<Rightarrow> cpp_string \<Rightarrow> cpp_string list option" where
  "regex_search r [] = map_option fst (first_match r [])"
| "regex_search r (x # xs) =
     (case first_match r (x # xs) of
        Some m \<Rightarrow> Some (fst m)
      | None \<Rightarrow> regex_search r xs)"

text \<open>\<^verbatim>\<open>std::regex_match\<close>: the whole text has to be used up.\<close>

definition regex_match :: "regex \<Rightarrow> cpp_string \<Rightarrow> cpp_string list option" where
  "regex_match r s = map_option fst (List.find (\<lambda>m. snd m = []) (matches r s))"

section \<open>Building patterns\<close>

definition chr :: "char \<Rightarrow> regex" where
  "chr c = Cls (OneOf [c])"

fun seq :: "regex list \<Rightarrow> regex" where
  "seq [] = Eps"
| "seq (r # rs) = Seq r (seq rs)"

definition lit :: "cpp_string \<Rightarrow> regex" where
  "lit s = seq (map chr s)"

text \<open>A literal under \<^verbatim>\<open>std::regex::icase\<close>.\<close>

definition lit_icase :: "cpp_string \<Rightarrow> regex" where
  "lit_icase s = seq (map (\<lambda>c. Cls (OneOf [tolower c, toupper c])) s)"

abbreviation space_class :: cclass where "space_class \<equiv> OneOf spaces"
abbreviation digit_class :: cclass where "digit_class \<equiv> OneOf digit_chars"

definition plus :: "cclass \<Rightarrow> regex" where
  "plus c = Seq (Cls c) (Rep c)"

section \<open>The matcher consumes a prefix\<close>

lemma rep_rests_suffix: "t \<in> set (rep_rests p s) \<Longrightarrow> \<exists>u. s = u @ t \<and> (\<forall>c \<in> set u. p c)"
proof (induction s)
  case (Cons x xs)
  show ?case
  proof (cases "p x \<and> t \<in> set (rep_rests p xs)")
    case True
    then obtain u where "xs = u @ t" "\<forall>c \<in> set u. p c" using Cons.IH by blast
    with True show ?thesis by (intro exI [of _ "x # u"]) auto
  next
    case False
    with Cons.prems have "t = x # xs" by (auto split: if_splits)
    then show ?thesis by (intro exI [of _ "[]"]) simp
  qed
qed simp

section \<open>The matcher against the declarative reading\<close>

text \<open>
  \<open>parses r u g\<close>: the text \<open>u\<close>, all of it, is an instance of the pattern \<open>r\<close>
  whose groups captured \<open>g\<close>. No order of alternatives and no backtracking is involved.
\<close>

fun parses :: "regex \<Rightarrow> cpp_string \<Rightarrow> cpp_string list \<Rightarrow> bool" where
  "parses Eps u g \<longleftrightarrow> u = [] \<and> g = []"
| "parses (Cls c) u g \<longleftrightarrow> (\<exists>x. u = [x] \<and> in_class c x) \<and> g = []"
| "parses (Rep c) u g \<longleftrightarrow> (\<forall>x \<in> set u. in_class c x) \<and> g = []"
| "parses (Seq r1 r2) u g \<longleftrightarrow>
     (\<exists>u1 u2 g1 g2. u = u1 @ u2 \<and> g = g1 @ g2 \<and> parses r1 u1 g1 \<and> parses r2 u2 g2)"
| "parses (Opt r) u g \<longleftrightarrow> parses r u g \<or> u = [] \<and> g = []"
| "parses (Grp r) u g \<longleftrightarrow> (\<exists>g'. parses r u g' \<and> g = u # g')"

lemma rep_rests_iff: "t \<in> set (rep_rests p s) \<longleftrightarrow> (\<exists>u. s = u @ t \<and> (\<forall>c \<in> set u. p c))"
proof
  assume "\<exists>u. s = u @ t \<and> (\<forall>c \<in> set u. p c)"
  then obtain u where "s = u @ t" "\<forall>c \<in> set u. p c" by blast
  moreover have "\<forall>c \<in> set u. p c \<Longrightarrow> t \<in> set (rep_rests p (u @ t))" for u
    by (induction u) (cases t, auto)
  ultimately show "t \<in> set (rep_rests p s)" by simp
qed (rule rep_rests_suffix)

lemma matches_Seq_iff: "(g, t) \<in> set (matches (Seq r1 r2) s) \<longleftrightarrow>
    (\<exists>g1 g2 v. g = g1 @ g2 \<and> (g1, v) \<in> set (matches r1 s) \<and> (g2, t) \<in> set (matches r2 v))"
proof
  assume "(g, t) \<in> set (matches (Seq r1 r2) s)"
  then show "\<exists>g1 g2 v. g = g1 @ g2 \<and> (g1, v) \<in> set (matches r1 s) \<and> (g2, t) \<in> set (matches r2 v)"
    by auto
next
  assume "\<exists>g1 g2 v. g = g1 @ g2 \<and> (g1, v) \<in> set (matches r1 s) \<and> (g2, t) \<in> set (matches r2 v)"
  then obtain g1 g2 v where v: "g = g1 @ g2" "(g1, v) \<in> set (matches r1 s)" "(g2, t) \<in> set (matches r2 v)"
    by blast
  then have "(g, t) \<in> (\<lambda>(h, u). (g1 @ h, u)) ` set (matches r2 v)" by force
  with v(2) show "(g, t) \<in> set (matches (Seq r1 r2) s)"
    by (simp add: case_prod_unfold) (use v in force)
qed

lemma matches_iff_parses: "(g, t) \<in> set (matches r s) \<longleftrightarrow> (\<exists>u. s = u @ t \<and> parses r u g)"
proof (induction r arbitrary: s g t)
  case (Cls c)
  show ?case by (cases s) auto
next
  case (Rep c)
  show ?case by (auto simp: rep_rests_iff)
next
  case (Seq r1 r2)
  show ?case
  proof
    assume "(g, t) \<in> set (matches (Seq r1 r2) s)"
    then obtain g1 g2 u1 u2 where "g = g1 @ g2" "s = u1 @ u2 @ t" "parses r1 u1 g1" "parses r2 u2 g2"
      unfolding matches_Seq_iff Seq.IH by blast
    then show "\<exists>u. s = u @ t \<and> parses (Seq r1 r2) u g"
      by (intro exI [of _ "u1 @ u2"]) auto
  next
    assume "\<exists>u. s = u @ t \<and> parses (Seq r1 r2) u g"
    then obtain g1 g2 u1 u2 where "g = g1 @ g2" "s = u1 @ u2 @ t" "parses r1 u1 g1" "parses r2 u2 g2"
      by auto
    then show "(g, t) \<in> set (matches (Seq r1 r2) s)"
      unfolding matches_Seq_iff Seq.IH by blast
  qed
next
  case (Grp r)
  have "(g, t) \<in> set (matches (Grp r) s) \<longleftrightarrow>
      (\<exists>g'. (g', t) \<in> set (matches r s) \<and> g = take (length s - length t) s # g')"
    by auto
  also have "\<dots> \<longleftrightarrow> (\<exists>u. s = u @ t \<and> parses (Grp r) u g)" unfolding Grp.IH by auto
  finally show ?case .
qed auto

lemma regex_match_parses: "regex_match r s = Some g \<Longrightarrow> parses r s g"
proof -
  assume "regex_match r s = Some g"
  then obtain t where "List.find (\<lambda>m. snd m = []) (matches r s) = Some (g, t)"
    by (auto simp: regex_match_def)
  then have "(g, []) \<in> set (matches r s)"
    by (auto simp: find_Some_iff) (metis nth_mem snd_conv)
  then show ?thesis by (simp add: matches_iff_parses)
qed

lemma regex_match_exists: "parses r s g \<Longrightarrow> regex_match r s \<noteq> None"
proof -
  assume "parses r s g"
  then have "(g, []) \<in> set (matches r s)" by (simp add: matches_iff_parses)
  then show ?thesis by (auto simp: regex_match_def find_None_iff)
qed

lemma regex_match_unique:
  assumes "\<And>g'. parses r s g' \<Longrightarrow> g' = g" and "parses r s g"
  shows "regex_match r s = Some g"
  using regex_match_exists [OF assms(2)] assms(1) regex_match_parses by fastforce

section \<open>Deterministic repetition\<close>

text \<open>
  \<open>stuck_on p r\<close>: the pattern \<open>r\<close> matches nothing that starts with a character of
  \<open>p\<close>. A greedy repetition of \<open>p\<close> before such an \<open>r\<close> never gives anything back.
\<close>

definition stuck_on :: "(char \<Rightarrow> bool) \<Rightarrow> regex \<Rightarrow> bool" where
  "stuck_on p r \<longleftrightarrow> (\<forall>x xs. p x \<longrightarrow> matches r (x # xs) = [])"

lemma stuck_onD: "stuck_on p r \<Longrightarrow> p x \<Longrightarrow> matches r (x # xs) = []"
  by (simp add: stuck_on_def)

lemma rep_rests_greedy:
  "\<exists>ts. rep_rests p s = dropWhile p s # ts \<and> (\<forall>t \<in> set ts. \<exists>x xs. t = x # xs \<and> p x)"
  by (induction s) auto

lemma matches_Grp_Rep_stuck:
  assumes "stuck_on (in_class c) r"
  shows "matches (Seq (Grp (Rep c)) r) s =
    map (\<lambda>(g, u). (takeWhile (in_class c) s # g, u)) (matches r (dropWhile (in_class c) s))"
proof -
  obtain ts where ts: "rep_rests (in_class c) s = dropWhile (in_class c) s # ts"
    and "\<forall>t \<in> set ts. \<exists>x xs. t = x # xs \<and> in_class c x"
    using rep_rests_greedy by blast
  with assms have dead: "\<forall>t \<in> set ts. matches r t = []"
    by (auto dest: stuck_onD)
  have "concat (map (\<lambda>t. map (\<lambda>(g2, u). (take (length s - length t) s # g2, u)) (matches r t)) ts)
      = []"
    by (rule concat_map_all_Nil) (simp add: dead)
  then show ?thesis by (simp add: ts case_prod_unfold comp_def takeWhile_as_take)
qed

lemma matches_Rep_stuck:
  assumes "stuck_on (in_class c) r"
  shows "matches (Seq (Rep c) r) s = matches r (dropWhile (in_class c) s)"
proof -
  obtain ts where ts: "rep_rests (in_class c) s = dropWhile (in_class c) s # ts"
    and "\<forall>t \<in> set ts. \<exists>x xs. t = x # xs \<and> in_class c x"
    using rep_rests_greedy by blast
  with assms have "\<forall>t \<in> set ts. matches r t = []"
    by (auto dest: stuck_onD)
  then have "concat (map (matches r) ts) = []" by (rule concat_map_all_Nil)
  then show ?thesis by (simp add: ts case_prod_unfold comp_def)
qed

lemma matches_chr: "matches (Seq (chr c) r) s =
    (case s of [] \<Rightarrow> [] | x # xs \<Rightarrow> if x = c then matches r xs else [])"
  by (auto simp: chr_def case_prod_unfold split: list.splits)

lemma matches_chr_only [simp]: "matches (chr c) s =
    (case s of [] \<Rightarrow> [] | x # xs \<Rightarrow> if x = c then [([], xs)] else [])"
  by (simp add: chr_def split: list.splits)

lemma matches_Cls: "matches (Seq (Cls k) r) s =
    (case s of [] \<Rightarrow> [] | x # xs \<Rightarrow> if in_class k x then matches r xs else [])"
  by (auto simp: case_prod_unfold split: list.splits)

lemma stuck_on_chr: "\<not> p c \<Longrightarrow> stuck_on p (Seq (chr c) r)"
  unfolding stuck_on_def matches_chr by auto

lemma stuck_on_Cls: "\<forall>x. in_class k x \<longrightarrow> \<not> p x \<Longrightarrow> stuck_on p (Seq (Cls k) r)"
  unfolding stuck_on_def matches_Cls by auto

lemma matches_Eps_left [simp]: "matches (Seq Eps r) s = matches r s"
  by (simp add: case_prod_unfold)

lemma matches_Eps_right [simp]: "matches (Seq r Eps) s = matches r s"
  by (simp add: case_prod_unfold)

lemma matches_assoc: "matches (Seq (Seq r1 r2) r3) s = matches (Seq r1 (Seq r2 r3)) s"
  by (simp add: case_prod_unfold map_concat comp_def concat_map_concat concat_concat)

declare matches.simps(4) [simp del]

lemma matches_lit: "matches (Seq (lit w) r) s =
    (if take (length w) s = w then matches r (drop (length w) s) else [])"
proof (induction w arbitrary: s)
  case Nil
  show ?case by (simp add: lit_def)
next
  case (Cons c w)
  have "matches (Seq (lit (c # w)) r) s = matches (Seq (chr c) (Seq (lit w) r)) s"
    by (simp only: lit_def list.map seq.simps matches_assoc)
  then show ?case by (cases s) (auto simp: matches_chr Cons.IH)
qed

lemma matches_Opt_chr_stuck:
  assumes "stuck_on (\<lambda>x. x = c) r"
  shows "matches (Seq (Opt (chr c)) r) s =
    matches r (case s of x # xs \<Rightarrow> if x = c then xs else s | [] \<Rightarrow> s)"
  using assms
  by (cases s) (auto simp: matches.simps(4) case_prod_unfold stuck_onD)

section \<open>The first match\<close>

lemma first_match_None_iff: "first_match r s = None \<longleftrightarrow> matches r s = []"
  by (simp add: first_match_def split: list.splits)

lemma first_match_cong: "matches r s = matches r' s' \<Longrightarrow> first_match r s = first_match r' s'"
  by (simp add: first_match_def)

lemma first_match_Seq:
  assumes "first_match r1 s = Some (g1, t)" and "first_match r2 t = Some (g2, u)"
  shows "first_match (Seq r1 r2) s = Some (g1 @ g2, u)"
  using assms by (auto simp: first_match_def matches.simps(4) split: list.splits)

lemma first_match_Seq_None:
  assumes "first_match r1 s = None"
  shows "first_match (Seq r1 r2) s = None"
  using assms by (simp add: first_match_None_iff matches.simps(4))

lemma first_match_Opt: "first_match (Opt r) s =
    (case first_match r s of Some m \<Rightarrow> Some m | None \<Rightarrow> Some ([], s))"
  by (simp add: first_match_def split: list.splits)

lemma first_match_Grp: "first_match (Grp r) s =
    map_option (\<lambda>(g, t). (take (length s - length t) s # g, t)) (first_match r s)"
  by (simp add: first_match_def split: list.splits)

lemma first_match_plus: "first_match (plus c) s =
    (if takeWhile (in_class c) s = [] then None else Some ([], dropWhile (in_class c) s))"
proof (cases s)
  case (Cons x xs)
  obtain ts where "rep_rests (in_class c) xs = dropWhile (in_class c) xs # ts"
    using rep_rests_greedy by blast
  with Cons show ?thesis by (simp add: plus_def first_match_def matches_Cls)
qed (simp add: plus_def first_match_def matches_Cls)

section \<open>Searching\<close>

lemma regex_search_skip:
  assumes "stuck_on (\<lambda>c. c \<noteq> q) r" and "q \<notin> set u"
  shows "regex_search r (u @ s) = regex_search r s"
  using assms(2)
proof (induction u)
  case (Cons x xs)
  then have "first_match r (x # xs @ s) = None"
    using stuck_onD [OF assms(1), of x "xs @ s"] by (auto simp: first_match_None_iff)
  with Cons show ?case by simp
qed simp

end
