(* ===== verification/Common_Json.thy ===== *)
theory Common_Json
  imports Cpp_Regex
begin

text \<open>
  \<^verbatim>\<open>json_get_string\<close>, \<^verbatim>\<open>json_get_number\<close> and
  \<^verbatim>\<open>json_get_integer\<close> of \<^verbatim>\<open>common.hpp\<close>: each builds a regular
  expression around the key and takes the first capture of the leftmost match in the line.
  The patterns are translated literally (the keys the program passes are identifiers, so no
  character of a key is a metacharacter); the numeric readers stop here at the captured text,
  its conversion is in the theory of doubles. Each reader is shown equal to a one-pass
  scanner, and the locale \<open>field_reader\<close> derives from the scanner's contract how a
  reader walks over the fields of a message; the three readers are its interpretations.
\<close>

section \<open>The patterns and the readers\<close>

definition quoted_key :: "cpp_string \<Rightarrow> cpp_string" where
  "quoted_key key = CHR_quote # key @ [CHR_quote]"

definition json_string_regex :: "cpp_string \<Rightarrow> regex" where
  "json_string_regex key =
     seq [lit (quoted_key key), Rep space_class, chr (CHR '':''), Rep space_class,
          chr CHR_quote, Grp (Rep (NoneOf [CHR_quote])), chr CHR_quote]"

definition json_number_regex :: "cpp_string \<Rightarrow> regex" where
  "json_number_regex key =
     seq [lit (quoted_key key), Rep space_class, chr (CHR '':''), Rep space_class,
          Grp (seq [Opt (chr (CHR ''-'')), plus digit_class,
                    Opt (seq [chr (CHR ''.''), plus digit_class])])]"

definition json_integer_regex :: "cpp_string \<Rightarrow> regex" where
  "json_integer_regex key =
     seq [lit (quoted_key key), Rep space_class, chr (CHR '':''), Rep space_class,
          Grp (seq [Opt (chr (CHR ''-'')), plus digit_class])]"

definition capture1 :: "cpp_string list option \<Rightarrow> cpp_string option" where
  "capture1 m = (case m of Some (g # _) \<Rightarrow> Some g | _ \<Rightarrow> None)"

definition json_get_string :: "cpp_string \<Rightarrow> cpp_string \<Rightarrow> cpp_string option" where
  "json_get_string payload key = capture1 (regex_search (json_string_regex key) payload)"

definition json_number_text :: "cpp_string \<Rightarrow> cpp_string \<Rightarrow> cpp_string option" where
  "json_number_text payload key = capture1 (regex_search (json_number_regex key) payload)"

definition json_integer_text :: "cpp_string \<Rightarrow> cpp_string \<Rightarrow> cpp_string option" where
  "json_integer_text payload key = capture1 (regex_search (json_integer_regex key) payload)"

section \<open>Scanners\<close>

definition field_value :: "cpp_string \<Rightarrow> cpp_string \<Rightarrow> cpp_string option" where
  "field_value key s =
     (let w = quoted_key key in
      if take (length w) s = w
      then (case dropWhile isspace (drop (length w) s) of
              c # t \<Rightarrow> if c = CHR '':'' then Some (dropWhile isspace t) else None
            | [] \<Rightarrow> None)
      else None)"

definition string_token :: "cpp_string \<Rightarrow> cpp_string option" where
  "string_token s =
     (case s of
        c # t \<Rightarrow> if c = CHR_quote \<and> CHR_quote \<in> set t
                 then Some (takeWhile (\<lambda>x. x \<noteq> CHR_quote) t) else None
      | [] \<Rightarrow> None)"

definition minus_sign :: "cpp_string \<Rightarrow> cpp_string" where
  "minus_sign s = (case s of c # _ \<Rightarrow> if c = CHR ''-'' then [c] else [] | [] \<Rightarrow> [])"

definition fraction_text :: "cpp_string \<Rightarrow> cpp_string" where
  "fraction_text s =
     (case s of
        c # t \<Rightarrow> if c = CHR ''.'' \<and> takeWhile isdigit t \<noteq> [] then c # takeWhile isdigit t else []
      | [] \<Rightarrow> [])"

definition integer_token :: "cpp_string \<Rightarrow> cpp_string option" where
  "integer_token s =
     (let sg = minus_sign s; ds = takeWhile isdigit (drop (length sg) s)
      in if ds = [] then None else Some (sg @ ds))"

definition number_token :: "cpp_string \<Rightarrow> cpp_string option" where
  "number_token s =
     (let sg = minus_sign s; t = drop (length sg) s; ds = takeWhile isdigit t
      in if ds = [] then None else Some (sg @ ds @ fraction_text (dropWhile isdigit t)))"

section \<open>Readers equal scanners\<close>

lemma in_class_space [simp]: "in_class space_class = isspace"
  by (simp add: fun_eq_iff isspace_def)

lemma in_class_digit [simp]: "in_class digit_class = isdigit"
  by (simp add: fun_eq_iff isdigit_def)

lemma in_class_not_quote [simp]: "in_class (NoneOf [CHR_quote]) = (\<lambda>x. x \<noteq> CHR_quote)"
  by (simp add: fun_eq_iff)

lemma not_space [simp]:
  "\<not> isspace CHR_quote" "\<not> isspace (CHR '':'')" "\<not> isspace (CHR ''-'')" "\<not> isspace (CHR '','')"
  by (simp_all add: isspace_def spaces_def)

lemma not_digit [simp]:
  "\<not> isdigit CHR_quote" "\<not> isdigit (CHR '','')" "\<not> isdigit (CHR ''-'')" "\<not> isdigit (CHR ''.'')"
  "\<not> isdigit (CHR ''}'')"
  by (simp_all add: isdigit_def digit_chars_def)

lemma matches_key_prefix:
  assumes "stuck_on isspace r"
  shows "matches (Seq (lit (quoted_key key)) (Seq (Rep space_class)
           (Seq (chr (CHR '':'')) (Seq (Rep space_class) r)))) s
       = (case field_value key s of None \<Rightarrow> [] | Some t \<Rightarrow> matches r t)"
proof (cases "dropWhile isspace (drop (length (quoted_key key)) s)")
  case Nil
  then show ?thesis
    by (simp add: matches_lit matches_Rep_stuck stuck_on_chr matches_chr field_value_def Let_def
        del: dropWhile_eq_Nil_conv)
next
  case (Cons c t)
  then show ?thesis
    by (simp add: matches_lit matches_Rep_stuck stuck_on_chr matches_chr assms field_value_def
        Let_def)
qed

lemma string_tail_matches:
  "matches (Seq (chr CHR_quote) (Seq (Grp (Rep (NoneOf [CHR_quote]))) (Seq (chr CHR_quote) Eps))) t
   = (case string_token t of None \<Rightarrow> []
      | Some v \<Rightarrow> [([v], drop (length v + 2) t)])"
proof (cases t)
  case Nil
  then show ?thesis by (simp add: matches_chr string_token_def)
next
  case (Cons c u)
  let ?nq = "\<lambda>x. x \<noteq> CHR_quote"
  show ?thesis
  proof (cases "CHR_quote \<in> set u")
    case True
    then obtain a b where u: "u = a @ CHR_quote # b" "CHR_quote \<notin> set a"
      by (meson split_list_first)
    with Cons True show ?thesis
      by (simp add: matches_chr matches_Grp_Rep_stuck stuck_on_chr string_token_def u)
  next
    case False
    then have "dropWhile ?nq u = []" by auto
    with Cons False show ?thesis
      by (simp add: matches_chr matches_Grp_Rep_stuck stuck_on_chr string_token_def
          del: dropWhile_eq_Nil_conv)
  qed
qed

lemma stuck_on_Opt_chr:
  "stuck_on p r \<Longrightarrow> stuck_on (\<lambda>x. x = c) r \<Longrightarrow> \<not> p c \<Longrightarrow> stuck_on p (Seq (Opt (chr c)) r)"
  by (auto simp: stuck_on_def matches_Opt_chr_stuck)

lemma stuck_on_plus: "\<forall>x. in_class k x \<longrightarrow> \<not> p x \<Longrightarrow> stuck_on p (Seq (plus k) r)"
  by (auto simp: stuck_on_def plus_def matches_assoc matches_Cls)

lemma stuck_on_Grp: "stuck_on p r \<Longrightarrow> stuck_on p (Seq (Grp r) Eps)"
  by (simp add: stuck_on_def)

lemmas stuck_intros = stuck_on_chr stuck_on_Cls stuck_on_Opt_chr stuck_on_plus stuck_on_Grp

lemma drop_minus_sign: "drop (length (minus_sign s)) s =
    (case s of x # xs \<Rightarrow> if x = CHR ''-'' then xs else s | [] \<Rightarrow> s)"
  by (auto simp: minus_sign_def split: list.splits)

lemma first_match_fraction:
  "first_match (Seq (Opt (seq [chr (CHR ''.''), plus digit_class])) Eps) s
   = Some ([], drop (length (fraction_text s)) s)"
proof -
  let ?r = "seq [chr (CHR ''.''), plus digit_class]"
  have "first_match ?r s =
      (if fraction_text s = [] then None else Some ([], drop (length (fraction_text s)) s))"
  proof (cases s)
    case (Cons c t)
    have "first_match ?r s = (if c = CHR ''.'' then first_match (plus digit_class) t else None)"
      by (simp add: Cons first_match_def matches_chr)
    then show ?thesis
      by (simp add: Cons first_match_plus fraction_text_def dropWhile_eq_drop)
  qed (simp add: first_match_def matches_chr fraction_text_def)
  then show ?thesis
    by (simp add: first_match_cong [OF matches_Eps_right] first_match_Opt)
qed

lemma stuck_on_number [intro]:
  "stuck_on isspace (Seq (Opt (chr (CHR ''-''))) (Seq (plus digit_class) r))"
  "stuck_on (\<lambda>x. x = CHR ''-'') (Seq (plus digit_class) r)"
  by (intro stuck_intros; auto dest: isdigit_not_space isdigit_not_sign)+

lemma drop_takeWhile: "drop (length (takeWhile p s)) s = dropWhile p s"
  by (simp add: dropWhile_eq_drop)

lemma drop_add: "drop (m + n) s = drop n (drop m s)"
  by (simp add: add.commute)

lemma first_match_number:
  "first_match (seq [Opt (chr (CHR ''-'')), plus digit_class,
       Opt (seq [chr (CHR ''.''), plus digit_class])]) s
   = map_option (\<lambda>v. ([], drop (length v) s)) (number_token s)"
    (is "first_match (seq [_, _, ?frac]) s = _")
proof -
  define t where "t = drop (length (minus_sign s)) s"
  have "first_match (seq [Opt (chr (CHR ''-'')), plus digit_class, ?frac]) s
      = first_match (Seq (plus digit_class) (Seq ?frac Eps)) t"
    unfolding t_def drop_minus_sign seq.simps
    by (intro first_match_cong matches_Opt_chr_stuck stuck_on_number)
  moreover have "first_match (Seq (plus digit_class) (Seq ?frac Eps)) t
      = map_option (\<lambda>v. ([], drop (length v) s)) (number_token s)"
  proof (cases "takeWhile isdigit t = []")
    case True
    then show ?thesis
      by (simp add: first_match_Seq_None first_match_plus number_token_def Let_def t_def [symmetric]
          del: takeWhile_eq_Nil_iff)
  next
    case False
    then have "first_match (plus digit_class) t = Some ([], dropWhile isdigit t)"
      by (simp add: first_match_plus)
    from first_match_Seq [OF this first_match_fraction]
    have "first_match (Seq (plus digit_class) (Seq ?frac Eps)) t
        = Some ([], drop (length (fraction_text (dropWhile isdigit t))) (dropWhile isdigit t))"
      by simp
    with False show ?thesis
      by (simp add: number_token_def Let_def t_def [symmetric] drop_add drop_takeWhile
          del: drop_drop)
  qed
  ultimately show ?thesis by simp
qed

lemma first_match_integer:
  "first_match (seq [Opt (chr (CHR ''-'')), plus digit_class]) s
   = map_option (\<lambda>v. ([], drop (length v) s)) (integer_token s)"
proof -
  define t where "t = drop (length (minus_sign s)) s"
  have "first_match (seq [Opt (chr (CHR ''-'')), plus digit_class]) s
      = first_match (Seq (plus digit_class) Eps) t"
    unfolding t_def drop_minus_sign seq.simps
    by (intro first_match_cong matches_Opt_chr_stuck stuck_on_number)
  moreover have "first_match (Seq (plus digit_class) Eps) t = first_match (plus digit_class) t"
    by (intro first_match_cong) simp
  ultimately show ?thesis
    by (simp add: first_match_plus integer_token_def Let_def t_def [symmetric] drop_add
        drop_takeWhile del: takeWhile_eq_Nil_iff drop_drop)
qed

lemma take_minus_sign: "take (length (minus_sign s)) s = minus_sign s"
  by (auto simp: minus_sign_def split: list.splits)

lemma take_fraction_text: "take (length (fraction_text s)) s = fraction_text s"
  by (auto simp: fraction_text_def takeWhile_eq_take [symmetric] split: list.splits)

lemma number_token_prefix: "number_token s = Some v \<Longrightarrow> take (length v) s = v"
proof -
  let ?t = "drop (length (minus_sign s)) s"
  assume "number_token s = Some v"
  then have v: "v = minus_sign s @ takeWhile isdigit ?t @ fraction_text (dropWhile isdigit ?t)"
    by (auto simp: number_token_def Let_def split: if_splits)
  have "s = minus_sign s @ ?t" by (metis append_take_drop_id take_minus_sign)
  also have "\<dots> = minus_sign s @ takeWhile isdigit ?t @ dropWhile isdigit ?t" by simp
  also have "\<dots> = v @ drop (length (fraction_text (dropWhile isdigit ?t))) (dropWhile isdigit ?t)"
    by (simp only: v append_assoc)
      (metis append_take_drop_id take_fraction_text)
  finally show ?thesis by (metis append_eq_conv_conj)
qed

lemma integer_token_prefix: "integer_token s = Some v \<Longrightarrow> take (length v) s = v"
proof -
  let ?t = "drop (length (minus_sign s)) s"
  assume "integer_token s = Some v"
  then have v: "v = minus_sign s @ takeWhile isdigit ?t"
    by (auto simp: integer_token_def Let_def split: if_splits)
  have "s = minus_sign s @ ?t" by (metis append_take_drop_id take_minus_sign)
  also have "\<dots> = v @ dropWhile isdigit ?t" by (simp add: v)
  finally show ?thesis by (metis append_eq_conv_conj)
qed

text \<open>A search whose matcher agrees with a scanner at every position is the scan.\<close>

fun scan :: "(cpp_string \<Rightarrow> 'v option) \<Rightarrow> cpp_string \<Rightarrow> 'v option" where
  "scan f [] = f []"
| "scan f (x # xs) = (case f (x # xs) of Some v \<Rightarrow> Some v | None \<Rightarrow> scan f xs)"

lemma capture_search_scan:
  assumes "\<And>s. map_option fst (first_match r s) = map_option (\<lambda>v. [v]) (f s)"
  shows "capture1 (regex_search r s) = scan f s"
proof (induction s)
  case Nil
  show ?case using assms [of "[]"] by (cases "f []") (auto simp: capture1_def)
next
  case (Cons x xs)
  then show ?case
    using assms [of "x # xs"] by (cases "f (x # xs)") (auto simp: capture1_def)
qed

lemma first_match_field:
  assumes "stuck_on isspace (seq rs)"
  shows "first_match (seq (lit (quoted_key key) # Rep space_class # chr (CHR '':'')
             # Rep space_class # rs)) s
       = Option.bind (field_value key s) (first_match (seq rs))"
  using matches_key_prefix [OF assms, of key s]
  by (cases "field_value key s") (auto simp: first_match_def)

lemma capture_token:
  assumes "first_match r t = map_option (\<lambda>v. ([], drop (length v) t)) (tok t)"
    and "\<And>v. tok t = Some v \<Longrightarrow> take (length v) t = v"
  shows "map_option fst (first_match (Seq (Grp r) Eps) t) = map_option (\<lambda>v. [v]) (tok t)"
proof -
  have "first_match (Seq (Grp r) Eps) t = first_match (Grp r) t"
    by (rule first_match_cong) simp
  moreover have "take (length t - length (drop (length v) t)) t = v" if "tok t = Some v" for v
    using assms(2) [OF that] by (metis append_eq_conv_conj append_take_drop_id diff_diff_cancel
        length_append length_drop le_add1 take_all_iff linorder_le_cases)
  ultimately show ?thesis using assms(1) by (cases "tok t") (auto simp: first_match_Grp)
qed

lemma bind_map_fst:
  assumes "\<And>t. map_option fst (g t) = map_option (\<lambda>v. [v]) (h t)"
  shows "map_option fst (Option.bind m g) = map_option (\<lambda>v. [v]) (Option.bind m h)"
  using assms by (cases m) auto

lemma json_get_string_scan:
  "json_get_string payload key = scan (\<lambda>s. Option.bind (field_value key s) string_token) payload"
  unfolding json_get_string_def json_string_regex_def
proof (intro capture_search_scan, subst first_match_field, goal_cases)
  case 1
  show ?case by (simp add: stuck_on_chr)
next
  case (2 s)
  show ?case
    by (intro bind_map_fst)
      (simp add: first_match_def string_tail_matches split: option.splits)
qed

lemma json_number_text_scan:
  "json_number_text payload key = scan (\<lambda>s. Option.bind (field_value key s) number_token) payload"
  unfolding json_number_text_def json_number_regex_def
proof (intro capture_search_scan, subst first_match_field, goal_cases)
  case 1
  show ?case using stuck_on_number(1) [of "seq [Opt (seq [chr (CHR ''.''), plus digit_class])]"]
    by (simp add: stuck_on_Grp)
next
  case (2 s)
  show ?case unfolding seq.simps(2) [of "Grp _"] seq.simps(1)
    by (intro bind_map_fst capture_token first_match_number number_token_prefix)
qed

lemma json_integer_text_scan:
  "json_integer_text payload key = scan (\<lambda>s. Option.bind (field_value key s) integer_token) payload"
  unfolding json_integer_text_def json_integer_regex_def
proof (intro capture_search_scan, subst first_match_field, goal_cases)
  case 1
  show ?case using stuck_on_number(1) [of "seq []"]
    by (simp add: stuck_on_Grp)
next
  case (2 s)
  show ?case unfolding seq.simps(2) [of "Grp _"] seq.simps(1)
    by (intro bind_map_fst capture_token first_match_integer integer_token_prefix)
qed

section \<open>How a reader walks over a message\<close>

definition ident_char :: "char \<Rightarrow> bool" where
  "ident_char c \<longleftrightarrow> c \<in> set ''abcdefghijklmnopqrstuvwxyz_''"

definition ident :: "cpp_string \<Rightarrow> bool" where
  "ident key \<longleftrightarrow> key \<noteq> [] \<and> list_all ident_char key"

text \<open>The characters that follow a complete field: a comma or a closing brace.\<close>

definition field_end :: "char \<Rightarrow> bool" where
  "field_end c \<longleftrightarrow> c \<in> set '',}''"

definition jstr :: "cpp_string \<Rightarrow> cpp_string \<Rightarrow> cpp_string" where
  "jstr k v = quoted_key k @ CHR '':'' # CHR_quote # v @ [CHR_quote]"

definition jnum :: "cpp_string \<Rightarrow> cpp_string \<Rightarrow> cpp_string" where
  "jnum k v = quoted_key k @ CHR '':'' # v"

lemma not_ident_char [simp]:
  "\<not> ident_char CHR_quote" "\<not> ident_char (CHR '':'')" "\<not> ident_char (CHR '','')"
  "\<not> ident_char (CHR ''}'')"
  by (simp_all add: ident_char_def)

lemma ident_no_quote: "ident key \<Longrightarrow> CHR_quote \<notin> set key"
  by (auto simp: ident_def list_all_iff)

lemma ident_head: "ident key \<Longrightarrow> \<not> ident_char c \<Longrightarrow> take (Suc (length key)) (c # s) \<noteq> key @ [x]"
  by (cases key) (auto simp: ident_def)

lemma first_quote_unique:
  assumes "CHR_quote \<notin> set a" and "CHR_quote \<notin> set b" and "a @ CHR_quote # x = b @ CHR_quote # y"
  shows "a = b \<and> x = y"
proof -
  have "a = takeWhile (\<lambda>c. c \<noteq> CHR_quote) (a @ CHR_quote # x)" using assms(1) by simp
  also have "\<dots> = b" using assms(2) by (simp add: assms(3))
  finally have "a = b" .
  with assms(3) show ?thesis by simp
qed

lemma quoted_key_at:
  assumes "ident key" and "CHR_quote \<notin> set k"
  shows "take (length (quoted_key key)) (quoted_key k @ s) = quoted_key key \<longleftrightarrow> k = key"
proof
  assume "take (length (quoted_key key)) (quoted_key k @ s) = quoted_key key"
  then obtain r where "quoted_key k @ s = quoted_key key @ r" by (metis append_take_drop_id)
  then show "k = key"
    using assms ident_no_quote first_quote_unique [of k key s r] by (auto simp: quoted_key_def)
qed simp

lemma field_value_here [simp]: "field_value key (quoted_key key @ CHR '':'' # s) = Some (dropWhile isspace s)"
  by (simp add: field_value_def Let_def)

lemma field_value_other:
  assumes "ident key" and "CHR_quote \<notin> set k" and "k = key \<longrightarrow> c \<noteq> CHR '':'' \<and> \<not> isspace c"
  shows "field_value key (quoted_key k @ c # s) = None"
  using quoted_key_at [OF assms(1,2), of "c # s"] assms(3)
  by (cases "k = key") (simp_all add: field_value_def Let_def)

lemma field_value_closing:
  assumes "ident key" and "\<not> ident_char c"
  shows "field_value key (CHR_quote # c # s) = None"
proof -
  have "take (Suc (length key)) (c # s) \<noteq> key @ [CHR_quote]"
    using ident_head [OF assms] .
  then show ?thesis by (simp add: field_value_def quoted_key_def)
qed

lemma field_value_not_quote: "x \<noteq> CHR_quote \<Longrightarrow> field_value key (x # xs) = None"
  by (simp add: field_value_def quoted_key_def)

lemma field_value_Nil [simp]: "field_value key [] = None"
  by (simp add: field_value_def quoted_key_def)

locale field_reader =
  fixes get :: "cpp_string \<Rightarrow> cpp_string \<Rightarrow> 'v option"
    and token :: "cpp_string \<Rightarrow> 'v option"
  assumes get_Nil: "get [] key = Option.bind (field_value key []) token"
    and get_Cons: "get (x # xs) key =
      (case Option.bind (field_value key (x # xs)) token of Some v \<Rightarrow> Some v | None \<Rightarrow> get xs key)"
begin

lemma get_empty: "get [] key = None"
  by (simp add: get_Nil)

lemma get_miss: "field_value key (x # xs) = None \<Longrightarrow> get (x # xs) key = get xs key"
  by (simp add: get_Cons)

lemma get_skip: "CHR_quote \<notin> set u \<Longrightarrow> get (u @ s) key = get s key"
  by (induction u) (auto simp: get_miss field_value_not_quote)

lemma get_skip_Cons: "x \<noteq> CHR_quote \<Longrightarrow> get (x # s) key = get s key"
  by (simp add: get_miss field_value_not_quote)

lemma get_skip_quoted:
  assumes "ident key" and "CHR_quote \<notin> set v" and "\<not> ident_char c" and "c \<noteq> CHR_quote"
    and "v = key \<longrightarrow> c \<noteq> CHR '':'' \<and> \<not> isspace c"
  shows "get (quoted_key v @ c # s) key = get s key"
proof -
  have "field_value key (quoted_key v @ c # s) = None"
    using assms by (intro field_value_other)
  then have "get (quoted_key v @ c # s) key = get (v @ CHR_quote # c # s) key"
    by (simp add: quoted_key_def get_miss)
  also have "\<dots> = get (CHR_quote # c # s) key" using assms(2) by (rule get_skip)
  also have "\<dots> = get (c # s) key"
    using field_value_closing [OF assms(1,3)] by (rule get_miss)
  finally show ?thesis using assms(4) by (simp add: get_skip_Cons)
qed

lemma get_here: "token (dropWhile isspace s) = Some v \<Longrightarrow> get (quoted_key key @ CHR '':'' # s) key = Some v"
  using field_value_here [of key s] by (simp add: quoted_key_def get_Cons)

lemma get_skip_key:
  assumes "ident key" and "ident k" and "k \<noteq> key"
  shows "get (quoted_key k @ CHR '':'' # s) key = get s key"
  using assms by (intro get_skip_quoted) (auto simp: ident_no_quote)

lemma get_skip_jstr:
  assumes "ident key" and "ident k" and "k \<noteq> key" and "CHR_quote \<notin> set v" and "field_end c"
  shows "get (jstr k v @ c # s) key = get s key"
proof -
  have "get (jstr k v @ c # s) key = get (quoted_key v @ c # s) key"
    using get_skip_key [OF assms(1-3), of "quoted_key v @ c # s"]
    by (simp add: jstr_def quoted_key_def)
  also have "\<dots> = get s key"
    using assms by (intro get_skip_quoted)
      (auto simp: field_end_def isspace_def spaces_def)
  finally show ?thesis .
qed

lemma get_skip_jnum:
  assumes "ident key" and "ident k" and "k \<noteq> key" and "CHR_quote \<notin> set v"
  shows "get (jnum k v @ s) key = get s key"
  using get_skip_key [OF assms(1-3), of "v @ s"] get_skip [OF assms(4)] by (simp add: jnum_def)

lemma get_jnum: "token (dropWhile isspace (v @ s)) = Some w \<Longrightarrow> get (jnum key v @ s) key = Some w"
  using get_here [of "v @ s"] by (simp add: jnum_def)

lemma get_jstr:
  "token (CHR_quote # v @ CHR_quote # s) = Some w \<Longrightarrow> get (jstr key v @ s) key = Some w"
  using get_here [of "CHR_quote # v @ CHR_quote # s"] by (simp add: jstr_def)

end

lemma scan_field_reader:
  assumes "\<And>payload key. get payload key = scan (\<lambda>s. Option.bind (field_value key s) token) payload"
  shows "field_reader get token"
  by (unfold_locales, unfold assms) simp_all

interpretation str: field_reader json_get_string string_token
  by (rule scan_field_reader) (rule json_get_string_scan)

interpretation num: field_reader json_number_text number_token
  by (rule scan_field_reader) (rule json_number_text_scan)

interpretation intg: field_reader json_integer_text integer_token
  by (rule scan_field_reader) (rule json_integer_text_scan)

lemma string_token_quoted: "CHR_quote \<notin> set v \<Longrightarrow> string_token (CHR_quote # v @ CHR_quote # s) = Some v"
  by (simp add: string_token_def)

section \<open>The readers against their reference\<close>

text \<open>
  C25: The three regular expressions find what a direct scan finds: the value at the first position where
  the quoted key, optional white space, a colon and optional white space are followed by a token of the
  wanted kind, up to the next quote for a string, an optional minus sign with digits for an integer, and
  these with an optional fraction for a number.
\<close>

theorem json_readers_scan:
  "json_get_string payload key = scan (\<lambda>s. Option.bind (field_value key s) string_token) payload \<and>
   json_number_text payload key = scan (\<lambda>s. Option.bind (field_value key s) number_token) payload \<and>
   json_integer_text payload key = scan (\<lambda>s. Option.bind (field_value key s) integer_token) payload"
  by (simp only: json_get_string_scan json_number_text_scan json_integer_text_scan)

text \<open>
  The string reader does not undo escapes: of a value that the encoder escaped, it returns the text up to
  the first quote, the backslash of the escape included.
\<close>

lemma json_get_string_keeps_escapes:
  "json_get_string (''{\"host\":\"'' @ escape_json (''a'' @ [CHR_quote] @ ''b'') @ ''\"}'') ''host'' =
     Some (''a'' @ [CHR_backslash])"
  by code_simp

end
