(* ===== verification/Cpp_Doubles.thy ===== *)
theory Cpp_Doubles
  imports Cpp_Rounding Common_Json "HOL-Library.Code_Target_Numeral"
begin

text \<open>
  The type \<^verbatim>\<open>double\<close> (IEEE 754 binary64, round to nearest even) with the
  operations the sources apply to it: conversion from integers, product, quotient,
  comparison, \<^verbatim>\<open>std::stod\<close> and the fixed two-digit printing of
  \<^verbatim>\<open>format_double\<close>; also \<^verbatim>\<open>std::stoll\<close> and the two numeric
  field readers of \<^verbatim>\<open>common.hpp\<close> that end in these conversions.
  Everything is computed on natural numbers; the lemmas connect the computation with the
  real function \<^verbatim>\<open>rnd\<close> of the theory of rounding.
\<close>

section \<open>Representation and rounding\<close>

text \<open>\<open>Finite s m e\<close> is \<open>m * 2\<^bsup>e\<^esup>\<close>, negated when \<open>s\<close> holds.\<close>

datatype double = Finite bool nat int | Infinity bool | NaN

fun ilog2 :: "nat \<Rightarrow> nat" where
  "ilog2 n = (if n < 2 then 0 else Suc (ilog2 (n div 2)))"

declare ilog2.simps [simp del]

definition rhe_div :: "nat \<Rightarrow> nat \<Rightarrow> nat" where
  "rhe_div n d =
     (let q = n div d; r = n mod d
      in if 2 * r < d \<or> 2 * r = d \<and> even q then q else Suc q)"

text \<open>\<open>n / d\<close> in units of \<open>2\<^bsup>e\<^esup>\<close>, rounded.\<close>

definition rhe_units :: "nat \<Rightarrow> nat \<Rightarrow> int \<Rightarrow> nat" where
  "rhe_units n d e = rhe_div (n * 2 ^ nat (- e)) (d * 2 ^ nat e)"

definition floor_log2 :: "nat \<Rightarrow> nat \<Rightarrow> int" where
  "floor_log2 n d =
     (let k = int (ilog2 n) - int (ilog2 d)
      in if n * 2 ^ nat (- k) < d * 2 ^ nat k then k - 1 else k)"

definition unit_exp :: "nat \<Rightarrow> nat \<Rightarrow> int" where
  "unit_exp n d = max (-1074) (floor_log2 n d - 52)"

definition round_double :: "bool \<Rightarrow> nat \<Rightarrow> nat \<Rightarrow> double" where
  "round_double s n d =
     (if n = 0 then Finite s 0 (-1074)
      else let e = unit_exp n d; q = rhe_units n d e;
               m = (if q = 2 ^ 53 then 2 ^ 52 else q);
               e' = (if q = 2 ^ 53 then e + 1 else e)
           in if e' > 971 then Infinity s else Finite s m e')"

definition round_scaled :: "bool \<Rightarrow> nat \<Rightarrow> nat \<Rightarrow> int \<Rightarrow> double" where
  "round_scaled s n d e = round_double s (n * 2 ^ nat e) (d * 2 ^ nat (- e))"

section \<open>Arithmetic and comparison\<close>

definition dbl_of_nat :: "nat \<Rightarrow> double" where
  "dbl_of_nat n = round_double False n 1"

definition dbl_of_int :: "int \<Rightarrow> double" where
  "dbl_of_int i = round_double (i < 0) (nat \<bar>i\<bar>) 1"

fun dbl_mult :: "double \<Rightarrow> double \<Rightarrow> double" where
  "dbl_mult (Finite s m e) (Finite t n f) = round_scaled (s \<noteq> t) (m * n) 1 (e + f)"
| "dbl_mult (Finite s m e) (Infinity t) = (if m = 0 then NaN else Infinity (s \<noteq> t))"
| "dbl_mult (Infinity s) (Finite t n f) = (if n = 0 then NaN else Infinity (s \<noteq> t))"
| "dbl_mult (Infinity s) (Infinity t) = Infinity (s \<noteq> t)"
| "dbl_mult NaN y = NaN"
| "dbl_mult x NaN = NaN"

fun dbl_div :: "double \<Rightarrow> double \<Rightarrow> double" where
  "dbl_div (Finite s m e) (Finite t n f) =
     (if n = 0 then (if m = 0 then NaN else Infinity (s \<noteq> t))
      else round_scaled (s \<noteq> t) m n (e - f))"
| "dbl_div (Finite s m e) (Infinity t) = Finite (s \<noteq> t) 0 (-1074)"
| "dbl_div (Infinity s) (Finite t n f) = Infinity (s \<noteq> t)"
| "dbl_div (Infinity s) (Infinity t) = NaN"
| "dbl_div NaN y = NaN"
| "dbl_div x NaN = NaN"

definition signed_units :: "bool \<Rightarrow> nat \<Rightarrow> int" where
  "signed_units s m = (if s then - int m else int m)"

fun dbl_less :: "double \<Rightarrow> double \<Rightarrow> bool" where
  "dbl_less (Finite s m e) (Finite t n f) \<longleftrightarrow>
     signed_units s m * 2 ^ nat (e - f) < signed_units t n * 2 ^ nat (f - e)"
| "dbl_less (Finite s m e) (Infinity t) \<longleftrightarrow> \<not> t"
| "dbl_less (Infinity s) (Finite t n f) \<longleftrightarrow> s"
| "dbl_less (Infinity s) (Infinity t) \<longleftrightarrow> s \<and> \<not> t"
| "dbl_less NaN y \<longleftrightarrow> False"
| "dbl_less x NaN \<longleftrightarrow> False"

abbreviation dbl_zero :: double where "dbl_zero \<equiv> Finite False 0 (-1074)"

lemmas dbl_evals = dbl_of_nat_def round_double_def unit_exp_def floor_log2_def rhe_units_def
  rhe_div_def ilog2.simps round_scaled_def signed_units_def Let_def

section \<open>Text to number\<close>

text \<open>
  \<^verbatim>\<open>std::stod\<close> on a text of the form the patterns capture: an optional minus
  sign, digits, an optional fraction. The library throws \<^verbatim>\<open>std::out_of_range\<close>
  when \<^verbatim>\<open>strtod\<close> reports \<^verbatim>\<open>ERANGE\<close>: the result overflows, or it
  is inexact and tiny (glibc tests tininess after rounding).
\<close>

definition decimal_parts :: "cpp_string \<Rightarrow> bool \<times> nat \<times> nat" where
  "decimal_parts t =
     (let sg = minus_sign t; u = drop (length sg) t; ip = takeWhile isdigit u;
          fp = drop 1 (dropWhile isdigit u)
      in (sg \<noteq> [], digits_value 0 (ip @ fp), 10 ^ length fp))"

definition underflows :: "nat \<Rightarrow> nat \<Rightarrow> bool" where
  "underflows n d \<longleftrightarrow>
     n \<noteq> 0 \<and>
     (let e = floor_log2 n d - 52
      in (if rhe_units n d e = 2 ^ 53 then e + 53 else e + 52) < -1022) \<and>
     (n * 2 ^ nat (- unit_exp n d)) mod (d * 2 ^ nat (unit_exp n d)) \<noteq> 0"

definition stod :: "cpp_string \<Rightarrow> double result" where
  "stod t =
     (let (s, n, d) = decimal_parts t
      in case round_double s n d of
           Finite s m e \<Rightarrow> if underflows n d then Inl Out_of_range else Inr (Finite s m e)
         | _ \<Rightarrow> Inl Out_of_range)"

text \<open>\<^verbatim>\<open>std::stoll\<close> on an optional minus sign and digits.\<close>

definition stoll :: "cpp_string \<Rightarrow> int result" where
  "stoll t =
     (let sg = minus_sign t; v = int (digits_value 0 (takeWhile isdigit (drop (length sg) t)));
          i = (if sg \<noteq> [] then - v else v)
      in if - (2 ^ 63) \<le> i \<and> i < 2 ^ 63 then Inr i else Inl Out_of_range)"

definition json_get_number :: "cpp_string \<Rightarrow> cpp_string \<Rightarrow> double option result" where
  "json_get_number payload key =
     (case json_number_text payload key of
        Some t \<Rightarrow> and_then (stod t) (\<lambda>d. Inr (Some d))
      | None \<Rightarrow> Inr None)"

definition json_get_integer :: "cpp_string \<Rightarrow> cpp_string \<Rightarrow> int option result" where
  "json_get_integer payload key =
     (case json_integer_text payload key of
        Some t \<Rightarrow> and_then (stoll t) (\<lambda>i. Inr (Some i))
      | None \<Rightarrow> Inr None)"

section \<open>Number to text\<close>

text \<open>
  \<^verbatim>\<open>std::fixed << std::setprecision(2)\<close>: the exact binary value rounded to
  hundredths, ties to even, as glibc prints it.
\<close>

definition hundredths :: "nat \<Rightarrow> int \<Rightarrow> nat" where
  "hundredths m e = rhe_div (m * 100 * 2 ^ nat e) (2 ^ nat (- e))"

definition fixed2 :: "nat \<Rightarrow> cpp_string" where
  "fixed2 h = nat_to_string (h div 100) @ ''.'' @ [digit_char (h mod 100 div 10), digit_char (h mod 10)]"

fun format_double :: "double \<Rightarrow> cpp_string" where
  "format_double (Finite s m e) = (if s then ''-'' else []) @ fixed2 (hundredths m e)"
| "format_double (Infinity s) = (if s then ''-inf'' else ''inf'')"
| "format_double NaN = ''nan''"

section \<open>The computation meets the real function\<close>

fun val :: "double \<Rightarrow> real" where
  "val (Finite s m e) = (if s then - 1 else 1) * (real m * 2 powi e)"
| "val _ = 0"

text \<open>The first magnitude that does not fit, and a bound that keeps a value away from it.\<close>

definition dbl_top :: real where "dbl_top = 2 powi 1024"

definition in_range :: "real \<Rightarrow> bool" where "in_range r \<longleftrightarrow> r \<le> 2 powi 1023"

definition is_finite :: "double \<Rightarrow> bool" where
  "is_finite x \<longleftrightarrow> (case x of Finite _ _ _ \<Rightarrow> True | _ \<Rightarrow> False)"

lemma ilog2_bounds: "0 < n \<Longrightarrow> 2 ^ ilog2 n \<le> n \<and> n < 2 ^ Suc (ilog2 n)"
proof (induction n rule: ilog2.induct)
  case (1 n)
  show ?case
  proof (cases "n < 2")
    case True
    with 1 show ?thesis by (simp add: ilog2.simps)
  next
    case False
    with 1 have "2 ^ ilog2 (n div 2) \<le> n div 2 \<and> n div 2 < 2 ^ Suc (ilog2 (n div 2))" by simp
    moreover have "ilog2 n = Suc (ilog2 (n div 2))" using False by (subst ilog2.simps) simp
    ultimately show ?thesis by simp linarith
  qed
qed

lemma scaled_frac: "real (n * 2 ^ nat (- e)) / real (d * 2 ^ nat e) = real n / real d / 2 powi e"
  by (cases "0 \<le> e") (simp_all add: power_int_def field_simps)

lemma scaled_frac_mult: "real (n * 2 ^ nat e) / real (d * 2 ^ nat (- e)) = real n / real d * 2 powi e"
  by (cases "0 \<le> e") (simp_all add: power_int_def field_simps)

lemma ilog2_powi:
  assumes "0 < n"
  shows "2 powi int (ilog2 n) \<le> real n" and "real n < 2 powi (int (ilog2 n) + 1)"
proof -
  have "real (2 ^ ilog2 n) \<le> real n" and "real n < real (2 ^ Suc (ilog2 n))"
    using ilog2_bounds [OF assms] by (simp_all only: of_nat_le_iff of_nat_less_iff)
  then show "2 powi int (ilog2 n) \<le> real n" and "real n < 2 powi (int (ilog2 n) + 1)"
    by (simp_all add: powi2_add)
qed

lemma floor_log2_correct:
  assumes "0 < n" and "0 < d"
  shows "floor_log2 n d = \<lfloor>log 2 (real n / real d)\<rfloor>"
proof -
  define k where "k = int (ilog2 n) - int (ilog2 d)"
  let ?x = "real n / real d"
  have pos: "0 < ?x" using assms by simp
  note n = ilog2_powi [OF assms(1)] and d = ilog2_powi [OF assms(2)]
  have "2 powi (k - 1) * real d \<le> 2 powi (k - 1) * 2 powi (int (ilog2 d) + 1)"
    using d by (intro mult_left_mono) auto
  also have "\<dots> = 2 powi int (ilog2 n)" by (simp add: powi2_add [symmetric] k_def)
  also have "\<dots> \<le> real n" using n by simp
  finally have low: "2 powi (k - 1) \<le> ?x" using assms by (simp add: pos_le_divide_eq)
  have "real n < 2 powi (int (ilog2 n) + 1)" using n by simp
  also have "\<dots> = 2 powi (k + 1) * 2 powi int (ilog2 d)"
    unfolding powi2_add [symmetric] k_def by simp
  also have "\<dots> \<le> 2 powi (k + 1) * real d" using d by (intro mult_left_mono) auto
  finally have high: "?x < 2 powi (k + 1)" using assms by (simp add: pos_divide_less_eq)
  have "n * 2 ^ nat (- k) < d * 2 ^ nat k \<longleftrightarrow> real (n * 2 ^ nat (- k)) / real (d * 2 ^ nat k) < 1"
    using assms by (simp add: pos_divide_less_eq del: of_nat_mult)
  also have "\<dots> \<longleftrightarrow> ?x < 2 powi k" unfolding scaled_frac by (simp only: pos_divide_less_eq [OF powi2_pos] mult_1)
  finally have test: "n * 2 ^ nat (- k) < d * 2 ^ nat k \<longleftrightarrow> ?x < 2 powi k" .
  have "\<lfloor>log 2 ?x\<rfloor> = (if ?x < 2 powi k then k - 1 else k)"
    using low high by (auto simp: floor_log2_iff [OF pos])
  then show ?thesis by (simp add: floor_log2_def Let_def k_def [symmetric] test)
qed

lemma unit_exp_correct: "0 < n \<Longrightarrow> 0 < d \<Longrightarrow> unit_exp n d = ex (real n / real d)"
  by (simp add: unit_exp_def ex_def emin_def floor_log2_correct)

lemma rhe_div_correct:
  assumes "0 < d"
  shows "int (rhe_div n d) = rhe (real n / real d)"
proof -
  have fl: "\<lfloor>real n / real d\<rfloor> = int (n div d)" by (rule floor_divide_of_nat_eq)
  have "real n = real (n div d) * real d + real (n mod d)"
    unfolding of_nat_mult [symmetric] of_nat_add [symmetric] by simp
  then have "real n / real d = real (n div d) + real (n mod d) / real d"
    using assms by (simp add: field_simps)
  then have fr: "real n / real d - of_int (int (n div d)) = real (n mod d) / real d" by simp
  have lt: "real (n mod d) / real d < 1 / 2 \<longleftrightarrow> 2 * (n mod d) < d"
    using assms by (simp add: pos_divide_less_eq field_simps) linarith
  have eq: "real (n mod d) / real d = 1 / 2 \<longleftrightarrow> 2 * (n mod d) = d"
    using assms by (simp add: field_simps) linarith
  show ?thesis unfolding rhe_div_def rhe_def Let_def fl fr lt eq by simp
qed

lemma rhe_units_correct:
  "0 < d \<Longrightarrow> int (rhe_units n d e) = rhe (real n / real d / 2 powi e)"
  unfolding rhe_units_def by (subst rhe_div_correct) (simp_all only: scaled_frac, simp)

lemma round_double_spec:
  assumes "0 < d"
  shows "case round_double s n d of
      Finite s' m e \<Rightarrow> s' = s \<and> real m * 2 powi e = rnd (real n / real d) \<and> m < 2 ^ 53 \<and> -1074 \<le> e
    | Infinity s' \<Rightarrow> s' = s \<and> dbl_top \<le> rnd (real n / real d)
    | NaN \<Rightarrow> False"
proof (cases "n = 0")
  case True
  then show ?thesis by (simp add: round_double_def rnd_def)
next
  case False
  let ?x = "real n / real d"
  define e where "e = unit_exp n d"
  define q where "q = rhe_units n d e"
  have x: "0 < ?x" using False assms by simp
  have e: "e = ex ?x" using False assms by (simp add: e_def unit_exp_correct)
  have "int q = rhe (?x / 2 powi ex ?x)" using rhe_units_correct [OF assms] by (simp add: q_def e)
  then have r: "rnd ?x = real q * 2 powi e" using rnd_pos [OF x] e by (metis of_int_of_nat_eq)
  have low: "-1074 \<le> e" using ex_ge_emin [of ?x] e by (simp add: emin_def)
  have "rnd ?x \<le> 2 powi (e + 53)" using rnd_upper [OF x] e by simp
  then have "real q * 2 powi e \<le> real (2 ^ 53) * 2 powi e"
    using powi2_scale [of 53 e] by (simp only: r of_nat_numeral)
  then have "real q \<le> real (2 ^ 53)" by (simp only: mult_le_cancel_right_pos powi2_pos)
  then have q: "q \<le> 2 ^ 53" by (simp only: of_nat_le_iff)
  have top: "dbl_top \<le> rnd ?x" if "972 \<le> e"
  proof -
    have "dbl_top \<le> 2 powi (e + 52)" unfolding dbl_top_def using that by (intro powi2_le) simp
    also have "\<dots> \<le> rnd ?x" unfolding e using that by (intro rnd_lower x) (simp add: e emin_def)
    finally show ?thesis .
  qed
  show ?thesis
  proof (cases "q = 2 ^ 53")
    case True
    then have val: "rnd ?x = real (2 ^ 52) * 2 powi (e + 1)" using r by (simp add: powi2_add)
    have "rnd ?x = 2 powi (e + 53)" using r True powi2_scale [of 53 e] by simp
    then have "dbl_top \<le> rnd ?x" if "971 \<le> e"
      using that powi2_le [of 1024 "e + 53"] by (simp add: dbl_top_def)
    then show ?thesis using True False low val
      by (simp add: round_double_def Let_def e_def [symmetric] q_def [symmetric])
  next
    case False
    then have "q < 2 ^ 53" using q by simp
    then show ?thesis using False \<open>n \<noteq> 0\<close> low r top
      by (simp add: round_double_def Let_def e_def [symmetric] q_def [symmetric])
  qed
qed

lemma round_double_finite:
  assumes "0 < d" and "rnd (real n / real d) < dbl_top"
  obtains m e where "round_double s n d = Finite s m e"
    and "real m * 2 powi e = rnd (real n / real d)"
  using round_double_spec [OF assms(1), of s n] assms(2)
  by (cases "round_double s n d") auto

section \<open>Non-negative finite doubles\<close>

text \<open>\<open>denotes x r\<close>: \<open>x\<close> is a finite double with a clear sign bit and the value \<open>r\<close>.\<close>

definition denotes :: "double \<Rightarrow> real \<Rightarrow> bool" where
  "denotes x r \<longleftrightarrow> (\<exists>m e. x = Finite False m e \<and> real m * 2 powi e = r)"

lemma denotes_val: "denotes x r \<Longrightarrow> val x = r \<and> is_finite x \<and> 0 \<le> r"
  by (auto simp: denotes_def is_finite_def)

lemma denotes_round:
  "0 < d \<Longrightarrow> rnd (real n / real d) < dbl_top \<Longrightarrow> denotes (round_double False n d) (rnd (real n / real d))"
  by (rule round_double_finite [of d n False]) (auto simp: denotes_def)

lemma denotes_zero [simp]: "denotes dbl_zero 0"
  by (simp add: denotes_def)

lemma rnd_below_top:
  assumes "in_range x"
  shows "rnd x < dbl_top"
proof -
  have "(2::real) powi 1023 \<in> grid"
    unfolding grid_def mem_Collect_eq by (intro exI [of _ 1] exI [of _ 1023]) (simp add: emin_def)
  then have "rnd x \<le> 2 powi 1023" using assms by (intro binary64.rd_le_rep) (simp_all add: in_range_def)
  also have "\<dots> < dbl_top" unfolding dbl_top_def powi2_less_iff by simp
  finally show ?thesis .
qed

lemma in_rangeI: "r \<le> real (2 ^ k) \<Longrightarrow> k \<le> 1023 \<Longrightarrow> in_range r"
  using powi2_le [of "int k" 1023] by (simp add: in_range_def)

lemma denotes_of_nat: "in_range (real n) \<Longrightarrow> denotes (dbl_of_nat n) (rnd (real n))"
  using denotes_round [of 1 n] by (simp add: dbl_of_nat_def rnd_below_top)

lemma denotes_of_nat_exact:
  assumes "n \<le> 2 ^ 53"
  shows "denotes (dbl_of_nat n) (real n)"
proof -
  have "real n \<le> real (2 ^ 53)" using assms by (simp only: of_nat_le_iff)
  then have "in_range (real n)" by (rule in_rangeI) simp
  then show ?thesis
    using denotes_of_nat [of n] rnd_fixes_grid [OF nat_in_grid [OF assms]] by simp
qed

lemma denotes_mult:
  assumes "denotes x a" and "denotes y b" and "in_range (a * b)"
  shows "denotes (dbl_mult x y) (rnd (a * b))"
proof -
  obtain m e n f where x: "x = Finite False m e" "a = real m * 2 powi e"
    and y: "y = Finite False n f" "b = real n * 2 powi f"
    using assms(1,2) by (auto simp: denotes_def)
  have "real (m * n * 2 ^ nat (e + f)) / real (1 * 2 ^ nat (- (e + f))) = a * b"
    unfolding scaled_frac_mult by (simp add: x y powi2_add)
  then show ?thesis
    using denotes_round [of "1 * 2 ^ nat (- (e + f))" "m * n * 2 ^ nat (e + f)"]
      rnd_below_top [OF assms(3)]
    by (simp add: x(1) y(1) round_scaled_def)
qed

lemma denotes_div:
  assumes "denotes x a" and "denotes y b" and "0 < b" and "in_range (a / b)"
  shows "denotes (dbl_div x y) (rnd (a / b))"
proof -
  obtain m e n f where x: "x = Finite False m e" "a = real m * 2 powi e"
    and y: "y = Finite False n f" "b = real n * 2 powi f"
    using assms(1,2) by (auto simp: denotes_def)
  have n: "0 < n" using assms(3) y by (cases n) auto
  have "real (m * 2 ^ nat (e - f)) / real (n * 2 ^ nat (- (e - f))) = a / b"
    unfolding scaled_frac_mult by (simp add: x y power_int_diff)
  then show ?thesis
    using denotes_round [of "n * 2 ^ nat (- (e - f))" "m * 2 ^ nat (e - f)"]
      rnd_below_top [OF assms(4)] n
    by (simp add: x(1) y(1) round_scaled_def)
qed

lemma powi2_split: "f \<le> e \<Longrightarrow> (2::real) powi e = 2 ^ nat (e - f) * 2 powi f"
  using powi2_scale [of "nat (e - f)" f] by simp

lemma signed_scaled: "of_int (signed_units s m) * 2 powi e = val (Finite s m e)"
  by (simp add: signed_units_def)

lemma dbl_less_val:
  "dbl_less (Finite s m e) (Finite t n f) \<longleftrightarrow> val (Finite s m e) < val (Finite t n f)"
proof (cases "f \<le> e")
  case True
  have "val (Finite s m e) = of_int (signed_units s m * 2 ^ nat (e - f)) * 2 powi f"
    using powi2_split [OF True] by (simp add: signed_scaled [symmetric] del: val.simps)
  then show ?thesis using True
    by (simp add: signed_scaled [symmetric] del: val.simps of_int_mult)
next
  case False
  then have "val (Finite t n f) = of_int (signed_units t n * 2 ^ nat (f - e)) * 2 powi e"
    using powi2_split [of e f] by (simp add: signed_scaled [symmetric] del: val.simps)
  then show ?thesis using False
    by (simp add: signed_scaled [symmetric] del: val.simps of_int_mult)
qed

lemma denotes_less: "denotes x a \<Longrightarrow> denotes y b \<Longrightarrow> dbl_less x y \<longleftrightarrow> a < b"
  by (auto simp: denotes_def dbl_less_val simp del: dbl_less.simps)

section \<open>Printing and reading back\<close>

lemma hundredths_correct: "int (hundredths m e) = rhe (100 * (real m * 2 powi e))"
proof -
  have "int (hundredths m e) = rhe (real (m * 100 * 2 ^ nat e) / real (1 * 2 ^ nat (- e)))"
    unfolding hundredths_def by (subst rhe_div_correct) simp_all
  then show ?thesis unfolding scaled_frac_mult by (simp add: algebra_simps)
qed

lemma fixed2_digits_value:
  "digits_value 0 (nat_to_string (h div 100) @ [digit_char (h mod 100 div 10), digit_char (h mod 10)]) = h"
proof -
  have "h mod 100 mod 10 = h mod 10" by (simp add: mod_mod_cancel)
  then have "10 * (10 * (h div 100) + h mod 100 div 10) + h mod 10
      = h div 100 * 100 + (h mod 100 div 10 * 10 + h mod 100 mod 10)" by simp
  also have "\<dots> = h" by (simp only: div_mult_mod_eq)
  finally have "10 * (10 * (h div 100) + h mod 100 div 10) + h mod 10 = h" .
  then show ?thesis by (simp add: digits_value_append less_mult_imp_div_less)
qed

lemma takeWhile_digits_dot:
  "\<forall>c \<in> set ds. isdigit c \<Longrightarrow> takeWhile isdigit (ds @ CHR ''.'' # t) = ds"
  "\<forall>c \<in> set ds. isdigit c \<Longrightarrow> dropWhile isdigit (ds @ CHR ''.'' # t) = CHR ''.'' # t"
  by (simp_all add: takeWhile_append_stop dropWhile_append_stop)

lemma minus_sign_digits:
  "ds \<noteq> [] \<Longrightarrow> \<forall>c \<in> set ds. isdigit c \<Longrightarrow> minus_sign (ds @ t) = []"
  by (cases ds) (auto simp: minus_sign_def dest: isdigit_not_sign)

lemma nat_to_string_all_digits: "\<forall>c \<in> set (nat_to_string n). isdigit c"
  by (simp add: nat_to_string_digits)

lemmas number_text_simps =
  minus_sign_digits [OF nat_to_string_nonempty nat_to_string_all_digits]
  takeWhile_digits_dot [OF nat_to_string_all_digits]

lemma minus_sign_minus [simp]: "minus_sign (CHR ''-'' # t) = ''-''"
  by (simp add: minus_sign_def)

lemma digit_bounds: "(h::nat) mod 100 div 10 < 10" "(h::nat) mod 10 < 10"
  by (simp_all add: less_mult_imp_div_less)

lemma decimal_parts_fixed2:
  "decimal_parts ((if s then ''-'' else []) @ fixed2 h) = (s, h, 100)"
  using fixed2_digits_value [of h]
  by (simp add: decimal_parts_def fixed2_def number_text_simps Let_def)

lemma number_token_fixed2:
  assumes "\<not> isdigit c"
  shows "number_token ((if s then ''-'' else []) @ fixed2 h @ c # rest)
       = Some ((if s then ''-'' else []) @ fixed2 h)"
  using assms digit_bounds [of h]
  by (simp add: number_token_def fixed2_def number_text_simps Let_def fraction_text_def)

text \<open>A number of hundredths is never tiny, and is finite if the printed double was.\<close>

lemma hundredths_not_tiny: "\<not> underflows h 100"
proof (cases "h = 0")
  case True
  then show ?thesis by (simp add: underflows_def)
next
  case False
  then have "(2::real) powi (-7) \<le> real h / real 100" by (simp add: power_int_minus field_simps)
  then have "-7 \<le> \<lfloor>log 2 (real h / real 100)\<rfloor>" by (rule floor_log2_ge)
  then have "-7 \<le> floor_log2 h 100" using False floor_log2_correct [of h 100] by simp
  then show ?thesis by (simp add: underflows_def Let_def)
qed

lemma small_hundredths_in_range:
  assumes "h < 2 ^ 52"
  shows "in_range (real h / real 100)"
proof -
  have "real h / real 100 \<le> real h" by simp
  also have "\<dots> \<le> real (2 ^ 52)" using assms by (simp only: of_nat_le_iff less_imp_le)
  finally show ?thesis by (rule in_rangeI) simp
qed

lemma hundredths_of_rounded:
  assumes "h < 2 ^ 52" and "real m * 2 powi e = rnd (real h / real 100)"
  shows "hundredths m e = h"
proof -
  have "\<bar>100 * rnd (real h / real 100) - real h\<bar> < 1 / 2"
  proof (cases "h = 0")
    case False
    have "(2::real) powi (-1022) \<le> 2 powi (-7)" by (rule powi2_le) simp
    also have "\<dots> \<le> real h / real 100" using False by (simp add: power_int_minus field_simps)
    finally have "\<bar>rnd (real h / real 100) - real h / real 100\<bar> \<le> real h / real 100 / 2 ^ 53"
      by (rule rnd_relative_error)
    moreover have "real h < real (2 ^ 52)" using assms(1) by (simp only: of_nat_less_iff)
    ultimately show ?thesis by (simp add: abs_le_iff abs_less_iff field_simps)
  qed (simp add: rnd_def)
  then have "rhe (100 * rnd (real h / real 100)) = int h"
    using rhe_unique [of "100 * rnd (real h / real 100)" "int h"] by simp
  then show ?thesis using hundredths_correct [of m e] assms(2) by simp
qed

lemma stod_format_double:
  assumes "hundredths m e < 2 ^ 52"
  obtains m' e' where "stod (format_double (Finite s m e)) = Inr (Finite s m' e')"
    and "real m' * 2 powi e' = rnd (real (hundredths m e) / real 100)"
    and "hundredths m' e' = hundredths m e"
proof -
  let ?h = "hundredths m e"
  obtain m' e' where r: "round_double s ?h 100 = Finite s m' e'"
      "real m' * 2 powi e' = rnd (real ?h / real 100)"
    using round_double_finite [of 100 ?h s] rnd_below_top [OF small_hundredths_in_range [OF assms]]
    by auto
  moreover have "stod (format_double (Finite s m e)) = Inr (Finite s m' e')"
    unfolding stod_def format_double.simps decimal_parts_fixed2
    by (simp add: r hundredths_not_tiny)
  ultimately show ?thesis using that hundredths_of_rounded [OF assms r(2)] by blast
qed

lemma digit_char_neq_quote: "n < 10 \<Longrightarrow> digit_char n = CHR_quote \<Longrightarrow> False"
  using isdigit_digit_char [of n] by (simp del: isdigit_digit_char)

lemma fixed2_no_quote: "CHR_quote \<notin> set (fixed2 h)"
proof -
  have "digit_char (h mod 100 div 10) \<noteq> CHR_quote" "digit_char (h mod 10) \<noteq> CHR_quote"
    using digit_char_neq_quote [OF digit_bounds(1)] digit_char_neq_quote [OF digit_bounds(2)] by blast+
  then show ?thesis by (auto simp: fixed2_def dest: nat_to_string_digits)
qed

lemma format_double_no_quote: "CHR_quote \<notin> set (format_double x)"
  by (cases x) (auto simp: fixed2_no_quote)

lemma int_to_string_no_quote: "CHR_quote \<notin> set (int_to_string i)"
  by (auto simp: int_to_string_def dest: nat_to_string_digits)

lemma integer_token_int_to_string:
  assumes "\<not> isdigit c"
  shows "integer_token (int_to_string i @ c # rest) = Some (int_to_string i)"
  using assms takeWhile_append_stop [OF nat_to_string_all_digits assms]
  by (simp add: integer_token_def int_to_string_def number_text_simps(1) Let_def)

lemma stoll_int_to_string:
  assumes "- (2 ^ 63) \<le> i" and "i < 2 ^ 63"
  shows "stoll (int_to_string i) = Inr i"
proof -
  have tw: "takeWhile isdigit (nat_to_string n) = nat_to_string n" for n
    by (simp add: takeWhile_eq_all_conv nat_to_string_digits)
  have ms: "minus_sign (nat_to_string n) = []" for n
    using number_text_simps(1) [of n "[]"] by simp
  show ?thesis using assms by (simp add: stoll_def int_to_string_def Let_def tw ms nat_le_iff nat_less_iff)
qed

end
