(* ===== verification/Common_Events.thy ===== *)
theory Common_Events
  imports Cpp_Doubles "HOL-Library.Char_ord" "HOL-Library.List_Lexorder"
begin

text \<open>
  The data of \<^verbatim>\<open>common.hpp\<close> (\<open>MetricSnapshot\<close>, \<open>ChatMessage\<close>,
  \<open>AlertRule\<close>, \<open>AlertEvent\<close>), \<open>iso_timestamp\<close> and the functions that print
  each kind of event as one line of JSON. The clock is an input: \<open>iso_timestamp\<close> takes the
  seconds since the epoch that \<^verbatim>\<open>system_clock::now\<close> returned, and
  \<^verbatim>\<open>gmtime\<close> is the proleptic Gregorian calendar.
\<close>

section \<open>Time stamps\<close>

text \<open>Year, month and day of a day number counted from 1970-01-01.\<close>

definition civil_from_days :: "int \<Rightarrow> int \<times> int \<times> int" where
  "civil_from_days days =
     (let z = days + 719468;
          era = z div 146097;
          doe = z mod 146097;
          yoe = (doe - doe div 1460 + doe div 36524 - doe div 146096) div 365;
          doy = doe - (365 * yoe + yoe div 4 - yoe div 100);
          mp = (5 * doy + 2) div 153;
          d = doy - (153 * mp + 2) div 5 + 1;
          m = (if mp < 10 then mp + 3 else mp - 9);
          y = yoe + era * 400 + (if m \<le> 2 then 1 else 0)
      in (y, m, d))"

definition pad2 :: "int \<Rightarrow> cpp_string" where
  "pad2 i = [digit_char (nat i div 10 mod 10), digit_char (nat i mod 10)]"

definition iso_timestamp :: "int \<Rightarrow> cpp_string" where
  "iso_timestamp now_time =
     (let (y, m, d) = civil_from_days (now_time div 86400);
          s = now_time mod 86400
      in int_to_string y @ ''-'' @ pad2 m @ ''-'' @ pad2 d @ ''T''
         @ pad2 (s div 3600) @ '':'' @ pad2 (s div 60 mod 60) @ '':'' @ pad2 (s mod 60) @ ''Z'')"

section \<open>Data\<close>

record MetricSnapshot =
  ms_host :: cpp_string
  ms_timestamp :: cpp_string
  cpu_percent :: double
  memory_percent :: double
  disk_percent :: double
  network_rx_kbps :: double
  network_tx_kbps :: double
  memory_used_mb :: int
  memory_total_mb :: int
  disk_used_mb :: int
  disk_total_mb :: int

record ChatMessage =
  chat_sender :: cpp_string
  chat_text :: cpp_string
  chat_timestamp :: cpp_string

record AlertRule =
  raw_command :: cpp_string
  rule_metric_key :: cpp_string
  rule_display_metric :: cpp_string
  rule_threshold :: double
  comparison :: char

record AlertEvent =
  ae_host :: cpp_string
  ae_timestamp :: cpp_string
  ae_metric_key :: cpp_string
  ae_display_metric :: cpp_string
  ae_metric_value :: double
  ae_threshold :: double
  ae_rule :: cpp_string
  ae_message :: cpp_string

definition default_MetricSnapshot :: MetricSnapshot where
  "default_MetricSnapshot =
     \<lparr>ms_host = [], ms_timestamp = [], cpu_percent = dbl_zero, memory_percent = dbl_zero,
      disk_percent = dbl_zero, network_rx_kbps = dbl_zero, network_tx_kbps = dbl_zero,
      memory_used_mb = 0, memory_total_mb = 0, disk_used_mb = 0, disk_total_mb = 0\<rparr>"

section \<open>Events as lines of JSON\<close>

definition metric_data_to_json :: "MetricSnapshot \<Rightarrow> cpp_string" where
  "metric_data_to_json metric =
     ''{''
     @ ''\"host\":\"'' @ escape_json (ms_host metric) @ ''\",''
     @ ''\"timestamp\":\"'' @ escape_json (ms_timestamp metric) @ ''\",''
     @ ''\"cpu_percent\":'' @ format_double (cpu_percent metric) @ '',''
     @ ''\"memory_percent\":'' @ format_double (memory_percent metric) @ '',''
     @ ''\"disk_percent\":'' @ format_double (disk_percent metric) @ '',''
     @ ''\"network_rx_kbps\":'' @ format_double (network_rx_kbps metric) @ '',''
     @ ''\"network_tx_kbps\":'' @ format_double (network_tx_kbps metric) @ '',''
     @ ''\"memory_used_mb\":'' @ int_to_string (memory_used_mb metric) @ '',''
     @ ''\"memory_total_mb\":'' @ int_to_string (memory_total_mb metric) @ '',''
     @ ''\"disk_used_mb\":'' @ int_to_string (disk_used_mb metric) @ '',''
     @ ''\"disk_total_mb\":'' @ int_to_string (disk_total_mb metric)
     @ ''}''"

definition metric_event_to_json :: "MetricSnapshot \<Rightarrow> cpp_string" where
  "metric_event_to_json metric =
     ''{\"type\":\"metric\",\"data\":'' @ metric_data_to_json metric @ ''}''"

text \<open>A comma before every element but the first.\<close>

fun comma_separated :: "cpp_string list \<Rightarrow> cpp_string" where
  "comma_separated [] = []"
| "comma_separated [x] = x"
| "comma_separated (x # y # xs) = x @ '','' @ comma_separated (y # xs)"

text \<open>
  The unordered map of the latest metrics is an association list with distinct keys; the copy
  into a \<^verbatim>\<open>std::map\<close> orders it by host (byte-wise lexicographically).
\<close>

type_synonym metric_table = "(cpp_string \<times> MetricSnapshot) list"

definition ordered :: "metric_table \<Rightarrow> metric_table" where
  "ordered metrics = sort_key fst metrics"

definition snapshot_event_to_json :: "metric_table \<Rightarrow> int \<Rightarrow> cpp_string" where
  "snapshot_event_to_json metrics now =
     ''{\"type\":\"snapshot\",\"timestamp\":\"'' @ escape_json (iso_timestamp now)
     @ ''\",\"metrics\":['' @ comma_separated (map (metric_data_to_json \<circ> snd) (ordered metrics))
     @ '']}''"

definition chat_event_to_json :: "ChatMessage \<Rightarrow> cpp_string" where
  "chat_event_to_json chat =
     ''{\"type\":\"chat\",\"from\":\"'' @ escape_json (chat_sender chat) @ ''\",\"text\":\"''
     @ escape_json (chat_text chat) @ ''\",\"timestamp\":\"'' @ escape_json (chat_timestamp chat)
     @ ''\"}''"

definition ack_event_to_json :: "cpp_string \<Rightarrow> cpp_string" where
  "ack_event_to_json message = ''{\"type\":\"ack\",\"message\":\"'' @ escape_json message @ ''\"}''"

definition error_event_to_json :: "cpp_string \<Rightarrow> cpp_string" where
  "error_event_to_json message = ''{\"type\":\"error\",\"message\":\"'' @ escape_json message @ ''\"}''"

definition alert_event_to_json :: "AlertEvent \<Rightarrow> cpp_string" where
  "alert_event_to_json alert =
     ''{\"type\":\"alert\",\"data\":{''
     @ ''\"host\":\"'' @ escape_json (ae_host alert) @ ''\",''
     @ ''\"timestamp\":\"'' @ escape_json (ae_timestamp alert) @ ''\",''
     @ ''\"metric_key\":\"'' @ escape_json (ae_metric_key alert) @ ''\",''
     @ ''\"display_metric\":\"'' @ escape_json (ae_display_metric alert) @ ''\",''
     @ ''\"metric_value\":'' @ format_double (ae_metric_value alert) @ '',''
     @ ''\"threshold\":'' @ format_double (ae_threshold alert) @ '',''
     @ ''\"rule\":\"'' @ escape_json (ae_rule alert) @ ''\",''
     @ ''\"message\":\"'' @ escape_json (ae_message alert) @ ''\"}}''"

definition rule_item_to_json :: "AlertRule \<Rightarrow> cpp_string" where
  "rule_item_to_json rule =
     ''{\"command\":\"'' @ escape_json (raw_command rule) @ ''\",\"metric_key\":\"''
     @ escape_json (rule_metric_key rule) @ ''\",\"threshold\":'' @ format_double (rule_threshold rule)
     @ ''}''"

definition rules_event_to_json :: "AlertRule list \<Rightarrow> cpp_string" where
  "rules_event_to_json rules =
     ''{\"type\":\"rules\",\"items\":['' @ comma_separated (map rule_item_to_json rules) @ '']}''"

section \<open>Every event is one line\<close>

definition one_line :: "cpp_string \<Rightarrow> bool" where
  "one_line s \<longleftrightarrow> CHR_nl \<notin> set s"

lemma one_line_append [simp]: "one_line (s @ t) \<longleftrightarrow> one_line s \<and> one_line t"
  by (auto simp: one_line_def)

lemma one_line_simps [simp]: "one_line []" "one_line (c # s) \<longleftrightarrow> c \<noteq> CHR_nl \<and> one_line s"
  by (auto simp: one_line_def)

lemma one_line_escape_json [simp]: "one_line (escape_json s)"
  using escape_json_single_line [of CHR_nl s] by (auto simp: one_line_def)

lemma isdigit_not_nl: "isdigit c \<Longrightarrow> c \<noteq> CHR_nl"
  by (auto simp: isdigit_def digit_chars_def)

lemma digit_char_not_nl [simp]: "n < 10 \<Longrightarrow> digit_char n \<noteq> CHR_nl"
  using isdigit_digit_char [of n] isdigit_not_nl by blast

lemma one_line_nat_to_string [simp]: "one_line (nat_to_string n)"
  by (auto simp: one_line_def dest: nat_to_string_digits isdigit_not_nl)

lemma one_line_int_to_string [simp]: "one_line (int_to_string i)"
  by (simp add: int_to_string_def)

lemma one_line_format_double [simp]: "one_line (format_double x)"
  using digit_bounds by (cases x) (simp_all add: fixed2_def)

lemma one_line_comma_separated [simp]:
  "\<forall>x \<in> set xs. one_line x \<Longrightarrow> one_line (comma_separated xs)"
  by (induction xs rule: comma_separated.induct) auto

lemma one_line_metric_data [simp]: "one_line (metric_data_to_json m)"
  by (simp add: metric_data_to_json_def)

lemma one_line_events [simp]:
  "one_line (metric_event_to_json m)"
  "one_line (snapshot_event_to_json t now)"
  "one_line (chat_event_to_json c)"
  "one_line (ack_event_to_json s)"
  "one_line (error_event_to_json s)"
  "one_line (alert_event_to_json a)"
  "one_line (rules_event_to_json rs)"
  by (simp_all add: metric_event_to_json_def snapshot_event_to_json_def chat_event_to_json_def
      ack_event_to_json_def error_event_to_json_def alert_event_to_json_def
      rules_event_to_json_def rule_item_to_json_def)

section \<open>Messages and lines\<close>

text \<open>
  Every message the server sends is a single line, whatever names and texts clients supplied, so a
  receiver that splits the stream at newlines sees each message whole.
\<close>

lemma events_are_single_lines:
  "one_line (metric_event_to_json m) \<and> one_line (snapshot_event_to_json t now) \<and> one_line (chat_event_to_json c) \<and>
   one_line (ack_event_to_json s) \<and> one_line (error_event_to_json s) \<and> one_line (alert_event_to_json a) \<and>
   one_line (rules_event_to_json rs)"
  by simp

lemma ordered_unique:
  assumes "distinct (map fst t)" and "distinct (map fst t')" and "map_of t = map_of t'"
  shows "ordered t = ordered t'"
proof (rule map_sorted_distinct_set_unique [of fst])
  have same: "set t = set t'" using assms by (metis map_of_eqI map_of_inject_set set_map_of_compr)
  then show "set (ordered t) = set (ordered t')" by (simp add: ordered_def)
  show "inj_on fst (set (ordered t) \<union> set (ordered t'))"
    using assms(1) same by (simp add: ordered_def distinct_map)
  show "sorted (map fst (ordered t))" "sorted (map fst (ordered t'))" by (simp_all add: ordered_def)
  have "distinct (map fst (sort_key fst x))" if "distinct (map fst x)" for x :: metric_table
    using that by (simp add: distinct_map)
  then show "distinct (map fst (ordered t))" "distinct (map fst (ordered t'))"
    using assms(1,2) by (simp_all add: ordered_def)
qed

text \<open>
  C34: The snapshot sent to a dashboard depends only on which report each host has, not on the order in
  which the unordered map of the server enumerates the hosts.
\<close>

theorem snapshot_order_independent:
  assumes "distinct (map fst t)" and "distinct (map fst t')" and "map_of t = map_of t'"
  shows "snapshot_event_to_json t now = snapshot_event_to_json t' now"
  by (simp add: snapshot_event_to_json_def ordered_unique [OF assms])

theorem snapshot_order_independent_example:
  "snapshot_event_to_json [(''b'', default_MetricSnapshot), (''a'', default_MetricSnapshot)] 0 =
   snapshot_event_to_json [(''a'', default_MetricSnapshot), (''b'', default_MetricSnapshot)] 0"
  by (rule snapshot_order_independent) auto

end
