(* ===== verification/Common_Time.thy ===== *)
theory Common_Time
  imports Common_Events
begin

text \<open>
  The time stamps against the calendar. The calendar is the textbook one, a clock that is advanced
  by a second at a time through the months of its year; \<open>iso_timestamp\<close>, which computes the date
  from the number of days, prints what that clock shows.
\<close>

section \<open>The calendar\<close>

definition leap_year :: "int \<Rightarrow> bool" where
  "leap_year y \<longleftrightarrow> y mod 4 = 0 \<and> (y mod 100 \<noteq> 0 \<or> y mod 400 = 0)"

definition month_days :: "int \<Rightarrow> int \<Rightarrow> int" where
  "month_days y m = (if m = 2 then (if leap_year y then 29 else 28) else if m \<in> {4, 6, 9, 11} then 30 else 31)"

fun next_date :: "int \<times> int \<times> int \<Rightarrow> int \<times> int \<times> int" where
  "next_date (y, m, d) =
     (if d < month_days y m then (y, m, d + 1) else if m < 12 then (y, m + 1, 1) else (y + 1, 1, 1))"

text \<open>Date and seconds of the day.\<close>

type_synonym wall_clock = "(int \<times> int \<times> int) \<times> int \<times> int \<times> int"

fun tick :: "wall_clock \<Rightarrow> wall_clock" where
  "tick (date, h, mi, s) =
     (if s < 59 then (date, h, mi, s + 1)
      else if mi < 59 then (date, h, mi + 1, 0)
      else if h < 23 then (date, h + 1, 0, 0)
      else (next_date date, 0, 0, 0))"

definition epoch :: wall_clock where
  "epoch = ((1970, 1, 1), 0, 0, 0)"

fun clock_text :: "wall_clock \<Rightarrow> cpp_string" where
  "clock_text ((y, m, d), h, mi, s) =
     int_to_string y @ ''-'' @ pad2 m @ ''-'' @ pad2 d @ ''T'' @ pad2 h @ '':'' @ pad2 mi @ '':'' @ pad2 s @ ''Z''"

section \<open>Years that begin in March\<close>

text \<open>Within 400 years: the year of a day, and the day on which a year begins.\<close>

definition march_year :: "int \<Rightarrow> int" where
  "march_year doe = (doe - doe div 1460 + doe div 36524 - doe div 146096) div 365"

definition year_start :: "int \<Rightarrow> int" where
  "year_start y = (if y = 400 then 146097 else 365 * y + y div 4 - y div 100)"

lemma div_step: "0 < n \<Longrightarrow> (x + 1) div n = x div n \<or> (x + 1) div n = x div n + 1" for x n :: int
proof -
  assume n: "0 < n"
  have "x div n \<le> (x + 1) div n" using n by (intro zdiv_mono1) simp_all
  moreover have "(x + 1) div n \<le> (x + n) div n" using n by (intro zdiv_mono1) simp_all
  ultimately show ?thesis using n by simp linarith
qed

lemma march_year_step: "march_year x \<le> march_year (x + 1)"
proof -
  have q: "x div 146096 = x div 36524 div 4" "(x + 1) div 146096 = (x + 1) div 36524 div 4"
    by (simp_all add: zdiv_zmult2_eq [of 4 _ 36524, simplified])
  have "(x + 1) div 1460 \<le> x div 1460 + 1" using div_step [of 1460 x] by auto
  moreover have "(x + 1) div 146096 - x div 146096 \<le> (x + 1) div 36524 - x div 36524"
    unfolding q using div_step [of 36524 x] div_step [of 4 "x div 36524"] by auto
  ultimately have "x - x div 1460 + x div 36524 - x div 146096 \<le>
      (x + 1) - (x + 1) div 1460 + (x + 1) div 36524 - (x + 1) div 146096" by linarith
  then show ?thesis unfolding march_year_def by (rule zdiv_mono1) simp
qed

lemma march_year_mono: "x \<le> y \<Longrightarrow> march_year x \<le> march_year y"
proof (induction y rule: int_ge_induct)
  case (step y)
  then show ?case using march_year_step [of y] by linarith
qed simp

definition regular_year :: "int \<Rightarrow> bool" where
  "regular_year y \<longleftrightarrow> march_year (year_start y) = y \<and> march_year (year_start (y + 1) - 1) = y \<and>
     year_start (y + 1) - year_start y = (if leap_year (y + 1) then 366 else 365)"

lemmas year_evals = regular_year_def march_year_def year_start_def leap_year_def

lemma year_table:
  "list_all regular_year [0, 1]" "list_all regular_year [2..100]" "list_all regular_year [101..200]"
  "list_all regular_year [201..300]" "list_all regular_year [301..399]"
  by (simp_all add: year_evals)

lemma years_regular: "0 \<le> y \<Longrightarrow> y < 400 \<Longrightarrow> regular_year y"
proof -
  assume y: "0 \<le> y" "y < 400"
  have "y \<in> set [0, 1] \<or> y \<in> {2..100} \<or> y \<in> {101..200} \<or> y \<in> {201..300} \<or> y \<in> {301..399}"
    using y by auto
  then show ?thesis using year_table by (simp only: list_all_iff set_upto) blast
qed

definition in_march_year :: "int \<Rightarrow> int \<Rightarrow> bool" where
  "in_march_year y doe \<longleftrightarrow> 0 \<le> y \<and> y < 400 \<and> year_start y \<le> doe \<and> doe < year_start (y + 1)"

lemma march_year_unique: "in_march_year y doe \<Longrightarrow> march_year doe = y"
proof -
  assume y: "in_march_year y doe"
  then have "regular_year y" by (intro years_regular) (simp_all add: in_march_year_def)
  moreover have "march_year (year_start y) \<le> march_year doe" "march_year doe \<le> march_year (year_start (y + 1) - 1)"
    using y by (auto intro!: march_year_mono simp: in_march_year_def)
  ultimately show ?thesis by (simp add: regular_year_def)
qed

lemma march_year_of:
  assumes "0 \<le> doe" and "doe < 146097"
  shows "in_march_year (march_year doe) doe"
proof -
  let ?y = "march_year doe"
  have "march_year 0 \<le> ?y" "?y \<le> march_year 146096" using assms by (auto intro!: march_year_mono)
  then have y: "0 \<le> ?y" "?y < 400" by (simp_all add: march_year_def)
  have "year_start ?y \<le> doe"
  proof (rule ccontr)
    assume "\<not> year_start ?y \<le> doe"
    then have *: "doe \<le> year_start ?y - 1" by simp
    then have "?y \<noteq> 0" using assms by (auto simp: year_start_def)
    then have "regular_year (?y - 1)" using y by (intro years_regular) auto
    then show False using march_year_mono [OF *] by (simp add: regular_year_def)
  qed
  moreover have "doe < year_start (?y + 1)"
  proof (rule ccontr)
    assume *: "\<not> doe < year_start (?y + 1)"
    then have "?y + 1 \<noteq> 400" using assms by (auto simp: year_start_def)
    then have "regular_year (?y + 1)" using y by (intro years_regular) auto
    then show False using march_year_mono [of "year_start (?y + 1)" doe] * by (simp add: regular_year_def)
  qed
  ultimately show ?thesis using y by (simp add: in_march_year_def)
qed

section \<open>Months of a year that begins in March\<close>

definition march_month :: "int \<Rightarrow> int \<times> int" where
  "march_month doy =
     (let mp = (5 * doy + 2) div 153
      in (if mp < 10 then mp + 3 else mp - 9, doy - (153 * mp + 2) div 5 + 1))"

text \<open>The day after a day of the year, when that is still in the year; February 28 is day 364.\<close>

definition month_step :: "int \<Rightarrow> bool" where
  "month_step doy \<longleftrightarrow>
     (let (m, d) = march_month doy; (m', d') = march_month (doy + 1) in
      if doy = 364 then (m, d) = (2, 28) \<and> (m', d') = (2, 29)
      else 1 \<le> m \<and> m \<le> 12 \<and> (m = 2 \<longrightarrow> d < 28) \<and>
        (if m = 2 \<or> d < month_days 1 m then m' = m \<and> d' = d + 1
         else d' = 1 \<and> m' = (if m = 12 then 1 else m + 1) \<and> (m \<le> 2 \<longleftrightarrow> m = 1)))"

lemmas month_evals = month_step_def march_month_def month_days_def Let_def

lemma month_table: "list_all month_step [0, 1]" "list_all month_step [2..180]" "list_all month_step [181..364]"
  by (simp_all add: month_evals)

lemma months_step: "0 \<le> doy \<Longrightarrow> doy < 365 \<Longrightarrow> month_step doy"
proof -
  assume y: "0 \<le> doy" "doy < 365"
  have "doy \<in> set [0, 1] \<or> doy \<in> {2..180} \<or> doy \<in> {181..364}" using y by auto
  then show ?thesis using month_table by (simp only: list_all_iff set_upto) blast
qed

section \<open>From day to day\<close>

lemma civil_from_days_parts:
  assumes "in_march_year y ((days + 719468) mod 146097)"
  shows "civil_from_days days =
    (let (m, d) = march_month ((days + 719468) mod 146097 - year_start y)
     in (y + (days + 719468) div 146097 * 400 + (if m \<le> 2 then 1 else 0), m, d))"
proof -
  have y: "march_year ((days + 719468) mod 146097) = y" using march_year_unique [OF assms] .
  have start: "365 * y + y div 4 - y div 100 = year_start y" using assms by (simp add: in_march_year_def year_start_def)
  show ?thesis
    unfolding civil_from_days_def Let_def y [unfolded march_year_def] start march_month_def prod.case by (rule refl)
qed

lemma euclid:
  fixes x :: int
  assumes "x = n * q + r" and "0 \<le> r" and "r < n"
  shows "x div n = q" "x mod n = r"
  using int_div_pos_eq [OF assms] int_mod_pos_eq [OF assms] .

lemma div_mod_succ:
  fixes x :: int
  assumes "0 < n"
  shows "x mod n = n - 1 \<Longrightarrow> (x + 1) div n = x div n + 1 \<and> (x + 1) mod n = 0"
    and "x mod n < n - 1 \<Longrightarrow> (x + 1) div n = x div n \<and> (x + 1) mod n = x mod n + 1"
proof -
  have x: "x = n * (x div n) + x mod n" "0 \<le> x mod n" using assms by simp_all
  show "(x + 1) div n = x div n + 1 \<and> (x + 1) mod n = 0" if "x mod n = n - 1"
  proof -
    have "x + 1 = n * (x div n + 1) + 0" using x(1) that by (simp add: distrib_left)
    from euclid [OF this] show ?thesis using assms by simp
  qed
  show "(x + 1) div n = x div n \<and> (x + 1) mod n = x mod n + 1" if "x mod n < n - 1"
  proof -
    have "x + 1 = n * (x div n) + (x mod n + 1)" using x(1) by linarith
    from euclid [OF this] show ?thesis using x(2) that by simp
  qed
qed

lemma leap_year_era: "leap_year (y + e * 400) = leap_year y"
proof -
  have "(y + e * 400) mod 4 = y mod 4" "(y + e * 400) mod 100 = y mod 100" "(y + e * 400) mod 400 = y mod 400"
    using mod_mult_self1 [of y "e * 100" 4] mod_mult_self1 [of y "e * 4" 100] mod_mult_self1 [of y e 400]
    by (simp_all only: mult.assoc) simp_all
  then show ?thesis by (simp add: leap_year_def)
qed

lemma month_days_other: "m \<noteq> 2 \<Longrightarrow> month_days y m = month_days 1 m"
  by (simp add: month_days_def)

lemma next_day: "civil_from_days (days + 1) = next_date (civil_from_days days)"
proof -
  define z where "z = days + 719468"
  define era where "era = z div 146097"
  define doe where "doe = z mod 146097"
  define y where "y = march_year doe"
  have doe: "0 \<le> doe" "doe < 146097" "in_march_year y doe"
    unfolding doe_def y_def by (simp_all add: march_year_of)
  define doy where "doy = doe - year_start y"
  obtain m d where md: "march_month doy = (m, d)" by fastforce
  let ?Y = "y + era * 400"
  have now: "civil_from_days days = (?Y + (if m \<le> 2 then 1 else 0), m, d)"
    using civil_from_days_parts [of y days] doe(3) md
    by (simp add: z_def [symmetric] era_def [symmetric] doe_def [symmetric] doy_def [symmetric])
  have y: "0 \<le> y" "y < 400" using doe(3) by (simp_all add: in_march_year_def)
  have len: "year_start (y + 1) - year_start y = (if leap_year (y + 1) then 366 else 365)"
    using years_regular [OF y] by (simp add: regular_year_def)
  have doy: "0 \<le> doy" "doy < year_start (y + 1) - year_start y" using doe(3) by (simp_all add: doy_def in_march_year_def)
  have leap: "leap_year (?Y + 1) = leap_year (y + 1)" using leap_year_era [of "y + 1" era] by (simp add: algebra_simps)
  show ?thesis
  proof (cases "doe + 1 < year_start (y + 1)")
    case True
    have "year_start (y + 1) \<le> 146097"
      using y by (auto simp: year_start_def)
    then have z': "(z + 1) div 146097 = era" "(z + 1) mod 146097 = doe + 1"
      using True div_mod_succ(2) [of 146097 z] by (simp_all add: era_def doe_def)
    have "in_march_year y (doe + 1)" using doe(3) True by (simp add: in_march_year_def)
    moreover obtain m' d' where md': "march_month (doy + 1) = (m', d')" by fastforce
    ultimately have later: "civil_from_days (days + 1) = (?Y + (if m' \<le> 2 then 1 else 0), m', d')"
      using civil_from_days_parts [of y "days + 1"] z' by (simp add: z_def doy_def algebra_simps)
    have "doy < 365" using doy True len by (simp add: doy_def split: if_splits)
    then have step: "month_step doy" using doy(1) by (intro months_step)
    show ?thesis
    proof (cases "doy = 364")
      case True
      then have "leap_year (y + 1)" using \<open>doe + 1 < year_start (y + 1)\<close> len by (simp add: doy_def split: if_splits)
      then show ?thesis using step True md md' leap unfolding now later by (simp add: month_step_def month_days_def)
    next
      case False
      then have "1 \<le> m \<and> m \<le> 12 \<and> (m = 2 \<longrightarrow> d < 28)"
          "if m = 2 \<or> d < month_days 1 m then m' = m \<and> d' = d + 1 else d' = 1 \<and> m' = (if m = 12 then 1 else m + 1) \<and> (m \<le> 2 \<longleftrightarrow> m = 1)"
        using step md md' by (simp_all add: month_step_def)
      then show ?thesis unfolding now later
        by (cases "m = 2") (auto simp: month_days_other month_days_def split: if_splits)
    qed
  next
    case False
    then have last: "doy = year_start (y + 1) - year_start y - 1" "doe + 1 = year_start (y + 1)"
      using doe(3) by (auto simp: doy_def in_march_year_def)
    have feb: "march_month 364 = (2, 28)" "march_month 365 = (2, 29)" "march_month 0 = (3, 1)"
      by (simp_all add: march_month_def)
    have "m = 2 \<and> \<not> d < month_days (?Y + 1) 2"
      using last(1) len md leap feb by (auto simp: month_days_def split: if_splits)
    then have "next_date (civil_from_days days) = (?Y + 1, 3, 1)" unfolding now by simp
    moreover have "civil_from_days (days + 1) = (?Y + 1, 3, 1)"
    proof (cases "y = 399")
      case True
      then have "doe = 146096" using last(2) by (simp add: year_start_def)
      then have "(z + 1) div 146097 = era + 1" "(z + 1) mod 146097 = 0"
        using div_mod_succ(1) [of 146097 z] by (simp_all add: era_def doe_def)
      moreover have "in_march_year 0 0" by (simp add: in_march_year_def year_start_def)
      ultimately show ?thesis
        using civil_from_days_parts [of 0 "days + 1"] feb(3) True by (simp add: z_def year_start_def algebra_simps)
    next
      case no: False
      then have y': "0 \<le> y + 1" "y + 1 < 400" using y by simp_all
      have "0 < year_start (y + 1 + 1) - year_start (y + 1)"
        using years_regular [OF y'] by (simp add: regular_year_def split: if_splits)
      then have next_year: "in_march_year (y + 1) (doe + 1)" using y' last(2) by (simp add: in_march_year_def)
      have "year_start (y + 1 + 1) \<le> 146097" using y' by (auto simp: year_start_def)
      then have "doe + 1 < 146097" using \<open>0 < year_start (y + 1 + 1) - year_start (y + 1)\<close> last(2) by simp
      then have "(z + 1) div 146097 = era" "(z + 1) mod 146097 = doe + 1"
        using div_mod_succ(2) [of 146097 z] by (simp_all add: era_def doe_def)
      then show ?thesis
        using civil_from_days_parts [of "y + 1" "days + 1"] next_year feb(3) last(2) by (simp add: z_def algebra_simps)
    qed
    ultimately show ?thesis by simp
  qed
qed

section \<open>From second to second\<close>

definition wall_at :: "int \<Rightarrow> wall_clock" where
  "wall_at t = (civil_from_days (t div 86400), t mod 86400 div 3600, t mod 86400 div 60 mod 60, t mod 86400 mod 60)"

lemma iso_timestamp_wall: "iso_timestamp t = clock_text (wall_at t)"
  by (cases "civil_from_days (t div 86400)" rule: prod_cases3) (simp add: iso_timestamp_def wall_at_def Let_def)

lemma hms:
  fixes h mi c :: int
  assumes "0 \<le> h" and "0 \<le> mi" and "mi < 60" and "0 \<le> c" and "c < 60" and "s = 3600 * h + (60 * mi + c)"
  shows "s div 3600 = h" "s div 60 mod 60 = mi" "s mod 60 = c"
proof -
  have minute: "s = 60 * (60 * h + mi) + c" using assms(6) by simp
  show "s div 3600 = h" by (rule euclid(1) [OF assms(6)]) (use assms in simp_all)
  show "s mod 60 = c" by (rule euclid(2) [OF minute]) (use assms in simp_all)
  have "s div 60 = 60 * h + mi" by (rule euclid(1) [OF minute]) (use assms in simp_all)
  then show "s div 60 mod 60 = mi" by (rule euclid(2)) (use assms in simp_all)
qed

lemma hms_exist:
  fixes s :: int
  assumes "0 \<le> s"
  obtains h mi c where "0 \<le> h" "0 \<le> mi" "mi < 60" "0 \<le> c" "c < 60" "s = 3600 * h + (60 * mi + c)"
proof -
  have "s = 60 * (s div 60) + s mod 60" "s div 60 = 60 * (s div 60 div 60) + s div 60 mod 60" by simp_all
  then have "s = 3600 * (s div 60 div 60) + (60 * (s div 60 mod 60) + s mod 60)" by linarith
  then show ?thesis using assms by (intro that [of "s div 60 div 60" "s div 60 mod 60" "s mod 60"]) (simp_all add: pos_imp_zdiv_nonneg_iff)
qed

lemma seconds_step:
  fixes s :: int
  assumes "0 \<le> s" and "s < 86399"
  shows "tick (date, s div 3600, s div 60 mod 60, s mod 60) = (date, (s + 1) div 3600, (s + 1) div 60 mod 60, (s + 1) mod 60)"
proof -
  obtain h mi c where f: "0 \<le> h" "0 \<le> mi" "mi < 60" "0 \<le> c" "c < 60" "s = 3600 * h + (60 * mi + c)"
    using hms_exist [OF assms(1)] .
  note now = hms [OF f]
  consider "c < 59" | "c = 59" "mi < 59" | "c = 59" "mi = 59" using f by linarith
  then show ?thesis
  proof cases
    case 1
    have "s + 1 = 3600 * h + (60 * mi + (c + 1))" using f(6) by simp
    from hms [OF f(1-3) _ _ this] show ?thesis using f(4) 1 by (simp add: now)
  next
    case 2
    have "s + 1 = 3600 * h + (60 * (mi + 1) + 0)" using f(6) 2 by simp
    from hms [OF f(1) _ _ _ _ this] show ?thesis using f(2) 2 by (simp add: now)
  next
    case 3
    have "h < 23" using f(6) 3 assms(2) by simp
    have "s + 1 = 3600 * (h + 1) + (60 * 0 + 0)" using f(6) 3 by simp
    from hms [OF _ _ _ _ _ this] show ?thesis using f(1) 3 \<open>h < 23\<close> by (simp add: now)
  qed
qed

lemma wall_step: "wall_at (t + 1) = tick (wall_at t)"
proof (cases "t mod 86400 = 86399")
  case True
  then have "(t + 1) mod 86400 = 0" "(t + 1) div 86400 = t div 86400 + 1"
    using div_mod_succ(1) [of 86400 t] by simp_all
  then show ?thesis using True next_day [of "t div 86400"] by (simp add: wall_at_def)
next
  case False
  have range: "0 \<le> t mod 86400" "t mod 86400 < 86399"
    using False pos_mod_bound [of 86400 t] by simp_all
  have "(t + 1) mod 86400 = t mod 86400 + 1" "(t + 1) div 86400 = t div 86400"
    using range div_mod_succ(2) [of 86400 t] by simp_all
  then show ?thesis unfolding wall_at_def using seconds_step [OF range] by simp
qed

text \<open>
  C33: The time stamp of every message is the right one: it is what a clock shows that started at midnight of
  the first of January 1970 and was advanced second by second through the Gregorian calendar.
\<close>

theorem iso_timestamp_calendar: "iso_timestamp (int n) = clock_text ((tick ^^ n) epoch)"
proof -
  have "wall_at (int n) = (tick ^^ n) epoch"
  proof (induction n)
    case 0
    show ?case by code_simp
  next
    case (Suc n)
    have "wall_at (int (Suc n)) = tick (wall_at (int n))" using wall_step [of "int n"] by (simp add: add.commute)
    then show ?case using Suc by simp
  qed
  then show ?thesis by (simp add: iso_timestamp_wall)
qed

end
