(* ===== verification/Cpp_Streams.thy ===== *)
theory Cpp_Streams
  imports Cpp_Strings "HOL-Library.Word"
begin

text \<open>
  Formatted input as the agent uses it on the files of \<^verbatim>\<open>/proc\<close>: extraction of words
  and of 64-bit integers from a \<^verbatim>\<open>std::istream\<close>, and \<^verbatim>\<open>std::getline\<close>.
  A stream is the text not yet read and whether no extraction has failed; once one has failed
  the later ones leave their variables alone. Integers follow libstdc++ in the decimal mode: an
  optional sign and the longest run of digits; without digits the variable becomes 0 and the
  stream fails, out of range it becomes the nearest value and the stream fails, and a minus
  sign on an unsigned type negates modulo \<open>2\<^bsup>64\<^esup>\<close>.
\<close>

section \<open>Streams\<close>

record istream =
  unread :: cpp_string
  good :: bool

text \<open>A stream on a file: \<open>None\<close> when it cannot be opened.\<close>

definition open_file :: "cpp_string option \<Rightarrow> istream" where
  "open_file contents =
     (case contents of Some t \<Rightarrow> \<lparr>unread = t, good = True\<rparr> | None \<Rightarrow> \<lparr>unread = [], good = False\<rparr>)"

text \<open>The sentry of a formatted input operation: it skips white space and fails at the end.\<close>

definition skip_ws :: "istream \<Rightarrow> istream" where
  "skip_ws is =
     (let t = dropWhile isspace (unread is)
      in if good is then \<lparr>unread = t, good = (t \<noteq> [])\<rparr> else is)"

definition extract_word :: "cpp_string \<Rightarrow> istream \<Rightarrow> cpp_string \<times> istream" where
  "extract_word old is =
     (let is1 = skip_ws is
      in if good is1
         then (takeWhile (\<lambda>c. \<not> isspace c) (unread is1),
               is1\<lparr>unread := dropWhile (\<lambda>c. \<not> isspace c) (unread is1)\<rparr>)
         else (old, is1))"

text \<open>The sign, the digits and the rest of a text.\<close>

definition sign_of :: "cpp_string \<Rightarrow> cpp_string" where
  "sign_of t = (if t \<noteq> [] \<and> (hd t = CHR ''-'' \<or> hd t = CHR ''+'') then [hd t] else [])"

definition int_digits :: "cpp_string \<Rightarrow> cpp_string" where
  "int_digits t = takeWhile isdigit (drop (length (sign_of t)) t)"

definition after_int :: "cpp_string \<Rightarrow> cpp_string" where
  "after_int t = dropWhile isdigit (drop (length (sign_of t)) t)"

definition extract_u64 :: "64 word \<Rightarrow> istream \<Rightarrow> 64 word \<times> istream" where
  "extract_u64 old is =
     (let is1 = skip_ws is; t = unread is1; n = digits_value 0 (int_digits t);
          is2 = is1\<lparr>unread := after_int t\<rparr>
      in if \<not> good is1 then (old, is1)
         else if int_digits t = [] then (0, is2\<lparr>good := False\<rparr>)
         else if 2 ^ 64 \<le> n then (- 1, is2\<lparr>good := False\<rparr>)
         else (if sign_of t = ''-'' then - word_of_nat n else word_of_nat n, is2))"

definition extract_i64 :: "int \<Rightarrow> istream \<Rightarrow> int \<times> istream" where
  "extract_i64 old is =
     (let is1 = skip_ws is; t = unread is1;
          i = (if sign_of t = ''-'' then - int (digits_value 0 (int_digits t))
               else int (digits_value 0 (int_digits t)));
          is2 = is1\<lparr>unread := after_int t\<rparr>
      in if \<not> good is1 then (old, is1)
         else if int_digits t = [] then (0, is2\<lparr>good := False\<rparr>)
         else if i \<noteq> sat64 i then (sat64 i, is2\<lparr>good := False\<rparr>)
         else (i, is2))"

text \<open>A chain of extractions into variables that start at 0.\<close>

fun extract_u64s :: "nat \<Rightarrow> istream \<Rightarrow> 64 word list \<times> istream" where
  "extract_u64s 0 is = ([], is)"
| "extract_u64s (Suc n) is =
     (let (v, is1) = extract_u64 0 is; (vs, is2) = extract_u64s n is1 in (v # vs, is2))"

text \<open>
  \<^verbatim>\<open>std::getline\<close> until it fails: the pieces between newlines, a last piece without a
  newline only when it is not empty.
\<close>

fun getlines :: "cpp_string \<Rightarrow> cpp_string list" where
  "getlines [] = []"
| "getlines (c # t) =
     (if c = CHR_nl then [] # getlines t
      else case getlines t of [] \<Rightarrow> [[c]] | l # ls \<Rightarrow> (c # l) # ls)"

section \<open>Reading back what was printed\<close>

lemma skip_ws_simps:
  "\<forall>c \<in> set sp. isspace c \<Longrightarrow> t \<noteq> [] \<Longrightarrow> \<not> isspace (hd t) \<Longrightarrow>
   skip_ws \<lparr>unread = sp @ t, good = True\<rparr> = \<lparr>unread = t, good = True\<rparr>"
  by (simp add: skip_ws_def dropWhile_append2 dropWhile_hd)

definition ends_token :: "cpp_string \<Rightarrow> bool" where
  "ends_token t \<longleftrightarrow> t = [] \<or> isspace (hd t)"

lemma ends_token_simps [simp]: "ends_token []" "ends_token (c # t) \<longleftrightarrow> isspace c"
  by (simp_all add: ends_token_def)

lemma takeWhile_token:
  assumes "\<forall>c \<in> set w. p c" and "ends_token rest" and "\<And>c. isspace c \<Longrightarrow> \<not> p c"
  shows "takeWhile p (w @ rest) = w" and "dropWhile p (w @ rest) = rest"
  using assms by (cases rest; simp add: takeWhile_append2 dropWhile_append2)+

lemma extract_word_token:
  assumes "\<forall>c \<in> set sp. isspace c" and "w \<noteq> []" and "\<forall>c \<in> set w. \<not> isspace c" and "ends_token rest"
  shows "extract_word old \<lparr>unread = sp @ w @ rest, good = True\<rparr> = (w, \<lparr>unread = rest, good = True\<rparr>)"
proof -
  have "skip_ws \<lparr>unread = sp @ w @ rest, good = True\<rparr> = \<lparr>unread = w @ rest, good = True\<rparr>"
    using assms by (intro skip_ws_simps) auto
  then show ?thesis
    using takeWhile_token [of w "\<lambda>c. \<not> isspace c" rest] assms by (simp add: extract_word_def)
qed

lemma digits_head: "nat_to_string n \<noteq> [] \<and> isdigit (hd (nat_to_string n))"
  using nat_to_string_digits [of "hd (nat_to_string n)" n] by simp

lemma number_parts:
  assumes "ends_token rest"
  shows "sign_of (nat_to_string n @ rest) = []" and "int_digits (nat_to_string n @ rest) = nat_to_string n"
    and "after_int (nat_to_string n @ rest) = rest"
proof -
  show sign: "sign_of (nat_to_string n @ rest) = []"
    using digits_head [of n] isdigit_not_sign [of "hd (nat_to_string n)"] by (auto simp: sign_of_def)
  have sp: "isspace c \<Longrightarrow> \<not> isdigit c" for c using isdigit_not_space by blast
  show "int_digits (nat_to_string n @ rest) = nat_to_string n" "after_int (nat_to_string n @ rest) = rest"
    using takeWhile_token [OF _ assms sp, of "nat_to_string n"] nat_to_string_digits
    by (simp_all add: int_digits_def after_int_def sign)
qed

lemma skip_ws_number:
  "\<forall>c \<in> set sp. isspace c \<Longrightarrow> skip_ws \<lparr>unread = sp @ nat_to_string n @ rest, good = True\<rparr> =
     \<lparr>unread = nat_to_string n @ rest, good = True\<rparr>"
  using digits_head [of n] isdigit_not_space by (intro skip_ws_simps) auto

lemma extract_u64_number:
  assumes "\<forall>c \<in> set sp. isspace c" and "n < 2 ^ 64" and "ends_token rest"
  shows "extract_u64 old \<lparr>unread = sp @ nat_to_string n @ rest, good = True\<rparr> =
    (word_of_nat n, \<lparr>unread = rest, good = True\<rparr>)"
  using assms by (simp add: extract_u64_def skip_ws_number number_parts Let_def)

lemma extract_i64_number:
  assumes "\<forall>c \<in> set sp. isspace c" and "n < 2 ^ 63" and "ends_token rest"
  shows "extract_i64 old \<lparr>unread = sp @ nat_to_string n @ rest, good = True\<rparr> =
    (int n, \<lparr>unread = rest, good = True\<rparr>)"
proof -
  have "int n < 2 ^ 63" using assms(2) by (metis of_nat_less_iff of_nat_numeral of_nat_power)
  then have "int n = sat64 (int n)" by (simp add: sat64_def)
  then show ?thesis using assms by (simp add: extract_i64_def skip_ws_number number_parts Let_def)
qed

text \<open>Numbers, each preceded by a space.\<close>

definition numbers :: "nat list \<Rightarrow> cpp_string" where
  "numbers ns = concat (map (\<lambda>n. CHR '' '' # nat_to_string n) ns)"

lemma isspace_blank [simp]: "isspace (CHR '' '')" "isspace CHR_nl"
  by (simp_all add: isspace_def spaces_def)

lemma ends_token_numbers [simp]: "ends_token rest \<Longrightarrow> ends_token (numbers ns @ rest)"
  by (cases ns) (simp_all add: numbers_def)

lemma extract_u64s_numbers:
  assumes "\<forall>n \<in> set ns. n < 2 ^ 64" and "ends_token rest"
  shows "extract_u64s (length ns) \<lparr>unread = numbers ns @ rest, good = True\<rparr> =
    (map word_of_nat ns, \<lparr>unread = rest, good = True\<rparr>)"
  using assms(1)
proof (induction ns)
  case (Cons n ns)
  have "extract_u64 0 \<lparr>unread = '' '' @ nat_to_string n @ numbers ns @ rest, good = True\<rparr> =
      (word_of_nat n, \<lparr>unread = numbers ns @ rest, good = True\<rparr>)"
    using Cons.prems assms(2) by (intro extract_u64_number) simp_all
  then show ?case using Cons by (simp add: numbers_def)
qed (simp add: numbers_def)

lemma extract_u64s_list:
  "length ns = k \<Longrightarrow> \<forall>n \<in> set ns. n < 2 ^ 64 \<Longrightarrow> ends_token rest \<Longrightarrow>
   extract_u64s k \<lparr>unread = numbers ns @ rest, good = True\<rparr> =
     (map word_of_nat ns, \<lparr>unread = rest, good = True\<rparr>)"
  using extract_u64s_numbers by blast

lemma unread_shrinks:
  "length (unread (skip_ws is)) \<le> length (unread is)"
  "length (unread (snd (extract_word old is))) \<le> length (unread is)"
  "length (unread (snd (extract_i64 i is))) \<le> length (unread is)"
  "good (snd (extract_word old is)) \<Longrightarrow> length (unread (snd (extract_word old is))) < length (unread is)"
proof -
  show ws: "length (unread (skip_ws is)) \<le> length (unread is)"
    by (simp add: skip_ws_def Let_def length_dropWhile_le)
  show "length (unread (snd (extract_word old is))) \<le> length (unread is)"
    using ws le_trans [OF length_dropWhile_le] by (auto simp: extract_word_def Let_def)
  have "length (after_int t) \<le> length t" for t
    unfolding after_int_def by (rule le_trans [OF length_dropWhile_le]) simp
  then show "length (unread (snd (extract_i64 i is))) \<le> length (unread is)"
    using ws le_trans by (fastforce simp: extract_i64_def Let_def)
  show "length (unread (snd (extract_word old is))) < length (unread is)"
    if "good (snd (extract_word old is))"
  proof -
    have g: "good is" "dropWhile isspace (unread is) \<noteq> []"
      using that by (auto simp: extract_word_def skip_ws_def Let_def split: if_splits)
    then obtain c t where ct: "dropWhile isspace (unread is) = c # t" by (cases "dropWhile isspace (unread is)") auto
    then have "\<not> isspace c" "length (c # t) \<le> length (unread is)"
      using dropWhile_eq_Cons_D length_dropWhile_le [of isspace "unread is"] by metis+
    moreover have "length (dropWhile (\<lambda>c. \<not> isspace c) t) \<le> length t" by (rule length_dropWhile_le)
    ultimately show ?thesis using g ct by (simp add: extract_word_def skip_ws_def Let_def)
  qed
qed

end
