(* ===== verification/Agent_Metrics.thy ===== *)
theory Agent_Metrics
  imports Cpp_Streams Common_Events
begin

text \<open>
  The sampling code of \<^verbatim>\<open>cpp/include/metrics.hpp\<close> for its three platforms. What the
  operating system answers is a value: the contents of a file under \<^verbatim>\<open>/proc\<close>
  (\<open>None\<close> when it cannot be opened) or the result of a call (\<open>None\<close> when it
  fails). Counters are 64-bit words and wrap as in the source; the counters Windows and macOS
  report are 32 bits wide and are widened.
\<close>

section \<open>Samples\<close>

record CpuSample =
  idle :: "64 word"
  cpu_total :: "64 word"

record NetSample =
  rx_bytes :: "64 word"
  tx_bytes :: "64 word"

definition no_cpu :: CpuSample where "no_cpu = \<lparr>idle = 0, cpu_total = 0\<rparr>"

definition no_net :: NetSample where "no_net = \<lparr>rx_bytes = 0, tx_bytes = 0\<rparr>"

subsection \<open>The name of the host\<close>

datatype host_name_call = GetComputerName "cpp_string option" | GetHostName "cpp_string option"

fun hostname_or :: "host_name_call \<Rightarrow> cpp_string \<Rightarrow> cpp_string" where
  "hostname_or (GetComputerName r) fallback = (case r of Some name \<Rightarrow> name | None \<Rightarrow> fallback)"
| "hostname_or (GetHostName r) fallback =
     (case r of Some name \<Rightarrow> takeWhile (\<lambda>c. c \<noteq> CHR 0x00) (take 255 name) | None \<Rightarrow> fallback)"

subsection \<open>Processor time\<close>

record filetime =
  low_date_time :: "32 word"
  high_date_time :: "32 word"

definition to_u64 :: "filetime \<Rightarrow> 64 word" where
  "to_u64 t = ucast (high_date_time t) * 2 ^ 32 + ucast (low_date_time t)"

record cpu_ticks =
  ticks_user :: "32 word"
  ticks_system :: "32 word"
  ticks_idle :: "32 word"
  ticks_nice :: "32 word"

datatype cpu_source =
    GetSystemTimes "(filetime \<times> filetime \<times> filetime) option"
  | HostCpuLoad "cpu_ticks option"
  | ProcStat "cpp_string option"

fun read_cpu_sample :: "cpu_source \<Rightarrow> CpuSample" where
  "read_cpu_sample (GetSystemTimes r) =
     (case r of
        Some (idle_time, kernel_time, user_time) \<Rightarrow>
          \<lparr>idle = to_u64 idle_time, cpu_total = to_u64 kernel_time + to_u64 user_time\<rparr>
      | None \<Rightarrow> no_cpu)"
| "read_cpu_sample (HostCpuLoad r) =
     (case r of
        Some load \<Rightarrow>
          \<lparr>idle = ucast (ticks_idle load),
           cpu_total = ucast (ticks_user load) + ucast (ticks_system load) + ucast (ticks_nice load)
             + ucast (ticks_idle load)\<rparr>
      | None \<Rightarrow> no_cpu)"
| "read_cpu_sample (ProcStat r) =
     (let (label, is1) = extract_word [] (open_file r) in
      case extract_u64s 8 is1 of
        ([user, nice, system, idl, iowait, irq, softirq, steal], is2) \<Rightarrow>
          \<lparr>idle = idl + iowait,
           cpu_total = user + nice + system + idl + iowait + irq + softirq + steal\<rparr>
      | _ \<Rightarrow> no_cpu)"

subsection \<open>Network counters\<close>

definition IF_TYPE_SOFTWARE_LOOPBACK :: "32 word" where "IF_TYPE_SOFTWARE_LOOPBACK = 24"

definition AF_LINK :: int where "AF_LINK = 18"

definition IFF_LOOPBACK :: nat where "IFF_LOOPBACK = 3"

record if_row =
  dwType :: "32 word"
  dwInOctets :: "32 word"
  dwOutOctets :: "32 word"

record ifaddrs =
  ifa_family :: "int option"
  ifa_flags :: "32 word"
  ifa_data :: "(32 word \<times> 32 word) option"

definition add_bytes :: "64 word \<Rightarrow> 64 word \<Rightarrow> NetSample \<Rightarrow> NetSample" where
  "add_bytes rx tx s = \<lparr>rx_bytes = rx_bytes s + rx, tx_bytes = tx_bytes s + tx\<rparr>"

definition count_row :: "if_row \<Rightarrow> NetSample \<Rightarrow> NetSample" where
  "count_row row sample =
     (if dwType row = IF_TYPE_SOFTWARE_LOOPBACK then sample
      else add_bytes (ucast (dwInOctets row)) (ucast (dwOutOctets row)) sample)"

definition count_entry :: "ifaddrs \<Rightarrow> NetSample \<Rightarrow> NetSample" where
  "count_entry entry sample =
     (case (ifa_family entry, ifa_data entry) of
        (Some family, Some (ibytes, obytes)) \<Rightarrow>
          if family \<noteq> AF_LINK then sample
          else if bit (ifa_flags entry) IFF_LOOPBACK then sample
          else add_bytes (ucast ibytes) (ucast obytes) sample
      | _ \<Rightarrow> sample)"

text \<open>One line of \<^verbatim>\<open>/proc/net/dev\<close> after the two header lines.\<close>

definition count_line :: "cpp_string \<Rightarrow> NetSample \<Rightarrow> NetSample" where
  "count_line line sample =
     (if CHR '':'' \<notin> set line then sample
      else
        (let interface_name = trim (takeWhile (\<lambda>c. c \<noteq> CHR '':'') line);
             rest = drop 1 (dropWhile (\<lambda>c. c \<noteq> CHR '':'') line)
         in if interface_name = ''lo'' then sample
            else
              (let values = fst (extract_u64s 16 \<lparr>unread = rest, good = True\<rparr>)
               in add_bytes (values ! 0) (values ! 8) sample)))"

fun count_lines :: "nat \<Rightarrow> cpp_string list \<Rightarrow> NetSample \<Rightarrow> NetSample" where
  "count_lines line_index [] sample = sample"
| "count_lines line_index (line # lines) sample =
     count_lines (Suc line_index) lines
       (if Suc line_index \<le> 2 then sample else count_line line sample)"

datatype net_source =
    GetIfTable "if_row list option"
  | Getifaddrs "ifaddrs list option"
  | ProcNetDev "cpp_string option"

fun read_net_sample :: "net_source \<Rightarrow> NetSample" where
  "read_net_sample (GetIfTable r) =
     (case r of Some table \<Rightarrow> fold count_row table no_net | None \<Rightarrow> no_net)"
| "read_net_sample (Getifaddrs r) =
     (case r of Some interfaces \<Rightarrow> fold count_entry interfaces no_net | None \<Rightarrow> no_net)"
| "read_net_sample (ProcNetDev r) =
     (case r of Some t \<Rightarrow> count_lines 0 (getlines t) no_net | None \<Rightarrow> no_net)"

section \<open>Memory and disk\<close>

definition dbl_of_word :: "64 word \<Rightarrow> double" where
  "dbl_of_word w = dbl_of_nat (unat w)"

definition dbl_percent :: "double \<Rightarrow> double \<Rightarrow> double" where
  "dbl_percent part whole = dbl_div (dbl_mult (dbl_of_nat 100) part) whole"

definition megabytes :: "64 word \<Rightarrow> int" where
  "megabytes w = uint (w div (1024 * 1024))"

text \<open>Division of \<^verbatim>\<open>long long\<close> truncates toward zero.\<close>

definition tdiv :: "int \<Rightarrow> int \<Rightarrow> int" where
  "tdiv a b = sgn a * sgn b * (\<bar>a\<bar> div \<bar>b\<bar>)"

text \<open>
  The usage of a store of bytes as the Windows and the \<^verbatim>\<open>statvfs\<close> code compute it:
  used and total megabytes, and the percentage, which stays at its initial 0 without a total.
\<close>

definition byte_usage :: "64 word \<Rightarrow> 64 word \<Rightarrow> int \<times> int \<times> double" where
  "byte_usage used_bytes total_bytes =
     (megabytes used_bytes, megabytes total_bytes,
      if total_bytes > 0 then dbl_percent (dbl_of_word used_bytes) (dbl_of_word total_bytes) else dbl_zero)"

definition no_usage :: "int \<times> int \<times> double" where "no_usage = (0, 0, dbl_zero)"

function read_meminfo :: "istream \<Rightarrow> int \<Rightarrow> int \<Rightarrow> int \<times> int" where
  "read_meminfo is mem_total_kb mem_available_kb =
     (let (key, is1) = extract_word [] is;
          (value, is2) = extract_i64 0 is1;
          (unit, is3) = extract_word [] is2
      in if \<not> good is3 then (mem_total_kb, mem_available_kb)
         else
           (let total_kb = (if key = ''MemTotal:'' then value else mem_total_kb);
                available_kb = (if key \<noteq> ''MemTotal:'' \<and> key = ''MemAvailable:'' then value
                                else mem_available_kb)
            in if total_kb > 0 \<and> available_kb > 0 then (total_kb, available_kb)
               else read_meminfo is3 total_kb available_kb))"
  by pat_completeness auto
termination
proof (relation "measure (\<lambda>(is, t, a). length (unread is))", goal_cases)
  case (2 ins t a x key is1 y val is2 z unit is3)
  have steps: "extract_word [] ins = (key, is1)" "extract_i64 0 is1 = (val, is2)" "extract_word [] is2 = (unit, is3)"
    using 2(1-6) by simp_all
  have "length (unread is3) < length (unread is2)"
    using unread_shrinks(4) [of "[]" is2] 2(7) by (simp add: steps)
  also have "\<dots> \<le> length (unread is1)" using unread_shrinks(3) [of 0 is1] by (simp add: steps)
  also have "\<dots> \<le> length (unread ins)" using unread_shrinks(2) [of "[]" ins] by (simp add: steps)
  finally show ?case by simp
qed simp

declare read_meminfo.simps [simp del]

record vm_statistics =
  free_count :: "32 word"
  inactive_count :: "32 word"

datatype mem_source =
    GlobalMemoryStatus "(64 word \<times> 64 word) option"
  | VmStatistics "64 word option" "vm_statistics option" "64 word"
  | ProcMeminfo "cpp_string option"

definition kb_usage :: "int \<Rightarrow> int \<Rightarrow> int \<times> int \<times> double" where
  "kb_usage mem_total_kb mem_available_kb =
     (let mem_used_kb = mem_total_kb - mem_available_kb
      in (tdiv mem_used_kb 1024, tdiv mem_total_kb 1024,
          if mem_total_kb > 0 then dbl_percent (dbl_of_int mem_used_kb) (dbl_of_int mem_total_kb)
          else dbl_zero))"

definition windows_memory :: "(64 word \<times> 64 word) option \<Rightarrow> int \<times> int \<times> double" where
  "windows_memory memory_status =
     (case memory_status of
        Some (total_bytes, available_bytes) \<Rightarrow> byte_usage (total_bytes - available_bytes) total_bytes
      | None \<Rightarrow> no_usage)"

definition apple_memory ::
    "64 word option \<Rightarrow> vm_statistics option \<Rightarrow> 64 word \<Rightarrow> int \<times> int \<times> double" where
  "apple_memory memsize vm page_size =
     (case memsize of
        Some total_bytes \<Rightarrow>
          (case vm of
             Some vm_stats \<Rightarrow>
               (let available_bytes = ucast (free_count vm_stats + inactive_count vm_stats) * page_size
                in byte_usage (if total_bytes > available_bytes then total_bytes - available_bytes else 0)
                     total_bytes)
           | None \<Rightarrow> no_usage)
      | None \<Rightarrow> no_usage)"

definition linux_memory :: "cpp_string option \<Rightarrow> int \<times> int \<times> double" where
  "linux_memory meminfo =
     (let (mem_total_kb, mem_available_kb) = read_meminfo (open_file meminfo) 0 0
      in kb_usage mem_total_kb mem_available_kb)"

fun memory_usage :: "mem_source \<Rightarrow> int \<times> int \<times> double" where
  "memory_usage (GlobalMemoryStatus r) = windows_memory r"
| "memory_usage (VmStatistics memsize vm page_size) = apple_memory memsize vm page_size"
| "memory_usage (ProcMeminfo r) = linux_memory r"

record statvfs =
  f_blocks :: "64 word"
  f_bavail :: "64 word"
  f_frsize :: "64 word"

datatype disk_source =
    GetDiskFreeSpace "(64 word \<times> 64 word) option"
  | Statvfs "statvfs option"

definition windows_disk :: "(64 word \<times> 64 word) option \<Rightarrow> int \<times> int \<times> double" where
  "windows_disk r =
     (case r of
        Some (total_bytes, free_bytes) \<Rightarrow> byte_usage (total_bytes - free_bytes) total_bytes
      | None \<Rightarrow> no_usage)"

definition statvfs_disk :: "statvfs option \<Rightarrow> int \<times> int \<times> double" where
  "statvfs_disk r =
     (case r of
        Some st \<Rightarrow>
          (let total_bytes = f_blocks st * f_frsize st; available_bytes = f_bavail st * f_frsize st
           in byte_usage (total_bytes - available_bytes) total_bytes)
      | None \<Rightarrow> no_usage)"

fun disk_usage :: "disk_source \<Rightarrow> int \<times> int \<times> double" where
  "disk_usage (GetDiskFreeSpace r) = windows_disk r"
| "disk_usage (Statvfs r) = statvfs_disk r"

section \<open>collect\_metrics\<close>

record probe =
  probe_cpu :: cpu_source
  probe_mem :: mem_source
  probe_disk :: disk_source
  probe_net :: net_source

definition cpu_load :: "CpuSample \<Rightarrow> CpuSample \<Rightarrow> double" where
  "cpu_load previous_cpu current_cpu =
     (let total_delta = cpu_total current_cpu - cpu_total previous_cpu;
          idle_delta = idle current_cpu - idle previous_cpu
      in if cpu_total previous_cpu \<noteq> 0 \<and> total_delta > 0
         then dbl_percent (dbl_of_word (total_delta - idle_delta)) (dbl_of_word total_delta)
         else dbl_zero)"

definition net_rate :: "64 word \<Rightarrow> 64 word \<Rightarrow> double \<Rightarrow> double" where
  "net_rate previous current elapsed =
     dbl_div (dbl_div (dbl_of_word (current - previous)) (dbl_of_nat 1024)) elapsed"

definition collect_metrics ::
    "cpp_string \<Rightarrow> int \<Rightarrow> probe \<Rightarrow> CpuSample \<Rightarrow> NetSample \<Rightarrow> double
       \<Rightarrow> MetricSnapshot \<times> CpuSample \<times> NetSample" where
  "collect_metrics host now p previous_cpu previous_net elapsed_seconds =
     (let current_cpu = read_cpu_sample (probe_cpu p);
          (mem_used, mem_total, mem_percent) = memory_usage (probe_mem p);
          (dsk_used, dsk_total, dsk_percent) = disk_usage (probe_disk p);
          current_net = read_net_sample (probe_net p);
          rates = (rx_bytes previous_net \<noteq> 0 \<and> dbl_less dbl_zero elapsed_seconds)
      in (\<lparr>ms_host = host, ms_timestamp = iso_timestamp now,
           cpu_percent = cpu_load previous_cpu current_cpu,
           memory_percent = mem_percent, disk_percent = dsk_percent,
           network_rx_kbps =
             (if rates then net_rate (rx_bytes previous_net) (rx_bytes current_net) elapsed_seconds
              else dbl_zero),
           network_tx_kbps =
             (if rates then net_rate (tx_bytes previous_net) (tx_bytes current_net) elapsed_seconds
              else dbl_zero),
           memory_used_mb = mem_used, memory_total_mb = mem_total,
           disk_used_mb = dsk_used, disk_total_mb = dsk_total\<rparr>,
          current_cpu, current_net))"

section \<open>Percentages\<close>

lemma hundred: "denotes (dbl_of_nat 100) 100"
  using denotes_of_nat_exact [of 100] by simp

lemma dbl_percent_exact:
  assumes "0 < b" and "a \<le> b" and "100 * b \<le> 2 ^ 53"
  shows "denotes (dbl_percent (dbl_of_nat a) (dbl_of_nat b)) (rnd (100 * real a / real b))"
    and "rnd (100 * real a / real b) \<le> 100"
proof -
  have small: "a \<le> 2 ^ 53" "b \<le> 2 ^ 53" "100 * a \<le> 2 ^ 53" using assms(2,3) by simp_all
  have "real (100 * a) \<le> real (2 ^ 53)" using small(3) by (simp only: of_nat_le_iff)
  then have range: "in_range (100 * real a)" by (intro in_rangeI [of _ 53]) simp_all
  have "rnd (real (100 * a)) = real (100 * a)" by (rule rnd_fixes_grid [OF nat_in_grid [OF small(3)]])
  then have part: "denotes (dbl_mult (dbl_of_nat 100) (dbl_of_nat a)) (100 * real a)"
    using denotes_mult [OF hundred denotes_of_nat_exact [OF small(1)] range] by simp
  have ratio: "100 * real a / real b \<le> 100" using assms(1,2) by (simp add: divide_le_eq)
  then have "100 * real a / real b \<le> real (2 ^ 7)" by simp
  then have range': "in_range (100 * real a / real b)" by (rule in_rangeI) simp
  show "denotes (dbl_percent (dbl_of_nat a) (dbl_of_nat b)) (rnd (100 * real a / real b))"
    unfolding dbl_percent_def
    using denotes_div [OF part denotes_of_nat_exact [OF small(2)] _ range'] assms(1) by simp
  have "rnd (100 * real a / real b) \<le> rnd (real 100)" using ratio by (intro rnd_mono) simp_all
  also have "\<dots> = real 100" by (rule rnd_fixes_grid [OF nat_in_grid]) simp
  finally show "rnd (100 * real a / real b) \<le> 100" by simp
qed

text \<open>A number (not an infinity and not NaN) between 0 and 100.\<close>

definition percentage :: "double \<Rightarrow> bool" where
  "percentage x \<longleftrightarrow> is_finite x \<and> 0 \<le> val x \<and> val x \<le> 100"

lemma percentage_zero [simp]: "percentage dbl_zero"
  using denotes_val [OF denotes_zero] by (simp add: percentage_def)

lemma denotes_percentage: "denotes x (rnd r) \<Longrightarrow> rnd r \<le> 100 \<Longrightarrow> percentage x"
  using denotes_val [of x "rnd r"] by (simp add: percentage_def)

text \<open>
  C30: The processor load that a report carries lies between 0 and 100 percent and is the correctly
  rounded share of non-idle time, whenever the idle time did not grow by more than the total time
  and at most about \<open>2\<^bsup>46\<^esup>\<close> ticks have passed. The counters may wrap around in between: only
  their differences matter.
\<close>

theorem cpu_load_percent:
  assumes "cpu_total previous \<noteq> 0" and "total_ticks = unat (cpu_total current - cpu_total previous)"
    and "idle_ticks = unat (idle current - idle previous)"
    and "0 < total_ticks" and "idle_ticks \<le> total_ticks" and "100 * total_ticks \<le> 2 ^ 53"
  shows "val (cpu_load previous current) = rnd (100 * real (total_ticks - idle_ticks) / real total_ticks) \<and>
    percentage (cpu_load previous current)"
proof -
  let ?t = "cpu_total current - cpu_total previous" and ?i = "idle current - idle previous"
  have "?i \<le> ?t" using assms(2,3,5) by (simp add: word_le_nat_alt)
  then have busy: "unat (?t - ?i) = total_ticks - idle_ticks" by (simp add: unat_sub assms(2,3))
  have pos: "0 < ?t" using assms(2,4) by (simp add: word_less_nat_alt)
  have load: "cpu_load previous current = dbl_percent (dbl_of_nat (total_ticks - idle_ticks)) (dbl_of_nat total_ticks)"
    using assms(1) pos busy by (simp add: cpu_load_def Let_def dbl_of_word_def assms(2))
  note exact = dbl_percent_exact [OF assms(4) diff_le_self [of total_ticks idle_ticks] assms(6)]
  show ?thesis unfolding load
    using denotes_val [OF exact(1)] denotes_percentage [OF exact] by simp
qed

text \<open>
  The percentage of a store in bytes lies between 0 and 100, and used and total megabytes are the
  byte counts rounded down, when no more than the total is used and the total is below about 90
  tebibytes.
\<close>

lemma byte_usage_percent:
  assumes "used \<le> total_bytes" and "0 < total_bytes" and "100 * unat total_bytes \<le> 2 ^ 53"
    and "byte_usage used total_bytes = (used_mb, total_mb, percent)"
  shows "val percent = rnd (100 * real (unat used) / real (unat total_bytes)) \<and>
    percentage percent \<and>
    used_mb = int (unat used div 2 ^ 20) \<and> total_mb = int (unat total_bytes div 2 ^ 20) \<and> used_mb \<le> total_mb"
proof -
  have le: "unat used \<le> unat total_bytes" and pos: "0 < unat total_bytes"
    using assms(1,2) by (simp_all add: word_le_nat_alt word_less_nat_alt)
  have mb: "megabytes w = int (unat w div 2 ^ 20)" for w
    by (simp add: megabytes_def uint_nat unat_div)
  note exact = dbl_percent_exact [OF pos le assms(3)]
  have "percent = dbl_percent (dbl_of_nat (unat used)) (dbl_of_nat (unat total_bytes))"
    using assms(2,4) by (simp add: byte_usage_def dbl_of_word_def)
  moreover have "used_mb = int (unat used div 2 ^ 20)" "total_mb = int (unat total_bytes div 2 ^ 20)"
    using assms(4) by (simp_all only: byte_usage_def prod.inject mb)
  moreover have "unat used div 2 ^ 20 \<le> unat total_bytes div 2 ^ 20" using le by (rule div_le_mono)
  ultimately show ?thesis
    using denotes_val [OF exact(1)] denotes_percentage [OF exact] by simp
qed

section \<open>The files under /proc\<close>

text \<open>
  From the first line of \<^verbatim>\<open>/proc/stat\<close> the sampler takes idle plus iowait
  as idle time and the sum of the eight counters as total time, whatever follows them.
\<close>

lemma read_cpu_sample_proc_stat:
  assumes "\<forall>n \<in> {user, nice, system, idl, iowait, irq, softirq, steal}. n < 2 ^ 64"
    and "label \<noteq> []" and "\<forall>c \<in> set label. \<not> isspace c" and "ends_token rest"
  shows "read_cpu_sample (ProcStat (Some (label @
        numbers [user, nice, system, idl, iowait, irq, softirq, steal] @ rest))) =
    \<lparr>idle = word_of_nat (idl + iowait),
     cpu_total = word_of_nat (user + nice + system + idl + iowait + irq + softirq + steal)\<rparr>"
proof -
  let ?ns = "[user, nice, system, idl, iowait, irq, softirq, steal]"
  have "extract_word [] \<lparr>unread = [] @ label @ numbers ?ns @ rest, good = True\<rparr> =
      (label, \<lparr>unread = numbers ?ns @ rest, good = True\<rparr>)"
    using assms by (intro extract_word_token) simp_all
  moreover have "extract_u64s 8 \<lparr>unread = numbers ?ns @ rest, good = True\<rparr> =
      (map word_of_nat ?ns, \<lparr>unread = rest, good = True\<rparr>)"
    using assms by (intro extract_u64s_list) simp_all
  ultimately show ?thesis by (simp add: open_file_def)
qed

subsection \<open>/proc/meminfo\<close>

text \<open>Entries of the file: a key with its colon, a number of kilobytes and the unit.\<close>

definition meminfo_line :: "cpp_string \<times> nat \<Rightarrow> cpp_string" where
  "meminfo_line e = fst e @ '' '' @ nat_to_string (snd e) @ '' kB'' @ [CHR_nl]"

definition meminfo_text :: "(cpp_string \<times> nat) list \<Rightarrow> cpp_string" where
  "meminfo_text es = concat (map meminfo_line es)"

definition meminfo_entry :: "cpp_string \<times> nat \<Rightarrow> bool" where
  "meminfo_entry e \<longleftrightarrow> fst e \<noteq> [] \<and> (\<forall>c \<in> set (fst e). \<not> isspace c) \<and> snd e < 2 ^ 63"

lemma read_meminfo_end: "read_meminfo \<lparr>unread = [CHR_nl], good = True\<rparr> t a = (t, a)"
  by (simp add: read_meminfo.simps [of _ t a] extract_word_def extract_i64_def skip_ws_def Let_def)

lemma read_meminfo_start: "read_meminfo \<lparr>unread = [], good = True\<rparr> t a = (t, a)"
  by (simp add: read_meminfo.simps [of _ t a] extract_word_def extract_i64_def skip_ws_def Let_def)

text \<open>The loop after its first line is at the newline that ends it.\<close>

lemma read_meminfo_line:
  assumes "meminfo_entry (k, n)" and "sp = [] \<or> sp = [CHR_nl]" 
  shows "read_meminfo \<lparr>unread = sp @ k @ '' '' @ nat_to_string n @ '' kB'' @ CHR_nl # rest, good = True\<rparr> t a =
    (let t' = (if k = ''MemTotal:'' then int n else t);
         a' = (if k \<noteq> ''MemTotal:'' \<and> k = ''MemAvailable:'' then int n else a)
     in if t' > 0 \<and> a' > 0 then (t', a')
        else read_meminfo \<lparr>unread = CHR_nl # rest, good = True\<rparr> t' a')"
proof -
  have key: "extract_word [] \<lparr>unread = sp @ k @ ('' '' @ nat_to_string n @ '' kB'' @ CHR_nl # rest), good = True\<rparr> =
      (k, \<lparr>unread = '' '' @ nat_to_string n @ '' kB'' @ CHR_nl # rest, good = True\<rparr>)"
    using assms by (intro extract_word_token) (auto simp: meminfo_entry_def)
  have num: "extract_i64 0 \<lparr>unread = '' '' @ nat_to_string n @ ('' kB'' @ CHR_nl # rest), good = True\<rparr> =
      (int n, \<lparr>unread = '' kB'' @ CHR_nl # rest, good = True\<rparr>)"
    using assms by (intro extract_i64_number) (simp_all add: meminfo_entry_def)
  have unit: "extract_word [] \<lparr>unread = '' '' @ ''kB'' @ (CHR_nl # rest), good = True\<rparr> =
      (''kB'', \<lparr>unread = CHR_nl # rest, good = True\<rparr>)"
    by (rule extract_word_token) (simp_all add: isspace_def spaces_def)
  show ?thesis
    by (subst read_meminfo.simps) (use key num unit in \<open>simp add: Let_def\<close>)
qed

definition pending_key :: "cpp_string \<Rightarrow> nat \<Rightarrow> int \<Rightarrow> (cpp_string \<times> nat) list \<Rightarrow> bool" where
  "pending_key k v current es \<longleftrightarrow>
     map_of es k = Some v \<and> current = 0 \<or> map_of es k = None \<and> current = int v"

lemma pending_key_step:
  assumes "pending_key k v current ((k', n) # es)" and "distinct (map fst ((k', n) # es))"
  shows "pending_key k v (if k' = k then int n else current) es"
proof -
  have "map_of es k' = None" using assms(2) by (simp add: map_of_eq_None_iff)
  then show ?thesis using assms(1) by (auto simp: pending_key_def)
qed

lemma read_meminfo_entries:
  assumes "\<forall>e \<in> set es. meminfo_entry e" and "distinct (map fst es)" and "0 < T" and "0 < A"
    and "pending_key ''MemTotal:'' T t es" and "pending_key ''MemAvailable:'' A a es"
    and "\<not> (0 < t \<and> 0 < a)" and "sp = [] \<or> sp = [CHR_nl]"
  shows "read_meminfo \<lparr>unread = sp @ meminfo_text es @ tail, good = True\<rparr> t a = (int T, int A)"
  using assms
proof (induction es arbitrary: t a sp)
  case Nil
  then show ?case by (auto simp: pending_key_def)
next
  case (Cons e es)
  obtain k n where e: "e = (k, n)" by (cases e)
  let ?t = "if k = ''MemTotal:'' then int n else t"
  let ?a = "if k \<noteq> ''MemTotal:'' \<and> k = ''MemAvailable:'' then int n else a"
  have line: "read_meminfo \<lparr>unread = sp @ meminfo_text (e # es) @ tail, good = True\<rparr> t a =
      (if ?t > 0 \<and> ?a > 0 then (?t, ?a)
       else read_meminfo \<lparr>unread = [CHR_nl] @ meminfo_text es @ tail, good = True\<rparr> ?t ?a)"
    using read_meminfo_line [of k n sp "meminfo_text es @ tail" t a] Cons.prems(1,8)
    by (simp add: e meminfo_text_def meminfo_line_def Let_def)
  have pt: "pending_key ''MemTotal:'' T ?t es" and "pending_key ''MemAvailable:'' A (if k = ''MemAvailable:'' then int n else a) es"
    using pending_key_step [of _ _ _ k n es] Cons.prems(2,5,6) by (simp_all add: e)
  moreover have "?a = (if k = ''MemAvailable:'' then int n else a)" by simp
  ultimately have pa: "pending_key ''MemAvailable:'' A ?a es" by simp
  show ?case
  proof (cases "?t > 0 \<and> ?a > 0")
    case True
    then have "?t = int T" "?a = int A" using pt pa by (auto simp: pending_key_def)
    then show ?thesis using True line by simp
  next
    case False
    have "read_meminfo \<lparr>unread = [CHR_nl] @ meminfo_text es @ tail, good = True\<rparr> ?t ?a = (int T, int A)"
      by (rule Cons.IH) (use Cons.prems pt pa False in simp_all)
    then show ?thesis by (simp only: line if_not_P [OF False])
  qed
qed

lemma memory_usage_meminfo_range:
  assumes "\<forall>e \<in> set es. meminfo_entry e" and "distinct (map fst es)"
    and "map_of es ''MemTotal:'' = Some T" and "map_of es ''MemAvailable:'' = Some A"
    and "0 < A" and "A \<le> T" and "100 * T \<le> 2 ^ 53"
    and "memory_usage (ProcMeminfo (Some (meminfo_text es @ tail))) = (used_mb, total_mb, percent)"
  shows "total_mb = int (T div 1024) \<and> used_mb = int ((T - A) div 1024) \<and>
    val percent = rnd (100 * real (T - A) / real T) \<and> percentage percent"
proof -
  have "read_meminfo \<lparr>unread = [] @ meminfo_text es @ tail, good = True\<rparr> 0 0 = (int T, int A)"
    using assms(1-6) by (intro read_meminfo_entries) (simp_all add: pending_key_def)
  then have usage: "(used_mb, total_mb, percent) = kb_usage (int T) (int A)"
    using assms(8) by (simp add: linux_memory_def open_file_def)
  have diff: "int T - int A = int (T - A)" using assms(6) by simp
  have td: "tdiv (int n) 1024 = int (n div 1024)" for n
    by (cases "n = 0") (simp_all add: tdiv_def zdiv_int)
  have dbl: "dbl_of_int (int n) = dbl_of_nat n" for n by (simp add: dbl_of_int_def dbl_of_nat_def)
  have "0 < T" using assms(5,6) by simp
  note exact = dbl_percent_exact [OF this diff_le_self [of T A] assms(7)]
  have "percent = dbl_percent (dbl_of_nat (T - A)) (dbl_of_nat T)"
      "total_mb = int (T div 1024)" "used_mb = int ((T - A) div 1024)"
    using usage \<open>0 < T\<close> unfolding kb_usage_def Let_def diff td dbl by simp_all
  then show ?thesis
    using denotes_val [OF exact(1)] denotes_percentage [OF exact] by simp
qed

text \<open>
  From \<^verbatim>\<open>/proc/meminfo\<close> the sampler takes \<open>MemTotal\<close> and \<open>MemAvailable\<close> wherever
  they stand among the entries and whatever follows: total and used megabytes are the kilobytes
  divided by 1024, the percentage is the correctly rounded used share and lies between 0 and 100.
\<close>

lemma memory_usage_meminfo:
  assumes "\<forall>e \<in> set es. meminfo_entry e" and "distinct (map fst es)"
    and "map_of es ''MemTotal:'' = Some T" and "map_of es ''MemAvailable:'' = Some A"
    and "0 < A" and "A \<le> T" and "100 * T \<le> 2 ^ 53"
    and "memory_usage (ProcMeminfo (Some (meminfo_text es @ tail))) = (used_mb, total_mb, percent)"
  shows "total_mb = int (T div 1024) \<and> used_mb = int ((T - A) div 1024) \<and>
    val percent = rnd (100 * real (T - A) / real T) \<and> percentage percent"
  using assms by (rule memory_usage_meminfo_range)

subsection \<open>/proc/net/dev\<close>

text \<open>An interface: its name, right-aligned, and its sixteen counters.\<close>

definition dev_line :: "cpp_string \<times> nat list \<Rightarrow> cpp_string" where
  "dev_line e = ''  '' @ fst e @ '':'' @ numbers (snd e)"

definition dev_entry :: "cpp_string \<times> nat list \<Rightarrow> bool" where
  "dev_entry e \<longleftrightarrow> fst e \<noteq> [] \<and> (\<forall>c \<in> set (fst e). \<not> isspace c \<and> c \<noteq> CHR '':'') \<and>
     length (snd e) = 16 \<and> (\<forall>n \<in> set (snd e). n < 2 ^ 64)"

lemma getlines_line: "CHR_nl \<notin> set l \<Longrightarrow> getlines (l @ CHR_nl # t) = l # getlines t"
  by (induction l) auto

lemma getlines_lines:
  "\<forall>l \<in> set ls. CHR_nl \<notin> set l \<Longrightarrow> getlines (concat (map (\<lambda>l. l @ [CHR_nl]) ls)) = ls"
  by (induction ls) (simp_all add: getlines_line)

lemma count_lines_body: "2 \<le> k \<Longrightarrow> count_lines k ls s = fold count_line ls s"
  by (induction ls arbitrary: k s) simp_all

lemma numbers_one_line: "CHR_nl \<notin> set (numbers ns)"
  using one_line_nat_to_string by (auto simp: numbers_def one_line_def)

lemma dev_line_one_line: "dev_entry e \<Longrightarrow> CHR_nl \<notin> set (dev_line e)"
  using isspace_blank(2) numbers_one_line [of "snd e"]
  unfolding dev_line_def dev_entry_def set_append Un_iff by fastforce

lemma count_dev_line:
  assumes "dev_entry (name, ns)"
  shows "count_line (dev_line (name, ns)) s =
    (if name = ''lo'' then s else add_bytes (word_of_nat (ns ! 0)) (word_of_nat (ns ! 8)) s)"
proof -
  have colon: "CHR '':'' \<notin> set (''  '' @ name)" using assms by (auto simp: dev_entry_def)
  have name: "trim (''  '' @ name) = name"
    using assms trim_eqI [of "''  ''" "[]" name] by (simp add: dev_entry_def)
  have "extract_u64s 16 \<lparr>unread = numbers ns @ [], good = True\<rparr> =
      (map word_of_nat ns, \<lparr>unread = [], good = True\<rparr>)"
    using assms by (intro extract_u64s_list) (simp_all add: dev_entry_def)
  then have vals: "fst (extract_u64s 16 \<lparr>unread = numbers ns, good = True\<rparr>) = map word_of_nat ns" by simp
  have line: "dev_line (name, ns) = (''  '' @ name) @ CHR '':'' # numbers ns" by (simp add: dev_line_def)
  have "length ns = 16" using assms by (simp add: dev_entry_def)
  then show ?thesis
    unfolding count_line_def line until_append [OF colon] name Let_def by (simp add: vals)
qed

lemma fold_add_bytes:
  "fold (\<lambda>e. add_bytes (f e) (g e)) es s =
     \<lparr>rx_bytes = rx_bytes s + sum_list (map f es), tx_bytes = tx_bytes s + sum_list (map g es)\<rparr>"
  by (induction es arbitrary: s) (simp_all add: add_bytes_def add.assoc)

lemma fold_count_dev_lines:
  "\<forall>e \<in> set es. dev_entry e \<Longrightarrow> fold count_line (map dev_line es) s =
     fold (\<lambda>e. add_bytes (word_of_nat (snd e ! 0)) (word_of_nat (snd e ! 8)))
       (filter (\<lambda>e. fst e \<noteq> ''lo'') es) s"
  by (induction es arbitrary: s) (auto simp: count_dev_line)

text \<open>
  C31: From \<^verbatim>\<open>/proc/net/dev\<close> the sampler adds up, modulo \<open>2\<^bsup>64\<^esup>\<close>, the bytes
  received (first column) and sent (ninth column) of every interface except the loopback
  interface; the two header lines are skipped.
\<close>

theorem read_net_sample_proc_net_dev:
  assumes "CHR_nl \<notin> set header1" and "CHR_nl \<notin> set header2" and "\<forall>e \<in> set es. dev_entry e"
    and "contents = concat (map (\<lambda>l. l @ [CHR_nl]) (header1 # header2 # map dev_line es))"
  shows "read_net_sample (ProcNetDev (Some contents)) =
    \<lparr>rx_bytes = sum_list (map (\<lambda>e. word_of_nat (snd e ! 0)) (filter (\<lambda>e. fst e \<noteq> ''lo'') es)),
     tx_bytes = sum_list (map (\<lambda>e. word_of_nat (snd e ! 8)) (filter (\<lambda>e. fst e \<noteq> ''lo'') es))\<rparr>"
proof -
  have "getlines contents = header1 # header2 # map dev_line es"
    unfolding assms(4) using assms(1,2,3) dev_line_one_line by (intro getlines_lines) auto
  moreover have "count_lines 0 (header1 # header2 # map dev_line es) no_net = fold count_line (map dev_line es) no_net"
    by (simp add: count_lines_body)
  ultimately show ?thesis
    by (simp add: fold_count_dev_lines [OF assms(3)] fold_add_bytes no_net_def)
qed

section \<open>Rates\<close>

lemma net_rate_difference:
  assumes "current = previous + word_of_nat bytes" and "bytes \<le> 2 ^ 53"
    and "denotes elapsed seconds" and "1 \<le> 1000000000 * seconds"
  shows "denotes (net_rate previous current elapsed) (rnd (rnd (real bytes / 1024) / seconds))"
    and "rnd (real bytes / 1024) \<le> 2 ^ 43"
proof -
  have "current - previous = word_of_nat bytes" using assms(1) by simp
  moreover have "unat (word_of_nat bytes :: 64 word) = bytes"
    using assms(2) by (simp add: unsigned_of_nat take_bit_nat_eq_self)
  ultimately have delta: "denotes (dbl_of_word (current - previous)) (real bytes)"
    using denotes_of_nat_exact [OF assms(2)] by (simp add: dbl_of_word_def)
  have kb: "real bytes / 1024 \<le> real (2 ^ 43)" using assms(2) of_nat_mono [OF assms(2), where 'a = real] by simp
  then have kilo: "denotes (dbl_div (dbl_of_word (current - previous)) (dbl_of_nat 1024)) (rnd (real bytes / 1024))"
    using denotes_div [OF delta denotes_of_nat_exact [of 1024] _ in_rangeI [of _ 43]] by simp
  have "rnd (real bytes / 1024) \<le> rnd (real (2 ^ 43))" using kb by (intro rnd_mono) simp_all
  also have "\<dots> = real (2 ^ 43)" by (rule rnd_fixes_grid [OF nat_in_grid]) simp
  finally have top: "rnd (real bytes / 1024) \<le> 2 ^ 43" by simp
  have pos: "0 < seconds" using assms(4) by simp
  have "0 \<le> rnd (real bytes / 1024)" using denotes_val [OF kilo] by simp
  have "rnd (real bytes / 1024) / seconds \<le> 2 ^ 43 * 1000000000"
  proof -
    have "rnd (real bytes / 1024) \<le> 2 ^ 43 * 1" using top by simp
    also have "\<dots> \<le> 2 ^ 43 * (1000000000 * seconds)" using assms(4) by (intro mult_left_mono) simp_all
    finally show ?thesis using pos by (simp add: divide_le_eq)
  qed
  also have "\<dots> \<le> real (2 ^ 73)" by simp
  finally have "in_range (rnd (real bytes / 1024) / seconds)" by (rule in_rangeI) simp
  then show "denotes (net_rate previous current elapsed) (rnd (rnd (real bytes / 1024) / seconds))"
    unfolding net_rate_def by (rule denotes_div [OF kilo assms(3) pos])
  show "rnd (real bytes / 1024) \<le> 2 ^ 43" by (rule top)
qed

text \<open>
  The network rate is the number of bytes since the previous report, in kilobytes per second,
  rounded at each of the three steps; it is right across a wrap-around of the 64-bit counter,
  because the difference is taken modulo \<open>2\<^bsup>64\<^esup>\<close>.
\<close>

lemma net_rate_wraps:
  assumes "current = previous + word_of_nat bytes" and "bytes \<le> 2 ^ 53"
    and "denotes elapsed seconds" and "1 \<le> 1000000000 * seconds"
  shows "denotes (net_rate previous current elapsed) (rnd (rnd (real bytes / 1024) / seconds))"
  using assms by (rule net_rate_difference)

section \<open>A whole report\<close>

lemma net_rate_bound:
  assumes "unat (current - previous) \<le> 2 ^ 53" and "denotes elapsed seconds" and "1 \<le> seconds"
  shows "is_finite (net_rate previous current elapsed) \<and> 0 \<le> val (net_rate previous current elapsed) \<and>
    val (net_rate previous current elapsed) \<le> 2 ^ 43"
proof -
  let ?bytes = "unat (current - previous)" and ?kb = "rnd (real (unat (current - previous)) / 1024)"
  have "current = previous + word_of_nat ?bytes" by simp
  note rate = net_rate_difference [OF this assms(1,2)]
  have "?kb / seconds \<le> ?kb / 1" using assms(3) by (intro divide_left_mono rnd_nonneg) simp_all
  then have "rnd (?kb / seconds) \<le> rnd (real (2 ^ 43))"
    using rate(2) assms(3) rnd_nonneg by (intro rnd_mono) simp_all
  also have "\<dots> = real (2 ^ 43)" by (rule rnd_fixes_grid [OF nat_in_grid]) simp
  finally show ?thesis using denotes_val [OF rate(1)] assms(3) by simp
qed

text \<open>What must hold of two successive samples and of the disk for the shares to be shares.\<close>

definition plausible_cpu :: "CpuSample \<Rightarrow> CpuSample \<Rightarrow> bool" where
  "plausible_cpu previous current \<longleftrightarrow>
     idle current - idle previous \<le> cpu_total current - cpu_total previous \<and>
     100 * unat (cpu_total current - cpu_total previous) \<le> 2 ^ 53"

definition plausible_disk :: "statvfs \<Rightarrow> bool" where
  "plausible_disk st \<longleftrightarrow>
     unat (f_bavail st) \<le> unat (f_blocks st) \<and>
     100 * (unat (f_blocks st) * unat (f_frsize st)) \<le> 2 ^ 53"

lemma cpu_load_range:
  assumes "plausible_cpu previous current"
  shows "percentage (cpu_load previous current)"
proof (cases "cpu_total previous \<noteq> 0 \<and> cpu_total current - cpu_total previous > 0")
  case True
  let ?t = "cpu_total current - cpu_total previous" and ?i = "idle current - idle previous"
  have le: "?i \<le> ?t" "100 * unat ?t \<le> 2 ^ 53" using assms by (simp_all add: plausible_cpu_def)
  have busy: "unat (?t - ?i) \<le> unat ?t" using le(1) by (simp add: unat_sub)
  have "0 < unat ?t" using True by (simp add: word_less_nat_alt)
  note exact = dbl_percent_exact [OF this busy le(2)]
  show ?thesis
    using denotes_percentage [OF exact] True by (simp add: cpu_load_def Let_def dbl_of_word_def)
qed (auto simp: cpu_load_def Let_def)

lemma statvfs_bytes:
  assumes "plausible_disk st"
  shows "unat (f_blocks st * f_frsize st) = unat (f_blocks st) * unat (f_frsize st)"
    and "unat (f_bavail st * f_frsize st) = unat (f_bavail st) * unat (f_frsize st)"
    and "unat (f_bavail st) * unat (f_frsize st) \<le> unat (f_blocks st) * unat (f_frsize st)"
proof -
  show le: "unat (f_bavail st) * unat (f_frsize st) \<le> unat (f_blocks st) * unat (f_frsize st)"
    using assms by (simp add: plausible_disk_def)
  have small: "unat (f_blocks st) * unat (f_frsize st) < 2 ^ LENGTH(64)"
    using assms by (simp add: plausible_disk_def)
  show "unat (f_blocks st * f_frsize st) = unat (f_blocks st) * unat (f_frsize st)"
    unfolding unat_word_ariths using small by simp
  show "unat (f_bavail st * f_frsize st) = unat (f_bavail st) * unat (f_frsize st)"
    unfolding unat_word_ariths using le_less_trans [OF le small] by simp
qed

lemma disk_usage_range:
  assumes "plausible_disk st" and "disk_usage (Statvfs (Some st)) = (used_mb, total_mb, percent)"
  shows "percentage percent"
proof (cases "f_blocks st * f_frsize st > 0")
  case True
  note bytes = statvfs_bytes [OF assms(1)]
  let ?total = "f_blocks st * f_frsize st" and ?avail = "f_bavail st * f_frsize st"
  have "?avail \<le> ?total" using bytes by (simp add: word_le_nat_alt)
  then have used: "unat (?total - ?avail) \<le> unat ?total" by (simp add: unat_sub)
  have "0 < unat ?total" using True by (simp add: word_less_nat_alt)
  moreover have "100 * unat ?total \<le> 2 ^ 53" using assms(1) by (simp add: plausible_disk_def bytes)
  ultimately have "percentage (dbl_percent (dbl_of_word (?total - ?avail)) (dbl_of_word ?total))"
    using denotes_percentage [OF dbl_percent_exact [OF _ used]] by (simp add: dbl_of_word_def)
  then show ?thesis using assms(2) True by (simp add: statvfs_disk_def byte_usage_def Let_def)
next
  case False
  then show ?thesis using assms(2) by (auto simp: statvfs_disk_def byte_usage_def Let_def)
qed

lemma collect_linux:
  assumes "probe_mem p = ProcMeminfo (Some (meminfo_text es @ tail))"
    and "\<forall>e \<in> set es. meminfo_entry e" and "distinct (map fst es)"
    and "map_of es ''MemTotal:'' = Some T" and "map_of es ''MemAvailable:'' = Some A"
    and "0 < A" and "A \<le> T" and "100 * T \<le> 2 ^ 53"
    and "probe_disk p = Statvfs (Some st)" and "plausible_disk st"
    and "plausible_cpu previous_cpu (read_cpu_sample (probe_cpu p))"
    and "collect_metrics host now p previous_cpu previous_net elapsed = (metric, cpu, net)"
  shows "ms_host metric = host" and "ms_timestamp metric = iso_timestamp now"
    and "cpu = read_cpu_sample (probe_cpu p)" and "net = read_net_sample (probe_net p)"
    and "memory_total_mb metric = int (T div 1024)" and "memory_used_mb metric = int ((T - A) div 1024)"
    and "disk_used_mb metric = megabytes ((f_blocks st - f_bavail st) * f_frsize st)"
    and "disk_total_mb metric = megabytes (f_blocks st * f_frsize st)"
    and "percentage (cpu_percent metric)" and "percentage (memory_percent metric)" and "percentage (disk_percent metric)"
    and "network_rx_kbps metric \<in> {dbl_zero, net_rate (rx_bytes previous_net) (rx_bytes net) elapsed}"
    and "network_tx_kbps metric \<in> {dbl_zero, net_rate (tx_bytes previous_net) (tx_bytes net) elapsed}"
proof -
  obtain mu mt mp where mem: "memory_usage (ProcMeminfo (Some (meminfo_text es @ tail))) = (mu, mt, mp)"
    by (metis prod_cases3)
  obtain du dt dp where disk: "disk_usage (Statvfs (Some st)) = (du, dt, dp)"
    by (metis prod_cases3)
  have fields: "memory_total_mb metric = mt" "memory_used_mb metric = mu" "memory_percent metric = mp"
      "disk_used_mb metric = du" "disk_total_mb metric = dt" "disk_percent metric = dp"
      "cpu_percent metric = cpu_load previous_cpu (read_cpu_sample (probe_cpu p))"
    using assms(12) unfolding collect_metrics_def assms(1,9) mem disk Let_def by auto
  show "ms_host metric = host" "ms_timestamp metric = iso_timestamp now"
      "cpu = read_cpu_sample (probe_cpu p)" "net = read_net_sample (probe_net p)"
      "network_rx_kbps metric \<in> {dbl_zero, net_rate (rx_bytes previous_net) (rx_bytes net) elapsed}"
      "network_tx_kbps metric \<in> {dbl_zero, net_rate (tx_bytes previous_net) (tx_bytes net) elapsed}"
    using assms(12) unfolding collect_metrics_def assms(1,9) mem disk Let_def by auto
  show "memory_total_mb metric = int (T div 1024)" "memory_used_mb metric = int ((T - A) div 1024)"
      "percentage (memory_percent metric)"
    using memory_usage_meminfo_range [OF assms(2-8) mem] by (simp_all add: fields)
  show "disk_used_mb metric = megabytes ((f_blocks st - f_bavail st) * f_frsize st)"
      "disk_total_mb metric = megabytes (f_blocks st * f_frsize st)"
    using disk by (auto simp: fields statvfs_disk_def byte_usage_def Let_def left_diff_distrib)
  show "percentage (disk_percent metric)" using disk_usage_range [OF assms(10) disk] by (simp add: fields)
  show "percentage (cpu_percent metric)" using cpu_load_range [OF assms(11)] by (simp add: fields)
qed

text \<open>
  C29: A report of a Linux agent carries the agent's name and the time of the call, its three
  percentages lie between 0 and 100, its memory and disk figures are those of the kernel in megabytes, and the samples
  it was computed from become the previous samples of the next report.
\<close>

theorem collect_metrics_linux:
  assumes "probe_mem p = ProcMeminfo (Some (meminfo_text es @ tail))"
    and "\<forall>e \<in> set es. meminfo_entry e" and "distinct (map fst es)"
    and "map_of es ''MemTotal:'' = Some T" and "map_of es ''MemAvailable:'' = Some A"
    and "0 < A" and "A \<le> T" and "100 * T \<le> 2 ^ 53"
    and "probe_disk p = Statvfs (Some st)" and "plausible_disk st"
    and "plausible_cpu previous_cpu (read_cpu_sample (probe_cpu p))"
    and "collect_metrics host now p previous_cpu previous_net elapsed = (metric, cpu, net)"
  shows "ms_host metric = host \<and> ms_timestamp metric = iso_timestamp now \<and>
    cpu = read_cpu_sample (probe_cpu p) \<and> net = read_net_sample (probe_net p) \<and>
    memory_total_mb metric = int (T div 1024) \<and> memory_used_mb metric = int ((T - A) div 1024) \<and>
    disk_total_mb metric = int (unat (f_blocks st) * unat (f_frsize st) div 2 ^ 20) \<and>
    disk_used_mb metric = int ((unat (f_blocks st) - unat (f_bavail st)) * unat (f_frsize st) div 2 ^ 20) \<and>
    (\<forall>x \<in> {cpu_percent metric, memory_percent metric, disk_percent metric}. percentage x)"
proof -
  note facts = collect_linux [OF assms]
  have "(f_blocks st - f_bavail st) * f_frsize st = f_blocks st * f_frsize st - f_bavail st * f_frsize st"
    by (rule left_diff_distrib)
  then have used: "unat ((f_blocks st - f_bavail st) * f_frsize st) =
      (unat (f_blocks st) - unat (f_bavail st)) * unat (f_frsize st)"
    using statvfs_bytes [OF assms(10)] by (simp add: unat_sub word_le_nat_alt diff_mult_distrib)
  have mb: "megabytes w = int (unat w div 2 ^ 20)" for w
    by (simp add: megabytes_def uint_nat unat_div)
  show ?thesis
    using facts(1-6,9-11) unfolding facts(7,8) mb used statvfs_bytes(1) [OF assms(10)] by simp
qed

section \<open>Examples\<close>

theorem cpu_load_percent_example:
  "val (cpu_load \<lparr>idle = - 1, cpu_total = 900\<rparr> \<lparr>idle = 2, cpu_total = 912\<rparr>) = rnd (100 * real (12 - 3) / real 12) \<and>
   percentage (cpu_load \<lparr>idle = - 1, cpu_total = 900\<rparr> \<lparr>idle = 2, cpu_total = 912\<rparr>)"
  using cpu_load_percent [of "\<lparr>idle = - 1, cpu_total = 900\<rparr>" 12 "\<lparr>idle = 2, cpu_total = 912\<rparr>" 3] by simp

lemma byte_usage_percent_example:
  "\<exists>percent. byte_usage 3145728 8388608 = (3, 8, percent) \<and> percentage percent"
proof -
  obtain u t percent where b: "byte_usage 3145728 8388608 = (u, t, percent)" by (metis prod_cases3)
  have "u = 3 \<and> t = 8 \<and> percentage percent"
    using byte_usage_percent [OF _ _ _ b] by (simp add: word_le_nat_alt word_less_nat_alt)
  then show ?thesis using b by simp
qed

lemma read_cpu_sample_proc_stat_example:
  "read_cpu_sample (ProcStat (Some (''cpu'' @ numbers [10, 20, 30, 400, 5, 6, 7, 8] @ '' 0 0'' @ [CHR_nl]))) =
     \<lparr>idle = word_of_nat (400 + 5), cpu_total = word_of_nat (10 + 20 + 30 + 400 + 5 + 6 + 7 + 8)\<rparr>"
proof -
  have label: "\<forall>c \<in> set ''cpu''. \<not> isspace c" by (simp add: isspace_def spaces_def)
  show ?thesis by (rule read_cpu_sample_proc_stat) (use label in simp_all)
qed

definition sample_meminfo :: "(cpp_string \<times> nat) list" where
  "sample_meminfo = [(''MemTotal:'', 16384), (''MemFree:'', 1024), (''MemAvailable:'', 4096)]"

lemma sample_meminfo_facts:
  "\<forall>e \<in> set sample_meminfo. meminfo_entry e" "distinct (map fst sample_meminfo)"
  "map_of sample_meminfo ''MemTotal:'' = Some 16384" "map_of sample_meminfo ''MemAvailable:'' = Some 4096"
  by (simp_all add: sample_meminfo_def meminfo_entry_def isspace_def spaces_def)

lemma memory_usage_meminfo_example:
  "\<exists>percent. memory_usage (ProcMeminfo (Some (meminfo_text sample_meminfo @ ''Buffers: ''))) = (12, 16, percent) \<and>
     percentage percent"
proof -
  obtain u t percent where m: "memory_usage (ProcMeminfo (Some (meminfo_text sample_meminfo @ ''Buffers: ''))) =
      (u, t, percent)"
    by (metis prod_cases3)
  have "u = 12 \<and> t = 16 \<and> percentage percent"
    using memory_usage_meminfo [OF sample_meminfo_facts _ _ _ m] by simp
  then show ?thesis using m by simp
qed

definition sample_net_dev :: "(cpp_string \<times> nat list) list" where
  "sample_net_dev = [(''lo'', replicate 16 9), (''eth0'', replicate 8 1500 @ replicate 8 700)]"

lemma sample_net_dev_entries: "\<forall>e \<in> set sample_net_dev. dev_entry e"
  by (simp add: sample_net_dev_def dev_entry_def isspace_def spaces_def)

theorem read_net_sample_proc_net_dev_example:
  "read_net_sample (ProcNetDev (Some (concat (map (\<lambda>l. l @ [CHR_nl])
     (''Inter'' # '' face'' # map dev_line sample_net_dev))))) = \<lparr>rx_bytes = 1500, tx_bytes = 700\<rparr>"
  using read_net_sample_proc_net_dev [of "''Inter''" "'' face''" sample_net_dev, OF _ _ sample_net_dev_entries refl]
  by (simp add: sample_net_dev_def nth_append)

lemma net_rate_wraps_example:
  "denotes (net_rate (- 1000) 1048 (dbl_of_nat 2)) (rnd (rnd (real 2048 / 1024) / 2))"
  using net_rate_wraps [of 1048 "- 1000" 2048 "dbl_of_nat 2" 2] denotes_of_nat_exact [of 2] by simp

definition sample_probe :: probe where
  "sample_probe = \<lparr>probe_cpu = ProcStat None, probe_mem = ProcMeminfo (Some (meminfo_text sample_meminfo @ [])),
     probe_disk = Statvfs (Some \<lparr>f_blocks = 1000, f_bavail = 250, f_frsize = 4096\<rparr>),
     probe_net = ProcNetDev None\<rparr>"

theorem collect_metrics_linux_example:
  "\<exists>metric cpu net. collect_metrics ''web1'' 0 sample_probe no_cpu no_net (dbl_of_nat 5) = (metric, cpu, net) \<and>
     memory_total_mb metric = 16 \<and> percentage (memory_percent metric)"
proof -
  obtain metric cpu net where c:
      "collect_metrics ''web1'' 0 sample_probe no_cpu no_net (dbl_of_nat 5) = (metric, cpu, net)"
    by (metis prod_cases3)
  have "read_cpu_sample (ProcStat None) = no_cpu"
    by (simp add: open_file_def extract_word_def skip_ws_def extract_u64_def numeral_eq_Suc no_cpu_def)
  then have "plausible_cpu no_cpu (read_cpu_sample (probe_cpu sample_probe))"
    by (simp add: sample_probe_def plausible_cpu_def no_cpu_def)
  then have "memory_total_mb metric = 16 \<and> percentage (memory_percent metric)"
    using collect_metrics_linux [OF _ sample_meminfo_facts _ _ _ _ _ _ c]
    by (simp add: sample_probe_def plausible_disk_def)
  then show ?thesis using c by blast
qed

end
