(* ===== verification/Agent_Counters.thy ===== *)
theory Agent_Counters
  imports Agent_Metrics
begin

text \<open>
  The network rate of an agent on Windows and macOS, where the system counts the bytes of an interface in
  32 bits, when such a counter restarts.
\<close>

section \<open>The counters behind a sample\<close>

text \<open>The 32-bit counters of bytes received that Windows and macOS give for the interfaces that are counted.\<close>

definition link_data :: "ifaddrs \<Rightarrow> (32 word \<times> 32 word) option" where
  "link_data entry =
     (if ifa_family entry = Some AF_LINK \<and> \<not> bit (ifa_flags entry) IFF_LOOPBACK then ifa_data entry else None)"

fun in_counters :: "net_source \<Rightarrow> 32 word list option" where
  "in_counters (GetIfTable (Some table)) =
     Some (map dwInOctets (filter (\<lambda>row. dwType row \<noteq> IF_TYPE_SOFTWARE_LOOPBACK) table))"
| "in_counters (Getifaddrs (Some interfaces)) = Some (map fst (List.map_filter link_data interfaces))"
| "in_counters _ = None"

lemma rx_bytes_counters:
  assumes "in_counters src = Some cs"
  shows "rx_bytes (read_net_sample src) = sum_list (map ucast cs)"
  using assms
proof (cases src rule: in_counters.cases)
  case (1 table)
  have "rx_bytes (fold count_row table s) =
      rx_bytes s + sum_list (map (\<lambda>row. ucast (dwInOctets row)) (filter (\<lambda>row. dwType row \<noteq> IF_TYPE_SOFTWARE_LOOPBACK) table))" for s
    by (induction table arbitrary: s) (simp_all add: count_row_def add_bytes_def add.assoc)
  then show ?thesis using assms 1 by (auto simp: no_net_def comp_def)
next
  case (2 interfaces)
  have "rx_bytes (count_entry entry s) = rx_bytes s + (case link_data entry of Some d \<Rightarrow> ucast (fst d) | None \<Rightarrow> 0)" for entry s
    by (auto simp: count_entry_def link_data_def add_bytes_def split: option.split)
  then have "rx_bytes (fold count_entry interfaces s) =
      rx_bytes s + sum_list (map (ucast \<circ> fst) (List.map_filter link_data interfaces))" for s
    by (induction interfaces arbitrary: s) (simp_all add: map_filter_simps add.assoc split: option.split)
  then show ?thesis using assms 2 by (auto simp: no_net_def)
qed simp_all

section \<open>Restarts\<close>

text \<open>How often a counter that is at \<open>p\<close> restarts while it counts \<open>n\<close> bytes.\<close>

definition restarts :: "32 word \<Rightarrow> nat \<Rightarrow> nat" where
  "restarts p n = (unat p + n) div 2 ^ 32"

lemma widened_counter:
  "(ucast (p + word_of_nat n) :: 64 word) = ucast p + word_of_nat n - word_of_nat (2 ^ 32 * restarts p n)"
proof -
  have "unat (p + word_of_nat n) = (unat p + n) mod 2 ^ 32"
    by (simp add: unat_word_ariths unsigned_of_nat take_bit_eq_mod mod_simps)
  then have "unat (p + word_of_nat n) + 2 ^ 32 * restarts p n = unat p + n"
    unfolding restarts_def by (metis mod_mult_div_eq mult.commute)
  then have "(word_of_nat (unat (p + word_of_nat n)) :: 64 word) + word_of_nat (2 ^ 32 * restarts p n) = word_of_nat (unat p) + word_of_nat n"
    by (metis of_nat_add)
  then show ?thesis by (simp add: unsigned_def [symmetric] eq_diff_eq)
qed

lemma widened_sum:
  "length ns = length ps \<Longrightarrow> (sum_list (map ucast (map2 (\<lambda>p n. p + word_of_nat n) ps ns)) :: 64 word) =
     sum_list (map ucast ps) + word_of_nat (sum_list ns) - word_of_nat (2 ^ 32 * sum_list (map2 restarts ps ns))"
  by (induction ns ps rule: list_induct2) (simp_all add: widened_counter distrib_left)

section \<open>The reported rate\<close>

lemma rnd_pow2: "rnd (real (2 ^ k)) = real (2 ^ k)"
proof (rule rnd_fixes_grid)
  show "real (2 ^ k) \<in> grid"
    unfolding grid_def mem_Collect_eq by (intro exI [of _ 1] exI [of _ "int k"]) (simp add: emin_def power_int_def)
qed

lemma net_rate_rounded:
  assumes "denotes elapsed seconds" and "1 \<le> 1000000000 * seconds"
  shows "denotes (net_rate previous current elapsed) (rnd (rnd (rnd (real (unat (current - previous))) / 1024) / seconds))"
proof -
  let ?w = "current - previous"
  have "unat ?w < 2 ^ 64" using unsigned_less [of ?w] by simp
  then have w: "real (unat ?w) \<le> real (2 ^ 64)" by (simp only: of_nat_le_iff less_imp_le)
  have bytes: "denotes (dbl_of_word ?w) (rnd (real (unat ?w)))"
    unfolding dbl_of_word_def by (intro denotes_of_nat in_rangeI [of _ 64] w) simp
  have "rnd (real (unat ?w)) \<le> real (2 ^ 64)" using rnd_mono [OF w] rnd_pow2 [of 64] by simp
  then have kb: "rnd (real (unat ?w)) / 1024 \<le> real (2 ^ 54)" by simp
  then have kilo: "denotes (dbl_div (dbl_of_word ?w) (dbl_of_nat 1024)) (rnd (rnd (real (unat ?w)) / 1024))"
    using denotes_div [OF bytes denotes_of_nat_exact [of 1024] _ in_rangeI [of _ 54]] by simp
  have top: "rnd (rnd (real (unat ?w)) / 1024) \<le> 2 ^ 54" using rnd_mono [OF kb] rnd_pow2 [of 54] by simp
  have pos: "0 < seconds" using assms(2) by simp
  have "rnd (rnd (real (unat ?w)) / 1024) / seconds \<le> 2 ^ 54 * 1000000000"
  proof -
    have "rnd (rnd (real (unat ?w)) / 1024) \<le> 2 ^ 54 * 1" using top by simp
    also have "\<dots> \<le> 2 ^ 54 * (1000000000 * seconds)" using assms(2) by (intro mult_left_mono) simp_all
    finally show ?thesis using pos by (simp add: divide_le_eq)
  qed
  also have "\<dots> \<le> real (2 ^ 84)" by simp
  finally have "in_range (rnd (rnd (real (unat ?w)) / 1024) / seconds)" by (rule in_rangeI) simp
  then show ?thesis unfolding net_rate_def by (rule denotes_div [OF kilo assms(1) pos])
qed

text \<open>
  C40: On Windows and macOS the system counts the bytes of an interface in 32 bits. Over an interval in which
  the counters of the interfaces (at \<open>ps\<close> before) count \<open>ns\<close> bytes, the difference the
  agent reports is the traffic less \<open>2\<^bsup>32\<^esup>\<close> bytes for every time one of them restarts, modulo
  \<open>2\<^bsup>64\<^esup>\<close>, because the counters are widened before they are subtracted. When the traffic is less than
  that, as it always is for a counter that restarts on its own within less than \<open>2\<^bsup>32\<^esup>\<close> bytes, the rate
  is at least \<open>2\<^bsup>53\<^esup>\<close> kilobytes over the interval.
\<close>

theorem counter_of_32_bits_wraps_wrong:
  assumes "in_counters before = Some ps" and "length ns = length ps"
    and "in_counters after = Some (map2 (\<lambda>p n. p + word_of_nat n) ps ns)"
    and "denotes elapsed seconds" and "1 \<le> 1000000000 * seconds"
  defines "rate \<equiv> net_rate (rx_bytes (read_net_sample before)) (rx_bytes (read_net_sample after)) elapsed"
    and "traffic \<equiv> sum_list ns" and "lost \<equiv> 2 ^ 32 * sum_list (map2 restarts ps ns)"
  shows "denotes rate (rnd (rnd (rnd (real (nat ((int traffic - int lost) mod 2 ^ 64))) / 1024) / seconds)) \<and>
    (traffic < lost \<and> lost \<le> 2 ^ 63 \<longrightarrow> rnd (2 ^ 53 / seconds) \<le> val rate)"
proof -
  let ?b = "rx_bytes (read_net_sample before)" and ?a = "rx_bytes (read_net_sample after)"
  let ?n = "nat ((int traffic - int lost) mod 2 ^ 64)"
  have "?a = ?b + word_of_nat traffic - word_of_nat lost"
    using rx_bytes_counters [OF assms(1)] rx_bytes_counters [OF assms(3)] widened_sum [OF assms(2)]
    by (simp add: traffic_def lost_def)
  then have "?a - ?b = word_of_int (int traffic - int lost)" by simp
  then have bytes: "unat (?a - ?b) = ?n" by (simp only: unat_eq_nat_uint uint_word_of_int) simp
  then have rate: "denotes rate (rnd (rnd (rnd (real ?n) / 1024) / seconds))"
    using net_rate_rounded [OF assms(4,5), of ?b ?a] by (simp only: rate_def)
  moreover have "rnd (2 ^ 53 / seconds) \<le> val rate" if "traffic < lost" "lost \<le> 2 ^ 63"
  proof -
    have "(int traffic - int lost) mod 2 ^ 64 = int traffic - int lost + 2 ^ 64"
      using that mod_pos_pos_trivial [of "int traffic - int lost + 2 ^ 64" "2 ^ 64"] by simp
    then have "2 ^ 63 \<le> ?n" using that by simp
    then have "real (2 ^ 63) \<le> real ?n" by (simp only: of_nat_le_iff)
    then have "real (2 ^ 53) \<le> rnd (real ?n) / 1024" using rnd_mono [of "real (2 ^ 63)" "real ?n"] rnd_pow2 [of 63] by simp
    then have "real (2 ^ 53) \<le> rnd (rnd (real ?n) / 1024)"
      using rnd_mono [of "real (2 ^ 53)" "rnd (real ?n) / 1024"] rnd_pow2 [of 53] by simp
    then have "2 ^ 53 / seconds \<le> rnd (rnd (real ?n) / 1024) / seconds" using assms(5) by (intro divide_right_mono) simp_all
    then have "rnd (2 ^ 53 / seconds) \<le> rnd (rnd (rnd (real ?n) / 1024) / seconds)" by (rule rnd_mono)
    then show ?thesis using denotes_val [OF rate] by simp
  qed
  ultimately show ?thesis by blast
qed

section \<open>Example\<close>

text \<open>Two interfaces of a macOS host, one of which restarts after a byte, and the loopback interface.\<close>

definition mac_interfaces :: "32 word list \<Rightarrow> ifaddrs list" where
  "mac_interfaces cs =
     \<lparr>ifa_family = Some AF_LINK, ifa_flags = 8, ifa_data = Some (500, 500)\<rparr> #
     map (\<lambda>c. \<lparr>ifa_family = Some AF_LINK, ifa_flags = 0, ifa_data = Some (c, 7)\<rparr>) cs"

theorem counter_of_32_bits_wraps_wrong_example:
  "2 ^ 50 \<le> val (net_rate (rx_bytes (read_net_sample (Getifaddrs (Some (mac_interfaces [4294967295, 10])))))
     (rx_bytes (read_net_sample (Getifaddrs (Some (mac_interfaces [0, 30]))))) (dbl_of_nat 5))"
proof -
  have "in_counters (Getifaddrs (Some (mac_interfaces cs))) = Some cs" for cs
  proof -
    have "List.map_filter link_data (map (\<lambda>c. \<lparr>ifa_family = Some AF_LINK, ifa_flags = 0, ifa_data = Some (c, 7)\<rparr>) cs) =
        map (\<lambda>c. (c, 7)) cs"
      by (induction cs) (simp_all add: map_filter_simps link_data_def)
    moreover have "bit (8 :: 32 word) IFF_LOOPBACK" by (simp add: IFF_LOOPBACK_def bit_numeral_rec)
    ultimately show ?thesis by (simp add: mac_interfaces_def map_filter_simps link_data_def comp_def)
  qed
  moreover have "map2 restarts [4294967295, 10] [1, 20] = [1, 0]"
    by (simp add: restarts_def)
  then have lost: "2 ^ 32 * sum_list (map2 restarts [4294967295, 10] [1, 20]) = 2 ^ 32" by simp
  moreover have "2 ^ 50 \<le> rnd (2 ^ 53 / 5)" using rnd_mono [of "real (2 ^ 50)" "2 ^ 53 / 5"] rnd_pow2 [of 50] by simp
  ultimately show ?thesis
    using counter_of_32_bits_wraps_wrong [of "Getifaddrs (Some (mac_interfaces [4294967295, 10]))" "[4294967295, 10]" "[1, 20]"
        "Getifaddrs (Some (mac_interfaces [0, 30]))" "dbl_of_nat 5" 5] denotes_of_nat_exact [of 5]
    unfolding lost by simp
qed

end
