(* ===== verification/Common_Alerts.thy ===== *)
theory Common_Alerts
  imports Common_Events
begin

text \<open>
  Alert rules: \<open>parse_alert_command\<close>, \<open>metric_value_for_key\<close> and
  \<open>rule_matches\<close> of \<^verbatim>\<open>common.hpp\<close>. The command pattern is translated
  literally and then characterised: \<open>alert_shape\<close> says, without a matcher, which texts
  are accepted and what the three groups capture. From it follow the facts the server relies
  on: a rule is a function of its trimmed command text, and that text has no vertical bar.
\<close>

section \<open>Parsing a command\<close>

definition letter_chars :: "char list" where
  "letter_chars = ''ABCDEFGHIJKLMNOPQRSTUVWXYZabcdefghijklmnopqrstuvwxyz_''"

abbreviation letter_class :: cclass where "letter_class \<equiv> OneOf letter_chars"

definition decimal_regex :: regex where
  "decimal_regex = seq [plus digit_class, Opt (seq [chr (CHR ''.''), plus digit_class])]"

definition alert_regex :: regex where
  "alert_regex =
     seq [Rep space_class, lit_icase ''/alert'', plus space_class, Grp (plus letter_class),
          Rep space_class, Grp (Cls (OneOf ''><'')), Rep space_class, Grp decimal_regex,
          Rep space_class, Opt (chr (CHR ''%'')), Rep space_class]"

text \<open>The chain of comparisons on the lower-cased metric name: key and display name.\<close>

definition metric_for_token :: "cpp_string \<Rightarrow> (cpp_string \<times> cpp_string) option" where
  "metric_for_token token =
     (if token = ''cpu'' then Some (''cpu_percent'', ''CPU'')
      else if token = ''memory'' \<or> token = ''mem'' then Some (''memory_percent'', ''Memory'')
      else if token = ''disk'' then Some (''disk_percent'', ''Disk'')
      else if token = ''rx'' \<or> token = ''netrx'' \<or> token = ''net_rx'' \<or> token = ''networkrx''
              \<or> token = ''network_rx'' then Some (''network_rx_kbps'', ''Network RX'')
      else if token = ''tx'' \<or> token = ''nettx'' \<or> token = ''net_tx'' \<or> token = ''networktx''
              \<or> token = ''network_tx'' then Some (''network_tx_kbps'', ''Network TX'')
      else None)"

definition alert_rule ::
    "cpp_string \<Rightarrow> cpp_string \<Rightarrow> cpp_string \<Rightarrow> cpp_string \<Rightarrow> AlertRule option result" where
  "alert_rule raw name cmp num =
     and_then (stod num) (\<lambda>thr.
       case metric_for_token (lower_copy name) of
         Some (key, display) \<Rightarrow>
           Inr (Some \<lparr>raw_command = raw, rule_metric_key = key, rule_display_metric = display,
                      rule_threshold = thr, comparison = hd cmp\<rparr>)
       | None \<Rightarrow> Inr None)"

definition parse_alert_command :: "cpp_string \<Rightarrow> AlertRule option result" where
  "parse_alert_command text =
     (case regex_match alert_regex text of
        Some [name, cmp, num] \<Rightarrow> alert_rule (trim text) name cmp num
      | _ \<Rightarrow> Inr None)"

section \<open>Evaluating a rule\<close>

definition metric_value_for_key :: "MetricSnapshot \<Rightarrow> cpp_string \<Rightarrow> double" where
  "metric_value_for_key metric key =
     (if key = ''cpu_percent'' then cpu_percent metric
      else if key = ''memory_percent'' then memory_percent metric
      else if key = ''disk_percent'' then disk_percent metric
      else if key = ''network_rx_kbps'' then network_rx_kbps metric
      else if key = ''network_tx_kbps'' then network_tx_kbps metric
      else dbl_zero)"

definition rule_matches :: "AlertRule \<Rightarrow> MetricSnapshot \<Rightarrow> bool" where
  "rule_matches rule metric =
     (let value = metric_value_for_key metric (rule_metric_key rule)
      in if comparison rule = CHR ''>'' then dbl_less (rule_threshold rule) value
         else dbl_less value (rule_threshold rule))"

section \<open>Which texts are commands\<close>

definition all_spaces :: "cpp_string \<Rightarrow> bool" where
  "all_spaces s \<longleftrightarrow> (\<forall>c \<in> set s. isspace c)"

definition isletter :: "char \<Rightarrow> bool" where
  "isletter c \<longleftrightarrow> c \<in> set letter_chars"

definition is_decimal :: "cpp_string \<Rightarrow> bool" where
  "is_decimal num \<longleftrightarrow>
     (\<exists>ds fs. num = ds @ fs \<and> ds \<noteq> [] \<and> (\<forall>c \<in> set ds. isdigit c) \<and>
        (fs = [] \<or> (\<exists>f. fs = CHR ''.'' # f \<and> f \<noteq> [] \<and> (\<forall>c \<in> set f. isdigit c))))"

text \<open>\<open>core\<close> is the text without the surrounding white space and \<open>pct\<close> the optional percent sign.\<close>

definition alert_core :: "cpp_string \<Rightarrow> cpp_string \<Rightarrow> char \<Rightarrow> cpp_string \<Rightarrow> bool" where
  "alert_core core name cmp num \<longleftrightarrow>
     (\<exists>w sp1 sp2 sp3 tail.
        core = w @ sp1 @ name @ sp2 @ cmp # sp3 @ num @ tail \<and>
        lower_copy w = ''/alert'' \<and> all_spaces sp1 \<and> sp1 \<noteq> [] \<and>
        name \<noteq> [] \<and> (\<forall>c \<in> set name. isletter c) \<and>
        all_spaces sp2 \<and> cmp \<in> set ''><'' \<and> all_spaces sp3 \<and> is_decimal num \<and>
        (tail = [] \<or> (\<exists>sp4. all_spaces sp4 \<and> tail = sp4 @ ''%'')))"

definition alert_shape :: "cpp_string \<Rightarrow> cpp_string \<Rightarrow> char \<Rightarrow> cpp_string \<Rightarrow> bool" where
  "alert_shape text name cmp num \<longleftrightarrow>
     (\<exists>pre core post. text = pre @ core @ post \<and> all_spaces pre \<and> all_spaces post \<and>
        alert_core core name cmp num)"

lemma of_char_tolower:
  "(of_char (tolower c) :: nat) = (if 65 \<le> (of_char c :: nat) \<and> (of_char c :: nat) \<le> 90
     then of_char c + 32 else of_char c)"
  by (simp add: tolower_def of_char_of)

lemma of_char_toupper:
  "(of_char (toupper c) :: nat) = (if 97 \<le> (of_char c :: nat) \<and> (of_char c :: nat) \<le> 122
     then of_char c - 32 else of_char c)"
  by (auto simp: toupper_def of_char_of)

lemma char_eq_iff_nat: "c = d \<longleftrightarrow> (of_char c :: nat) = of_char d"
  by simp

lemma icase_iff: "x = tolower c \<or> x = toupper c \<longleftrightarrow> tolower x = tolower c"
  unfolding char_eq_iff_nat [of x] char_eq_iff_nat [of "tolower x"] of_char_tolower of_char_toupper
  by auto

lemma parses_Cls_Seq: "parses (Seq (Cls c) r) u g \<longleftrightarrow> (\<exists>x v. u = x # v \<and> in_class c x \<and> parses r v g)"
proof
  assume "\<exists>x v. u = x # v \<and> in_class c x \<and> parses r v g"
  then obtain x v where "u = x # v" "in_class c x" "parses r v g" by blast
  then show "parses (Seq (Cls c) r) u g" unfolding parses.simps
    by (intro exI [of _ "[x]"] exI [of _ v] exI [of _ "[]"] exI [of _ g]) simp
qed auto

lemma parses_Opt_Seq: "parses (Seq (Opt r) r') u g \<longleftrightarrow> parses (Seq r r') u g \<or> parses r' u g"
proof
  assume "parses (Seq r r') u g \<or> parses r' u g"
  moreover have "parses r' u g \<Longrightarrow> parses (Seq (Opt r) r') u g" unfolding parses.simps
    by (intro exI [of _ "[]"] exI [of _ u] exI [of _ g]) simp
  ultimately show "parses (Seq (Opt r) r') u g" by auto
qed auto

lemma parses_Eps_right: "parses (Seq r Eps) u g \<longleftrightarrow> parses r u g"
  by simp

lemma parses_spaces: "parses (Seq (Rep space_class) r) u g \<longleftrightarrow>
    (\<exists>sp v. u = sp @ v \<and> all_spaces sp \<and> parses r v g)"
  by (auto simp: all_spaces_def)

lemma parses_plus: "parses (plus c) u g \<longleftrightarrow> u \<noteq> [] \<and> (\<forall>x \<in> set u. in_class c x) \<and> g = []"
  unfolding plus_def parses_Cls_Seq by (cases u) auto

lemma parses_chr: "parses (chr c) u g \<longleftrightarrow> u = [c] \<and> g = []"
  by (auto simp: chr_def)

lemma parses_chr_Seq: "parses (Seq (chr c) r) u g \<longleftrightarrow> (\<exists>v. u = c # v \<and> parses r v g)"
  unfolding chr_def parses_Cls_Seq by auto

lemma parses_lit_icase: "parses (lit_icase w) u g \<longleftrightarrow> lower_copy u = lower_copy w \<and> g = []"
proof (induction w arbitrary: u g)
  case Nil
  show ?case by (auto simp: lit_icase_def lower_copy_def)
next
  case (Cons c w)
  have "parses (lit_icase (c # w)) u g \<longleftrightarrow>
      (\<exists>x v. u = x # v \<and> tolower x = tolower c \<and> parses (lit_icase w) v g)"
    by (simp add: lit_icase_def icase_iff [symmetric] parses_Cls_Seq del: parses.simps)
  then show ?case by (cases u) (auto simp: Cons.IH lower_copy_def)
qed

declare parses.simps(4) [simp del]

lemma parses_decimal: "parses decimal_regex u g \<longleftrightarrow> is_decimal u \<and> g = []"
proof -
  have "parses decimal_regex u g \<longleftrightarrow>
      (\<exists>ds fs. u = ds @ fs \<and> ds \<noteq> [] \<and> (\<forall>c \<in> set ds. isdigit c) \<and>
        parses (Seq (Opt (seq [chr (CHR ''.''), plus digit_class])) Eps) fs g)"
    by (auto simp: decimal_regex_def parses.simps(4) [of "plus digit_class"] parses_plus)
  then show ?thesis
    by (simp add: is_decimal_def parses_Eps_right parses_chr_Seq parses_plus) blast
qed

lemma parses_tail: "parses (seq [Rep space_class, Opt (chr (CHR ''%'')), Rep space_class]) u g \<longleftrightarrow>
    g = [] \<and> (\<exists>tail post. u = tail @ post \<and> all_spaces post \<and>
      (tail = [] \<or> (\<exists>sp4. all_spaces sp4 \<and> tail = sp4 @ ''%'')))"
  (is "?L \<longleftrightarrow> _ \<and> ?R")
proof -
  have "?L \<longleftrightarrow> g = [] \<and> (\<exists>sp v. u = sp @ v \<and> all_spaces sp \<and>
      (all_spaces v \<or> (\<exists>w. v = CHR ''%'' # w \<and> all_spaces w)))"
    by (auto simp: parses_spaces parses_Opt_Seq parses_chr_Seq all_spaces_def parses_Eps_right)
  also have "(\<exists>sp v. u = sp @ v \<and> all_spaces sp \<and>
      (all_spaces v \<or> (\<exists>w. v = CHR ''%'' # w \<and> all_spaces w))) \<longleftrightarrow> ?R"
  proof (intro iffI; elim exE conjE disjE)
    fix sp v
    assume "u = sp @ v" "all_spaces sp" "all_spaces v"
    then show ?R by (intro exI [of _ "[]"] exI [of _ u]) (auto simp: all_spaces_def)
  next
    fix sp v w
    assume "u = sp @ v" "all_spaces sp" "v = CHR ''%'' # w" "all_spaces w"
    then show ?R by (intro exI [of _ "sp @ ''%''"] exI [of _ w]) auto
  next
    fix tail post
    assume "u = tail @ post" "all_spaces post" "tail = []"
    then show "\<exists>sp v. u = sp @ v \<and> all_spaces sp \<and>
        (all_spaces v \<or> (\<exists>w. v = CHR ''%'' # w \<and> all_spaces w))"
      by (intro exI [of _ "[]"] exI [of _ post]) (simp add: all_spaces_def)
  next
    fix tail post sp4
    assume "u = tail @ post" "all_spaces post" "tail = sp4 @ ''%''" "all_spaces sp4"
    then show "\<exists>sp v. u = sp @ v \<and> all_spaces sp \<and>
        (all_spaces v \<or> (\<exists>w. v = CHR ''%'' # w \<and> all_spaces w))"
      by (intro exI [of _ sp4] exI [of _ "CHR ''%'' # post"]) auto
  qed
  finally show ?thesis .
qed

lemma in_class_letter [simp]: "in_class letter_class = isletter"
  by (simp add: fun_eq_iff isletter_def)

lemma parses_literal_Seq: "parses (Seq (lit_icase w) r) u g \<longleftrightarrow>
    (\<exists>x v. u = x @ v \<and> lower_copy x = lower_copy w \<and> parses r v g)"
  by (auto simp: parses.simps(4) parses_lit_icase)

lemma parses_plus_Seq: "parses (Seq (plus c) r) u g \<longleftrightarrow>
    (\<exists>x v. u = x @ v \<and> x \<noteq> [] \<and> (\<forall>y \<in> set x. in_class c y) \<and> parses r v g)"
  by (auto simp: parses.simps(4) parses_plus)

lemma parses_name_Seq: "parses (Seq (Grp (plus c)) r) u g \<longleftrightarrow>
    (\<exists>x v h. u = x @ v \<and> g = x # h \<and> x \<noteq> [] \<and> (\<forall>y \<in> set x. in_class c y) \<and> parses r v h)"
  by (auto simp: parses.simps(4) parses_plus)

lemma parses_cmp_Seq: "parses (Seq (Grp (Cls c)) r) u g \<longleftrightarrow>
    (\<exists>x v h. u = x # v \<and> g = [x] # h \<and> in_class c x \<and> parses r v h)"
proof
  assume "\<exists>x v h. u = x # v \<and> g = [x] # h \<and> in_class c x \<and> parses r v h"
  then obtain x v h where "u = x # v" "g = [x] # h" "in_class c x" "parses r v h" by blast
  then show "parses (Seq (Grp (Cls c)) r) u g" unfolding parses.simps(4)
    by (intro exI [of _ "[x]"] exI [of _ v] exI [of _ "[[x]]"] exI [of _ h]) simp
qed (auto simp: parses.simps(4))

lemma parses_num_Seq: "parses (Seq (Grp decimal_regex) r) u g \<longleftrightarrow>
    (\<exists>x v h. u = x @ v \<and> g = x # h \<and> is_decimal x \<and> parses r v h)"
  by (auto simp: parses.simps(4) parses_decimal)

lemmas parses_alert_steps = parses_spaces parses_literal_Seq parses_plus_Seq parses_name_Seq
  parses_cmp_Seq parses_num_Seq

lemma lower_copy_alert: "lower_copy ''/alert'' = ''/alert''"
  by code_simp

lemma alert_regex_steps: "parses alert_regex text g \<longleftrightarrow>
    (\<exists>sp0 t0. text = sp0 @ t0 \<and> all_spaces sp0 \<and>
    (\<exists>w t1. t0 = w @ t1 \<and> lower_copy w = ''/alert'' \<and>
    (\<exists>sp1 t2. t1 = sp1 @ t2 \<and> sp1 \<noteq> [] \<and> all_spaces sp1 \<and>
    (\<exists>name t3 h1. t2 = name @ t3 \<and> g = name # h1 \<and> name \<noteq> [] \<and> (\<forall>c \<in> set name. isletter c) \<and>
    (\<exists>sp2 t4. t3 = sp2 @ t4 \<and> all_spaces sp2 \<and>
    (\<exists>cmp t5 h2. t4 = cmp # t5 \<and> h1 = [cmp] # h2 \<and> cmp \<in> set ''><'' \<and>
    (\<exists>sp3 t6. t5 = sp3 @ t6 \<and> all_spaces sp3 \<and>
    (\<exists>num t7 h3. t6 = num @ t7 \<and> h2 = num # h3 \<and> is_decimal num \<and>
      h3 = [] \<and> (\<exists>tail post. t7 = tail @ post \<and> all_spaces post \<and>
        (tail = [] \<or> (\<exists>sp4. all_spaces sp4 \<and> tail = sp4 @ ''%'')))))))))))"
  unfolding alert_regex_def seq.simps(2) [of "Rep space_class" "lit_icase ''/alert'' # _"]
    seq.simps(2) [of "lit_icase _"] seq.simps(2) [of "plus _"] seq.simps(2) [of "Grp _"]
    seq.simps(2) [of "Rep space_class" "Grp _ # _"]
    parses_alert_steps lower_copy_alert parses_tail in_class_space in_class_letter
    all_spaces_def [symmetric] in_class.simps ..

lemma parses_alert_iff: "parses alert_regex text g \<longleftrightarrow>
    (\<exists>name cmp num. g = [name, [cmp], num] \<and> alert_shape text name cmp num)"
proof
  assume "parses alert_regex text g"
  then show "\<exists>name cmp num. g = [name, [cmp], num] \<and> alert_shape text name cmp num"
    unfolding alert_regex_steps
  proof (elim exE conjE, goal_cases)
    case (1 sp0 t0 w t1 sp1 t2 name t3 h1 sp2 t4 cmp t5 h2 sp3 t6 num t7 h3 tail post)
    then have "alert_core (w @ sp1 @ name @ sp2 @ cmp # sp3 @ num @ tail) name cmp num"
      unfolding alert_core_def by blast
    with 1 have "alert_shape text name cmp num" unfolding alert_shape_def
      by (intro exI [of _ sp0] exI [of _ "w @ sp1 @ name @ sp2 @ cmp # sp3 @ num @ tail"]
          exI [of _ post]) simp
    with 1 show ?case by simp
  qed
next
  assume "\<exists>name cmp num. g = [name, [cmp], num] \<and> alert_shape text name cmp num"
  then show "parses alert_regex text g" unfolding alert_shape_def alert_core_def
  proof (elim exE conjE, goal_cases)
    case (1 name cmp num pre core post w sp1 sp2 sp3 tail)
    then show ?case unfolding alert_regex_steps
      by (intro exI conjI) (assumption | simp)+
  qed
qed

section \<open>The captures are determined by the trimmed text\<close>

lemma class_disjoint:
  "isletter c \<Longrightarrow> \<not> isspace c" "c \<in> set ''><'' \<Longrightarrow> \<not> isspace c \<and> \<not> isletter c"
  "isdigit c \<Longrightarrow> \<not> isspace c" "isspace c \<Longrightarrow> \<not> isletter c \<and> \<not> isdigit c \<and> c \<noteq> CHR ''.''"
  by (auto simp: isletter_def letter_chars_def isspace_def spaces_def isdigit_def digit_chars_def)

lemma cmp_percent_facts [simp]:
  "\<not> isletter (CHR ''>'')" "\<not> isletter (CHR ''<'')" "\<not> isdigit (CHR ''%'')" "\<not> isspace (CHR ''%'')"
  by (simp_all add: isletter_def letter_chars_def isdigit_def digit_chars_def isspace_def spaces_def)

lemma is_decimal_chars: "is_decimal num \<Longrightarrow> c \<in> set num \<Longrightarrow> isdigit c \<or> c = CHR ''.''"
  by (auto simp: is_decimal_def)

lemma is_decimal_ends: "is_decimal num \<Longrightarrow> num \<noteq> [] \<and> isdigit (hd num) \<and> isdigit (last num)"
  by (auto simp: is_decimal_def)

definition scan_name :: "cpp_string \<Rightarrow> cpp_string" where
  "scan_name core = takeWhile isletter (dropWhile isspace (drop 6 core))"

definition scan_cmp :: "cpp_string \<Rightarrow> cpp_string" where
  "scan_cmp core = dropWhile isspace (dropWhile isletter (dropWhile isspace (drop 6 core)))"

definition scan_num :: "cpp_string \<Rightarrow> cpp_string" where
  "scan_num core = takeWhile (\<lambda>c. isdigit c \<or> c = CHR ''.'') (dropWhile isspace (drop 1 (scan_cmp core)))"

lemma dropWhile_spaces: "all_spaces sp \<Longrightarrow> dropWhile isspace (sp @ s) = dropWhile isspace s"
  by (simp add: all_spaces_def dropWhile_append2)

lemma takeWhile_name:
  assumes "\<forall>c \<in> set name. isletter c" and "all_spaces sp" and "cmp \<in> set ''><''"
  shows "takeWhile isletter (name @ sp @ cmp # s) = name"
    and "dropWhile isletter (name @ sp @ cmp # s) = sp @ cmp # s"
proof -
  obtain x t where "sp @ cmp # s = x # t" and "\<not> isletter x"
    using assms(2,3) by (cases sp) (auto simp: all_spaces_def dest: class_disjoint)
  then show "takeWhile isletter (name @ sp @ cmp # s) = name"
    and "dropWhile isletter (name @ sp @ cmp # s) = sp @ cmp # s"
    using assms(1) by (simp_all add: takeWhile_append_stop dropWhile_append_stop)
qed

lemma takeWhile_num:
  assumes "is_decimal num" and "tail = [] \<or> (\<exists>sp4. all_spaces sp4 \<and> tail = sp4 @ ''%'')"
  shows "takeWhile (\<lambda>c. isdigit c \<or> c = CHR ''.'') (num @ tail) = num"
proof (cases tail)
  case Nil
  then show ?thesis using is_decimal_chars [OF assms(1)] by (simp add: takeWhile_eq_all_conv)
next
  case (Cons x t)
  then have "\<not> isdigit x \<and> x \<noteq> CHR ''.''"
    using assms(2) class_disjoint(4) [of x] by (auto simp: all_spaces_def Cons_eq_append_conv)
  then show ?thesis using is_decimal_chars [OF assms(1)] Cons
    by (simp add: takeWhile_append_stop)
qed

lemma alert_core_scan:
  assumes "alert_core core name cmp num"
  shows "name = scan_name core \<and> cmp = hd (scan_cmp core) \<and> num = scan_num core"
proof -
  obtain w sp1 sp2 sp3 tail where
      core: "core = w @ sp1 @ name @ sp2 @ cmp # sp3 @ num @ tail"
    and w: "lower_copy w = ''/alert''" and sp: "all_spaces sp1" "all_spaces sp2" "all_spaces sp3"
    and name: "name \<noteq> []" "\<forall>c \<in> set name. isletter c" and cmp: "cmp \<in> set ''><''"
    and num: "is_decimal num" and tail: "tail = [] \<or> (\<exists>sp4. all_spaces sp4 \<and> tail = sp4 @ ''%'')"
    using assms unfolding alert_core_def by blast
  have "length w = 6" using arg_cong [OF w, of length] by simp
  then have d6: "drop 6 core = sp1 @ name @ sp2 @ cmp # sp3 @ num @ tail" by (simp add: core)
  have "\<not> isspace (hd name)" using name by (auto dest: class_disjoint)
  then have n: "dropWhile isspace (drop 6 core) = name @ sp2 @ cmp # sp3 @ num @ tail"
    using name(1) by (simp add: d6 dropWhile_spaces sp dropWhile_hd)
  then have c: "scan_cmp core = cmp # sp3 @ num @ tail"
    using class_disjoint(2) [OF cmp]
    by (simp add: scan_cmp_def takeWhile_name [OF name(2) sp(2) cmp] dropWhile_spaces sp)
  have "\<not> isspace (hd num)" using is_decimal_ends [OF num] class_disjoint(3) by blast
  then have "dropWhile isspace (drop 1 (scan_cmp core)) = num @ tail"
    using is_decimal_ends [OF num] by (simp add: c dropWhile_spaces sp dropWhile_hd)
  then show ?thesis
    using n c takeWhile_num [OF num tail] takeWhile_name(1) [OF name(2) sp(2) cmp]
    by (simp add: scan_name_def scan_num_def)
qed

lemma tolower_space: "isspace c \<Longrightarrow> tolower c = c"
  by (auto simp: isspace_def spaces_def tolower_def)

lemma alert_core_trimmed:
  assumes "alert_core core name cmp num"
  shows "core \<noteq> [] \<and> \<not> isspace (hd core) \<and> \<not> isspace (last core)"
proof -
  obtain w sp1 sp2 sp3 tail where
      core: "core = w @ sp1 @ name @ sp2 @ cmp # sp3 @ num @ tail"
    and w: "lower_copy w = ''/alert''" and num: "is_decimal num"
    and tail: "tail = [] \<or> (\<exists>sp4. all_spaces sp4 \<and> tail = sp4 @ ''%'')"
    using assms unfolding alert_core_def by blast
  obtain x xs where x: "w = x # xs" "tolower x = CHR ''/''" using w by (cases w) (auto simp: lower_copy_def)
  have "\<not> isspace x"
  proof
    assume "isspace x"
    with tolower_space [OF this] x(2) show False by (auto simp: isspace_def spaces_def)
  qed
  moreover have "\<not> isspace (last (num @ tail))"
    using tail is_decimal_ends [OF num] class_disjoint(3) by auto
  moreover have "last core = last (num @ tail)" using is_decimal_ends [OF num] by (simp add: core)
  ultimately show ?thesis by (simp add: core x(1))
qed

lemma alert_shape_iff_trim: "alert_shape text name cmp num \<longleftrightarrow> alert_core (trim text) name cmp num"
proof
  assume "alert_shape text name cmp num"
  then obtain pre core post where d: "text = pre @ core @ post" "all_spaces pre" "all_spaces post"
    and core: "alert_core core name cmp num" unfolding alert_shape_def by blast
  then have "trim text = core"
    using trim_eqI [of pre post core] alert_core_trimmed [OF core] by (simp add: all_spaces_def)
  with core show "alert_core (trim text) name cmp num" by simp
next
  assume "alert_core (trim text) name cmp num"
  moreover obtain pre post where "text = pre @ trim text @ post" "all_spaces pre" "all_spaces post"
    using trim_decomp [of "text"] unfolding all_spaces_def by blast
  ultimately show "alert_shape text name cmp num" unfolding alert_shape_def by blast
qed

lemma regex_match_alert_iff:
  "regex_match alert_regex text = Some g \<longleftrightarrow>
     (\<exists>name cmp num. g = [name, [cmp], num] \<and> alert_core (trim text) name cmp num)"
proof
  assume "regex_match alert_regex text = Some g"
  then show "\<exists>name cmp num. g = [name, [cmp], num] \<and> alert_core (trim text) name cmp num"
    using regex_match_parses [of alert_regex "text" g]
    by (simp add: parses_alert_iff alert_shape_iff_trim)
next
  assume "\<exists>name cmp num. g = [name, [cmp], num] \<and> alert_core (trim text) name cmp num"
  then have g: "parses alert_regex text g" by (auto simp: parses_alert_iff alert_shape_iff_trim)
  moreover have "g' = [scan_name (trim text), [hd (scan_cmp (trim text))], scan_num (trim text)]"
    if "parses alert_regex text g'" for g'
    using that alert_core_scan unfolding parses_alert_iff alert_shape_iff_trim by blast
  ultimately show "regex_match alert_regex text = Some g" by (metis regex_match_unique)
qed

section \<open>Well-formed rules\<close>

text \<open>
  A rule the server keeps is well formed when parsing its own command text gives it back. It
  follows that two well-formed rules with the same command text are equal.
\<close>

definition wf_rule :: "AlertRule \<Rightarrow> bool" where
  "wf_rule rule \<longleftrightarrow> parse_alert_command (raw_command rule) = Inr (Some rule)"

definition metric_keys :: "cpp_string list" where
  "metric_keys =
     [''cpu_percent'', ''memory_percent'', ''disk_percent'', ''network_rx_kbps'', ''network_tx_kbps'']"

lemma regex_match_alert_trim: "regex_match alert_regex (trim s) = regex_match alert_regex s"
proof (rule option.expand)
  show "(regex_match alert_regex (trim s) = None) = (regex_match alert_regex s = None)"
    using regex_match_alert_iff [of s] regex_match_alert_iff [of "trim s"]
    by (metis not_None_eq trim_idem)
  show "the (regex_match alert_regex (trim s)) = the (regex_match alert_regex s)"
    if "regex_match alert_regex (trim s) \<noteq> None"
    using that regex_match_alert_iff [of s] regex_match_alert_iff [of "trim s"]
    by (metis option.sel option.exhaust trim_idem)
qed

lemma parse_alert_command_trim: "parse_alert_command (trim s) = parse_alert_command s"
  unfolding parse_alert_command_def regex_match_alert_trim trim_idem ..

lemma parse_alert_commandE:
  assumes "parse_alert_command s = Inr (Some rule)"
  obtains name cmp num key display thr where
    "alert_core (trim s) name cmp num" and "stod num = Inr thr"
    and "metric_for_token (lower_copy name) = Some (key, display)"
    and "rule = \<lparr>raw_command = trim s, rule_metric_key = key, rule_display_metric = display,
            rule_threshold = thr, comparison = cmp\<rparr>"
proof -
  obtain g where g: "regex_match alert_regex s = Some g"
    using assms by (cases "regex_match alert_regex s") (auto simp: parse_alert_command_def)
  then obtain name cmp num where n: "g = [name, [cmp], num]" "alert_core (trim s) name cmp num"
    by (auto simp: regex_match_alert_iff)
  have "alert_rule (trim s) name [cmp] num = Inr (Some rule)"
    using assms g n by (simp add: parse_alert_command_def)
  then show ?thesis
    using that n(2) by (auto simp: alert_rule_def elim!: and_then_InrE split: option.splits)
qed

lemma parsed_rule_wf:
  assumes "parse_alert_command s = Inr (Some rule)"
  shows "wf_rule rule" and "raw_command rule = trim s"
proof -
  show "raw_command rule = trim s" using assms by (rule parse_alert_commandE) simp
  then show "wf_rule rule" using assms by (simp add: wf_rule_def parse_alert_command_trim)
qed

lemma alert_core_no_bar:
  assumes "alert_core core name cmp num"
  shows "CHR ''|'' \<notin> set core"
proof -
  obtain w sp1 sp2 sp3 tail where
      core: "core = w @ sp1 @ name @ sp2 @ cmp # sp3 @ num @ tail"
    and w: "lower_copy w = ''/alert''" and sp: "all_spaces sp1" "all_spaces sp2" "all_spaces sp3"
    and name: "\<forall>c \<in> set name. isletter c" and cmp: "cmp \<in> set ''><''"
    and num: "is_decimal num" and tail: "tail = [] \<or> (\<exists>sp4. all_spaces sp4 \<and> tail = sp4 @ ''%'')"
    using assms unfolding alert_core_def by blast
  have "\<not> isspace (CHR ''|'')" by (simp add: isspace_def spaces_def)
  then have sp_bar: "CHR ''|'' \<notin> set t" if "all_spaces t" for t
    using that by (auto simp: all_spaces_def)
  have "tolower (CHR ''|'') \<notin> set (lower_copy w)" by (simp add: w tolower_def)
  then have "CHR ''|'' \<notin> set w" unfolding lower_copy_def set_map by blast
  moreover have "\<not> isletter (CHR ''|'')" "\<not> isdigit (CHR ''|'')"
    by (simp_all add: isletter_def letter_chars_def isdigit_def digit_chars_def)
  then have "CHR ''|'' \<notin> set name" using name by auto
  moreover have "CHR ''|'' \<notin> set num"
    using is_decimal_chars [OF num, of "CHR ''|''"] \<open>\<not> isdigit (CHR ''|'')\<close> by auto
  moreover have "CHR ''|'' \<notin> set tail" using tail sp_bar by auto
  ultimately show ?thesis using sp_bar sp cmp by (auto simp: core)
qed

lemma metric_for_token_keys:
  "metric_for_token token = Some (key, display) \<Longrightarrow> key \<in> set metric_keys"
  by (auto simp: metric_for_token_def metric_keys_def split: if_splits)

lemma wf_ruleD:
  assumes "wf_rule rule"
  shows "CHR ''|'' \<notin> set (raw_command rule)"
    and "rule_metric_key rule \<in> set metric_keys"
    and "comparison rule \<in> {CHR ''>'', CHR ''<''}"
proof -
  have "parse_alert_command (raw_command rule) = Inr (Some rule)" using assms by (simp add: wf_rule_def)
  then obtain name cmp num key display thr where
      p: "alert_core (trim (raw_command rule)) name cmp num"
      "metric_for_token (lower_copy name) = Some (key, display)"
    and r: "rule = \<lparr>raw_command = trim (raw_command rule), rule_metric_key = key,
            rule_display_metric = display, rule_threshold = thr, comparison = cmp\<rparr>"
    by (rule parse_alert_commandE)
  have raw: "raw_command rule = trim (raw_command rule)" using arg_cong [OF r, of raw_command] by simp
  show "CHR ''|'' \<notin> set (raw_command rule)" using alert_core_no_bar [OF p(1)] raw by simp
  have "rule_metric_key rule = key" "comparison rule = cmp"
    using arg_cong [OF r, of rule_metric_key] arg_cong [OF r, of comparison] by simp_all
  then show "rule_metric_key rule \<in> set metric_keys" and "comparison rule \<in> {CHR ''>'', CHR ''<''}"
    using metric_for_token_keys [OF p(2)] p(1) by (auto simp: alert_core_def)
qed

section \<open>What a command denotes\<close>

lemma parse_alert_command_core:
  assumes "alert_core (trim s) name cmp num"
  shows "parse_alert_command s = alert_rule (trim s) name [cmp] num"
proof -
  have "regex_match alert_regex s = Some [name, [cmp], num]"
    using assms regex_match_alert_iff [of s] by blast
  then show ?thesis by (simp add: parse_alert_command_def)
qed

lemma parse_alert_command_Inl:
  assumes "parse_alert_command s = Inl e"
  obtains name cmp num where "alert_core (trim s) name cmp num" and "stod num = Inl e"
proof -
  obtain g where g: "regex_match alert_regex s = Some g"
    using assms by (cases "regex_match alert_regex s") (auto simp: parse_alert_command_def)
  then obtain name cmp num where n: "alert_core (trim s) name cmp num"
    by (auto simp: regex_match_alert_iff)
  moreover have "alert_rule (trim s) name [cmp] num = Inl e"
    using assms parse_alert_command_core [OF n] by simp
  ultimately show ?thesis
    using that by (auto simp: alert_rule_def and_then_Inl_iff split: option.splits)
qed

text \<open>The names of the metrics in commands, with the key and the display name of each.\<close>

definition alert_names :: "(cpp_string \<times> cpp_string \<times> cpp_string) list" where
  "alert_names =
     [(''cpu'', ''cpu_percent'', ''CPU''), (''memory'', ''memory_percent'', ''Memory''),
      (''mem'', ''memory_percent'', ''Memory''), (''disk'', ''disk_percent'', ''Disk'')] @
     map (\<lambda>n. (n, ''network_rx_kbps'', ''Network RX''))
       [''rx'', ''netrx'', ''net_rx'', ''networkrx'', ''network_rx''] @
     map (\<lambda>n. (n, ''network_tx_kbps'', ''Network TX''))
       [''tx'', ''nettx'', ''net_tx'', ''networktx'', ''network_tx'']"

lemma if_or_nested: "(if a \<or> b then x else y) = (if a then x else if b then x else y)"
  by simp

lemma metric_for_token_names: "metric_for_token token = map_of alert_names token"
  unfolding metric_for_token_def alert_names_def if_or_nested eq_commute [of token]
  by (simp only: append.simps list.map map_of.simps fun_upd_apply fst_conv snd_conv eq_commute [of token])

text \<open>
  C22: The command parser gives a rule exactly for the texts of the documented form: white space around, the
  word \<^verbatim>\<open>/alert\<close> in any case, the name of a metric in any case, one of \<open><\<close> and \<open>>\<close>, a decimal number and an
  optional percent sign, separated by white space that is optional after the word. The rule has the metric,
  the comparison and the number of the text. The process ends exactly for texts of this form, with any
  name, whose number does not fit a double.
\<close>

theorem parse_alert_command_iff:
  "(parse_alert_command s = Inr (Some rule) \<longleftrightarrow>
     (\<exists>name cmp num key display thr.
        alert_core (trim s) name cmp num \<and> stod num = Inr thr \<and>
        map_of alert_names (lower_copy name) = Some (key, display) \<and>
        rule = \<lparr>raw_command = trim s, rule_metric_key = key, rule_display_metric = display,
                rule_threshold = thr, comparison = cmp\<rparr>)) \<and>
   (parse_alert_command s = Inl e \<longleftrightarrow>
     (\<exists>name cmp num. alert_core (trim s) name cmp num \<and> stod num = Inl e))"
proof (intro conjI iffI)
  assume "parse_alert_command s = Inr (Some rule)"
  then show "\<exists>name cmp num key display thr.
        alert_core (trim s) name cmp num \<and> stod num = Inr thr \<and>
        map_of alert_names (lower_copy name) = Some (key, display) \<and>
        rule = \<lparr>raw_command = trim s, rule_metric_key = key, rule_display_metric = display,
                rule_threshold = thr, comparison = cmp\<rparr>"
    by (rule parse_alert_commandE) (unfold metric_for_token_names, blast)
next
  assume "parse_alert_command s = Inl e"
  then show "\<exists>name cmp num. alert_core (trim s) name cmp num \<and> stod num = Inl e"
    by (rule parse_alert_command_Inl) blast
qed (auto simp: parse_alert_command_core alert_rule_def metric_for_token_names)

lemma stod_finite: "stod t = Inr x \<Longrightarrow> is_finite x"
  by (auto simp: stod_def Let_def is_finite_def split: prod.splits double.splits if_splits)

text \<open>
  C32: A parsed rule is well formed: its own text denotes it again, its metric is one of the five a report
  carries, its comparison is one of the two the evaluation knows, and its threshold is finite.
\<close>

theorem parsed_rule_type:
  assumes "parse_alert_command s = Inr (Some rule)"
  shows "parse_alert_command (raw_command rule) = Inr (Some rule) \<and>
    rule_metric_key rule \<in> set metric_keys \<and> comparison rule \<in> {CHR ''>'', CHR ''<''} \<and>
    is_finite (rule_threshold rule)"
proof -
  have wf: "wf_rule rule" using assms by (rule parsed_rule_wf)
  moreover have "is_finite (rule_threshold rule)"
    using assms by (rule parse_alert_commandE) (simp add: stod_finite)
  ultimately show ?thesis using wf_ruleD [OF wf] by (simp add: wf_rule_def)
qed

theorem parsed_rule_type_example:
  "\<exists>rule. parse_alert_command '' /ALERT mem < 12.5% '' = Inr (Some rule) \<and>
     rule_metric_key rule \<in> set metric_keys \<and> is_finite (rule_threshold rule)"
proof -
  have "parse_alert_command '' /ALERT mem < 12.5% '' =
      Inr (Some \<lparr>raw_command = ''/ALERT mem < 12.5%'', rule_metric_key = ''memory_percent'',
        rule_display_metric = ''Memory'', rule_threshold = Finite False 7036874417766400 (-49),
        comparison = CHR ''<''\<rparr>)"
    by code_simp
  from parsed_rule_type [OF this] this show ?thesis by blast
qed

text \<open>
  Evaluating a rule compares real numbers: on finite values, a rule with \<open>>\<close> matches exactly when the
  reported value is greater than the threshold and a rule with \<open><\<close> exactly when it is smaller; a value
  equal to the threshold matches neither.
\<close>

lemma rule_matches_real:
  assumes "comparison rule \<in> {CHR ''>'', CHR ''<''}" and "is_finite (rule_threshold rule)"
    and "is_finite (metric_value_for_key metric (rule_metric_key rule))"
  shows "rule_matches rule metric \<longleftrightarrow>
    (if comparison rule = CHR ''>''
     then val (rule_threshold rule) < val (metric_value_for_key metric (rule_metric_key rule))
     else val (metric_value_for_key metric (rule_metric_key rule)) < val (rule_threshold rule))"
proof -
  have "dbl_less x y \<longleftrightarrow> val x < val y" if "is_finite x" "is_finite y" for x y
    using that by (cases x; cases y) (simp_all add: is_finite_def dbl_less_val del: dbl_less.simps val.simps)
  then show ?thesis using assms(2,3) by (simp add: rule_matches_def Let_def)
qed

lemma rule_matches_real_example:
  "\<not> rule_matches \<lparr>raw_command = [], rule_metric_key = ''cpu_percent'', rule_display_metric = ''CPU'',
     rule_threshold = dbl_zero, comparison = CHR ''>''\<rparr> default_MetricSnapshot"
  using rule_matches_real [of "\<lparr>raw_command = [], rule_metric_key = ''cpu_percent'', rule_display_metric = ''CPU'',
     rule_threshold = dbl_zero, comparison = CHR ''>''\<rparr>" default_MetricSnapshot]
  by (simp add: is_finite_def metric_value_for_key_def default_MetricSnapshot_def)

end
