(* ===== verification/Net_Sockets.thy ===== *)
theory Net_Sockets
  imports Common_Alerts
begin

text \<open>
  The socket layer: \<^verbatim>\<open>cpp/include/platform.hpp\<close> for both of its branches and
  \<^verbatim>\<open>send_line\<close> of \<^verbatim>\<open>common.hpp\<close>, over an explicit world. The
  operating system is the record \<open>env\<close>: the clock reading and the answer of
  \<^verbatim>\<open>send\<close> for the k-th call. The record \<open>world\<close> holds what the process
  did to its surroundings: how often it read the clock and called \<^verbatim>\<open>send\<close>, the
  bytes the kernel took for each socket in order, and the sockets it opened and closed.
\<close>

section \<open>platform.hpp\<close>

datatype platform = Win32 | Posix

definition invalid_socket :: "platform \<Rightarrow> socket_t" where
  "invalid_socket p = (case p of Win32 \<Rightarrow> 2 ^ 64 - 1 | Posix \<Rightarrow> -1)"

definition is_socket_valid :: "platform \<Rightarrow> socket_t \<Rightarrow> bool" where
  "is_socket_valid p fd = (case p of Win32 \<Rightarrow> fd \<noteq> invalid_socket Win32 | Posix \<Rightarrow> 0 \<le> fd)"

definition socket_select_width :: "platform \<Rightarrow> socket_t \<Rightarrow> int" where
  "socket_select_width p fd = (case p of Win32 \<Rightarrow> 0 | Posix \<Rightarrow> fd + 1)"

text \<open>\<open>SocketRuntime\<close>: on Windows the result of \<^verbatim>\<open>WSAStartup\<close> decides.\<close>

definition socket_runtime_ok :: "platform \<Rightarrow> int \<Rightarrow> bool" where
  "socket_runtime_ok p wsa_startup = (case p of Win32 \<Rightarrow> wsa_startup = 0 | Posix \<Rightarrow> True)"

section \<open>The world\<close>

datatype send_ret = Accepted nat | Failed | Broken_pipe

record env =
  clock_at :: "nat \<Rightarrow> int"
  send_at :: "nat \<Rightarrow> socket_t \<Rightarrow> nat \<Rightarrow> send_ret"

record world =
  clock_reads :: nat
  send_calls :: nat
  wire :: "(socket_t \<times> cpp_string) list"
  opened :: "socket_t list"
  closed :: "socket_t list"

definition initial_world :: world where
  "initial_world = \<lparr>clock_reads = 0, send_calls = 0, wire = [], opened = [], closed = []\<rparr>"

definition read_clock :: "env \<Rightarrow> world \<Rightarrow> int \<times> world" where
  "read_clock env w = (clock_at env (clock_reads w), w\<lparr>clock_reads := Suc (clock_reads w)\<rparr>)"

text \<open>The kernel's side of a \<^verbatim>\<open>socket\<close> or \<^verbatim>\<open>accept\<close> that returned a descriptor.\<close>

definition open_socket :: "socket_t \<Rightarrow> world \<Rightarrow> world" where
  "open_socket fd w = w\<lparr>opened := opened w @ [fd]\<rparr>"

definition close_socket :: "platform \<Rightarrow> socket_t \<Rightarrow> world \<Rightarrow> world" where
  "close_socket p fd w = (if is_socket_valid p fd then w\<lparr>closed := closed w @ [fd]\<rparr> else w)"

section \<open>send\_line\<close>

text \<open>
  The loop of \<^verbatim>\<open>send_line\<close>: \<open>total_sent\<close> bytes of \<open>data\<close> are out. A call on a
  connection the peer has closed raises \<^verbatim>\<open>SIGPIPE\<close>: a process that ignores the
  signal sees an error return, any other is killed.
\<close>

function send_loop ::
    "env \<Rightarrow> bool \<Rightarrow> socket_t \<Rightarrow> cpp_string \<Rightarrow> nat \<Rightarrow> world \<Rightarrow> bool result \<times> world" where
  "send_loop env sigpipe_ignored fd data total_sent w =
     (if total_sent < length data then
        (let w1 = w\<lparr>send_calls := Suc (send_calls w)\<rparr> in
         case send_at env (send_calls w) fd (length data - total_sent) of
           Accepted sent \<Rightarrow>
             if sent = 0 then (Inr False, w1)
             else send_loop env sigpipe_ignored fd data (total_sent + sent)
                    (w1\<lparr>wire := wire w1 @ [(fd, take sent (drop total_sent data))]\<rparr>)
         | Failed \<Rightarrow> (Inr False, w1)
         | Broken_pipe \<Rightarrow> (if sigpipe_ignored then Inr False else Inl Killed_by_SIGPIPE, w1))
      else (Inr True, w))"
  by pat_completeness auto
termination
  by (relation "measure (\<lambda>(env, ign, fd, data, total_sent, w). length data - total_sent)") auto

declare send_loop.simps [simp del]

definition send_line ::
    "env \<Rightarrow> bool \<Rightarrow> socket_t \<Rightarrow> cpp_string \<Rightarrow> world \<Rightarrow> bool result \<times> world" where
  "send_line env sigpipe_ignored fd payload w = send_loop env sigpipe_ignored fd (payload @ [CHR_nl]) 0 w"

section \<open>What a peer receives\<close>

text \<open>The byte stream of one socket, and the whole lines in it.\<close>

definition stream :: "world \<Rightarrow> socket_t \<Rightarrow> cpp_string" where
  "stream w fd = concat (map snd (filter (\<lambda>m. fst m = fd) (wire w)))"

lemma stream_snoc: "stream (w\<lparr>wire := wire w @ [(f, bs)]\<rparr>) fd = stream w fd @ (if f = fd then bs else [])"
  by (simp add: stream_def)

lemma stream_frame [simp]:
  "stream (w\<lparr>send_calls := n\<rparr>) fd = stream w fd"
  "stream (w\<lparr>clock_reads := n\<rparr>) fd = stream w fd"
  "stream (w\<lparr>opened := l\<rparr>) fd = stream w fd"
  "stream (w\<lparr>closed := l\<rparr>) fd = stream w fd"
  by (simp_all add: stream_def)

text \<open>
  One induction over the loop gives all its facts: what is sent is a prefix of the data, it
  is the whole data exactly when the loop reports success, nothing else in the world moves.
\<close>

definition sent_effect ::
    "bool \<Rightarrow> socket_t \<Rightarrow> cpp_string \<Rightarrow> world \<Rightarrow> bool result \<Rightarrow> world \<Rightarrow> bool" where
  "sent_effect sigpipe_ignored fd data w r w' \<longleftrightarrow>
     (\<exists>n. stream w' fd = stream w fd @ take n data \<and> (r = Inr True \<longleftrightarrow> length data \<le> n)) \<and>
     (\<forall>g. g \<noteq> fd \<longrightarrow> stream w' g = stream w g) \<and>
     opened w' = opened w \<and> closed w' = closed w \<and> clock_reads w' = clock_reads w \<and>
     r \<in> (if sigpipe_ignored then {Inr True, Inr False}
            else {Inr True, Inr False, Inl Killed_by_SIGPIPE})"

lemma sent_effect_none:
  assumes "data \<noteq> []" and "r \<noteq> Inr True"
    and "r \<in> (if ign then {Inr True, Inr False} else {Inr True, Inr False, Inl Killed_by_SIGPIPE})"
  shows "sent_effect ign fd data w r (w\<lparr>send_calls := k\<rparr>)"
  using assms unfolding sent_effect_def by (intro conjI exI [of _ 0]) auto

lemma sent_effect_more:
  assumes "sent_effect ign fd (drop sent data) (w\<lparr>send_calls := k, wire := wire w @ [(fd, take sent data)]\<rparr>) r w'"
  shows "sent_effect ign fd data w r w'"
proof -
  let ?w1 = "w\<lparr>send_calls := k, wire := wire w @ [(fd, take sent data)]\<rparr>"
  have st: "stream ?w1 g = stream w g @ (if g = fd then take sent data else [])" for g
    by (auto simp: stream_def)
  obtain n where n: "stream w' fd = stream ?w1 fd @ take n (drop sent data)"
      "r = Inr True \<longleftrightarrow> length (drop sent data) \<le> n"
    using assms by (auto simp: sent_effect_def)
  have "stream w' fd = stream w fd @ take (sent + n) data"
    by (simp add: n(1) st take_add)
  moreover have "r = Inr True \<longleftrightarrow> length data \<le> sent + n" using n(2) by auto
  ultimately show ?thesis using assms st unfolding sent_effect_def by auto
qed

lemma send_loop_effect:
  "send_loop env ign fd data total_sent w = (r, w') \<Longrightarrow> sent_effect ign fd (drop total_sent data) w r w'"
proof (induction env ign fd data total_sent w arbitrary: r w' rule: send_loop.induct)
  case (1 env ign fd data total_sent w)
  show ?case
  proof (cases "total_sent < length data")
    case False
    then have "r = Inr True" "w' = w" using "1.prems" by (simp_all add: send_loop.simps [of env ign fd data])
    then show ?thesis using False by (auto simp: sent_effect_def)
  next
    case True
    let ?ret = "send_at env (send_calls w) fd (length data - total_sent)"
    show ?thesis
    proof (cases "\<exists>sent. ?ret = Accepted sent \<and> sent \<noteq> 0")
      case sent: True
      then obtain sent where ret: "?ret = Accepted sent" "sent \<noteq> 0" by blast
      let ?w1 = "w\<lparr>send_calls := Suc (send_calls w),
          wire := wire w @ [(fd, take sent (drop total_sent data))]\<rparr>"
      have "send_loop env ign fd data (total_sent + sent) ?w1 = (r, w')"
        using "1.prems" True ret by (simp add: send_loop.simps [of env ign fd data total_sent])
      then have "sent_effect ign fd (drop (total_sent + sent) data) ?w1 r w'"
        using "1.IH" [OF True refl ret] by simp
      then show ?thesis
        using sent_effect_more [of ign fd sent "drop total_sent data"] by (simp add: add.commute)
    next
      case False
      then have "(r, w') = (Inr False, w\<lparr>send_calls := Suc (send_calls w)\<rparr>) \<or>
          (r, w') = (if ign then Inr False else Inl Killed_by_SIGPIPE, w\<lparr>send_calls := Suc (send_calls w)\<rparr>)"
        using "1.prems" True
        by (auto simp: send_loop.simps [of env ign fd data total_sent] Let_def split: send_ret.splits if_splits)
      then show ?thesis using True by (auto intro!: sent_effect_none split: if_splits)
    qed
  qed
qed

lemma send_line_effect:
  "send_line env ign fd payload w = (r, w') \<Longrightarrow> sent_effect ign fd (payload @ [CHR_nl]) w r w'"
  using send_loop_effect [of env ign fd "payload @ [CHR_nl]" 0] by (simp add: send_line_def)

lemma send_line_frame [keeps]:
  "opened (snd (send_line env ign fd payload w)) = opened w"
  "closed (snd (send_line env ign fd payload w)) = closed w"
  "clock_reads (snd (send_line env ign fd payload w)) = clock_reads w"
  using send_line_effect [of env ign fd payload w] by (cases "send_line env ign fd payload w"; simp add: sent_effect_def)+

lemma send_line_other_stream [keeps]:
  "g \<noteq> fd \<Longrightarrow> stream (snd (send_line env ign fd payload w)) g = stream w g"
  using send_line_effect [of env ign fd payload w] by (cases "send_line env ign fd payload w") (simp add: sent_effect_def)

text \<open>A kernel that takes everything it is given.\<close>

definition reliable :: "env \<Rightarrow> bool" where
  "reliable env \<longleftrightarrow> (\<forall>k fd len. send_at env k fd len = Accepted len)"

lemma send_line_reliable:
  assumes "reliable env"
  shows "send_line env ign fd payload w =
    (Inr True, w\<lparr>send_calls := Suc (send_calls w), wire := wire w @ [(fd, payload @ [CHR_nl])]\<rparr>)"
  using assms by (simp add: send_line_def reliable_def send_loop.simps)

section \<open>What send\_line guarantees\<close>

text \<open>
  C26: \<open>send_line\<close> appends a prefix of the line to the receiver's byte stream, however the kernel cuts the
  data; it reports success exactly when the whole line with its newline was taken, touches no other stream
  and no other part of the world, and a process that ignores \<^verbatim>\<open>SIGPIPE\<close> always gets an answer.
\<close>

theorem send_line_delivers:
  assumes "send_line env sigpipe_ignored f payload w = (r, w')"
  shows "(\<exists>n. stream w' f = stream w f @ take n (payload @ [CHR_nl]) \<and>
        (r = Inr True \<longleftrightarrow> length payload < n)) \<and>
    (\<forall>g. stream w' g = stream w g \<or> g = f) \<and>
    opened w' = opened w \<and> closed w' = closed w \<and> clock_reads w' = clock_reads w \<and>
    (r \<in> {Inr True, Inr False} \<or> r = Inl Killed_by_SIGPIPE \<and> \<not> sigpipe_ignored)"
proof -
  have eff: "sent_effect sigpipe_ignored f (payload @ [CHR_nl]) w r w'" using assms by (rule send_line_effect)
  then obtain n where "stream w' f = stream w f @ take n (payload @ [CHR_nl])"
      "r = Inr True \<longleftrightarrow> length payload < n"
    by (auto simp: sent_effect_def Suc_le_eq)
  then show ?thesis using eff by (auto simp: sent_effect_def split: if_splits)
qed

lemma send_loop_calls:
  "send_loop env ign f data total_sent w = (r, w') \<Longrightarrow> send_calls w' \<le> send_calls w + (length data - total_sent)"
proof (induction env ign f data total_sent w arbitrary: r w' rule: send_loop.induct)
  case (1 env ign f data total_sent w)
  show ?case
  proof (cases "total_sent < length data")
    case False
    then show ?thesis using "1.prems" by (simp add: send_loop.simps [of env ign f data])
  next
    case True
    let ?ret = "send_at env (send_calls w) f (length data - total_sent)"
    let ?w1 = "\<lambda>sent. w\<lparr>send_calls := Suc (send_calls w), wire := wire w @ [(f, take sent (drop total_sent data))]\<rparr>"
    consider (more) sent where "?ret = Accepted sent" "sent \<noteq> 0"
        "send_loop env ign f data (total_sent + sent) (?w1 sent) = (r, w')"
      | (stop) "send_calls w' = Suc (send_calls w)"
      using "1.prems" True
      by (auto simp: send_loop.simps [of env ign f data total_sent] Let_def split: send_ret.splits if_splits)
    then show ?thesis
    proof cases
      case (more sent)
      then show ?thesis using "1.IH" [OF True refl more(1,2)] True by fastforce
    qed (use True in simp)
  qed
qed

text \<open>
  C36: \<open>send_line\<close> always returns, and after at most one call of \<open>send\<close> per byte of the line: a kernel that
  takes nothing makes it give up instead of spinning.
\<close>

theorem send_line_terminates:
  "\<exists>r w'. send_line env sigpipe_ignored f payload w = (r, w') \<and>
     send_calls w' \<le> send_calls w + length payload + 1"
proof -
  obtain r w' where "send_line env sigpipe_ignored f payload w = (r, w')" by fastforce
  moreover from this have "send_calls w' \<le> send_calls w + length payload + 1"
    using send_loop_calls [of env sigpipe_ignored f "payload @ [CHR_nl]" 0 w r w'] by (simp add: send_line_def)
  ultimately show ?thesis by blast
qed

text \<open>A kernel that takes three bytes at a time and then fails.\<close>

definition slow_env :: env where
  "slow_env = \<lparr>clock_at = (\<lambda>_. 0), send_at = (\<lambda>k _ _. if k < 2 then Accepted 3 else Failed)\<rparr>"

theorem send_line_delivers_example:
  "\<exists>n w'. send_line slow_env True 4 ''{abcdefg}'' initial_world = (Inr False, w') \<and>
     stream w' 4 = take n (''{abcdefg}'' @ [CHR_nl]) \<and> n \<le> 9"
proof -
  let ?w = "\<lparr>clock_reads = 0, send_calls = 3, wire = [(4, ''{ab''), (4, ''cde'')], opened = [], closed = []\<rparr>"
  have s: "send_line slow_env True 4 ''{abcdefg}'' initial_world = (Inr False, ?w)"
    by (simp add: send_line_def send_loop.simps slow_env_def initial_world_def Let_def)
  have "stream initial_world 4 = []" by (simp add: stream_def initial_world_def)
  then show ?thesis using send_line_delivers [OF s] s by force
qed

end
