(* ===== verification/Server_State.thy ===== *)
theory Server_State
  imports Net_Sockets "HOL-Library.AList"
begin

text \<open>
  The class \<open>MonitorServer\<close> of \<^verbatim>\<open>cpp/server/main.cpp\<close>: its fields, and the
  handlers that a line of input reaches (\<open>handle_line\<close>, \<open>handle_command\<close>,
  \<open>evaluate_rules\<close>, \<open>broadcast_to_dashboards\<close>). The two unordered maps are
  association lists; the locale \<open>unordered_map\<close> is the interface the server uses of
  them, interpreted on the list operations. The server process ignores
  \<^verbatim>\<open>SIGPIPE\<close> (\<^verbatim>\<open>main\<close> installs \<^verbatim>\<open>SIG_IGN\<close>) and
  discards what \<^verbatim>\<open>send_line\<close> returns.
\<close>

section \<open>The map interface\<close>

locale unordered_map =
  fixes invar :: "'m \<Rightarrow> bool"
    and empty :: 'm
    and assign :: "'k \<Rightarrow> 'v \<Rightarrow> 'm \<Rightarrow> 'm"
    and lookup :: "'m \<Rightarrow> 'k \<Rightarrow> 'v option"
    and count :: "'m \<Rightarrow> nat"
  assumes invar_empty: "invar empty"
    and lookup_empty: "lookup empty k = None"
    and invar_assign: "invar m \<Longrightarrow> invar (assign k v m)"
    and lookup_assign: "lookup (assign k v m) k' = (if k' = k then Some v else lookup m k')"
    and finite_dom: "finite {k. lookup m k \<noteq> None}"
    and count_dom: "invar m \<Longrightarrow> count m = card {k. lookup m k \<noteq> None}"
begin

lemma dom_assign: "{k'. lookup (assign k v m) k' \<noteq> None} = insert k {k'. lookup m k' \<noteq> None}"
  by (auto simp: lookup_assign)

lemma count_assign:
  "invar m \<Longrightarrow> count (assign k v m) = (if lookup m k = None then Suc (count m) else count m)"
  using finite_dom [of m]
  by (cases "lookup m k = None")
    (simp_all only: count_dom invar_assign dom_assign card_insert_if mem_Collect_eq simp_thms if_True
      if_False)

lemma count_empty: "count empty = 0"
  by (simp add: count_dom invar_empty lookup_empty)

text \<open>A sequence of assignments: the last one to a key wins, and the size is the number of keys.\<close>

lemma lookup_fold_assign:
  "lookup (fold (\<lambda>x. assign (f x) (g x)) xs m) k =
     (case List.find (\<lambda>x. f x = k) (rev xs) of Some x \<Rightarrow> Some (g x) | None \<Rightarrow> lookup m k)"
  by (induction xs rule: rev_induct) (auto simp: lookup_assign)

lemma invar_fold_assign: "invar m \<Longrightarrow> invar (fold (\<lambda>x. assign (f x) (g x)) xs m)"
  by (induction xs arbitrary: m) (auto simp: invar_assign)

end

definition distinct_keys :: "('k \<times> 'v) list \<Rightarrow> bool" where
  "distinct_keys m \<longleftrightarrow> distinct (map fst m)"

interpretation umap: unordered_map distinct_keys "[]" AList.update map_of length
proof (unfold_locales, goal_cases)
  case (3 m k v)
  then show ?case by (simp add: distinct_keys_def distinct_update)
next
  case (4 k v m k')
  show ?case by (simp add: update_conv')
next
  case (5 m)
  have "{k. map_of m k \<noteq> None} \<subseteq> fst ` set m" by (auto simp: map_of_eq_None_iff)
  then show ?case by (rule finite_subset) simp
next
  case (6 m)
  have "{k. map_of m k \<noteq> None} = set (map fst m)" by (auto simp: map_of_eq_None_iff)
  then show ?case using 6 by (simp only: distinct_keys_def distinct_card length_map)
qed (simp_all add: distinct_keys_def)

section \<open>State\<close>

datatype ClientRole = Unknown | Agent | Dashboard

record ClientConnection =
  fd :: socket_t
  role :: ClientRole
  peer_label :: cpp_string
  declared_host :: cpp_string
  buffer :: cpp_string

record MonitorServer =
  listen_fd :: socket_t
  clients :: "ClientConnection list"
  latest_metrics :: metric_table
  alert_rules :: "AlertRule list"
  active_alerts :: "(cpp_string \<times> bool) list"
  net :: world

section \<open>Sending\<close>

definition server_send :: "env \<Rightarrow> socket_t \<Rightarrow> cpp_string \<Rightarrow> MonitorServer \<Rightarrow> MonitorServer" where
  "server_send env f payload s = s\<lparr>net := snd (send_line env True f payload (net s))\<rparr>"

fun send_each :: "env \<Rightarrow> cpp_string \<Rightarrow> ClientConnection list \<Rightarrow> world \<Rightarrow> world" where
  "send_each env payload [] w = w"
| "send_each env payload (client # cs) w =
     send_each env payload cs
       (if role client = Dashboard then snd (send_line env True (fd client) payload w) else w)"

definition broadcast_to_dashboards :: "env \<Rightarrow> cpp_string \<Rightarrow> MonitorServer \<Rightarrow> MonitorServer" where
  "broadcast_to_dashboards env payload s = s\<lparr>net := send_each env payload (clients s) (net s)\<rparr>"

definition server_clock :: "env \<Rightarrow> MonitorServer \<Rightarrow> int \<times> MonitorServer" where
  "server_clock env s = (let (t, w) = read_clock env (net s) in (t, s\<lparr>net := w\<rparr>))"

section \<open>Alert evaluation\<close>

definition dedupe_key :: "cpp_string \<Rightarrow> cpp_string \<Rightarrow> cpp_string" where
  "dedupe_key host raw = host @ ''|'' @ raw"

definition make_alert :: "MetricSnapshot \<Rightarrow> AlertRule \<Rightarrow> int \<Rightarrow> AlertEvent" where
  "make_alert metric rule now =
     (let value = metric_value_for_key metric (rule_metric_key rule) in
      \<lparr>ae_host = ms_host metric, ae_timestamp = iso_timestamp now,
       ae_metric_key = rule_metric_key rule, ae_display_metric = rule_display_metric rule,
       ae_metric_value = value, ae_threshold = rule_threshold rule, ae_rule = raw_command rule,
       ae_message = rule_display_metric rule @ '' on '' @ ms_host metric
         @ '' crossed threshold at '' @ format_double value\<rparr>)"

definition evaluate_rule :: "env \<Rightarrow> MetricSnapshot \<Rightarrow> AlertRule \<Rightarrow> MonitorServer \<Rightarrow> MonitorServer" where
  "evaluate_rule env metric rule s =
     (let key = dedupe_key (ms_host metric) (raw_command rule);
          matched = rule_matches rule metric;
          previous_match = (map_of (active_alerts s) key = Some True);
          s1 = (if matched \<and> \<not> previous_match
                then (let (now, s0) = server_clock env s
                      in broadcast_to_dashboards env (alert_event_to_json (make_alert metric rule now)) s0)
                else s)
      in s1\<lparr>active_alerts := AList.update key matched (active_alerts s1)\<rparr>)"

definition evaluate_rules :: "env \<Rightarrow> MetricSnapshot \<Rightarrow> MonitorServer \<Rightarrow> MonitorServer" where
  "evaluate_rules env metric s = fold (evaluate_rule env metric) (alert_rules s) s"

section \<open>Commands\<close>

definition starts_with :: "cpp_string \<Rightarrow> cpp_string \<Rightarrow> bool" where
  "starts_with prefix s \<longleftrightarrow> take (length prefix) s = prefix"

definition register_rule :: "env \<Rightarrow> socket_t \<Rightarrow> AlertRule \<Rightarrow> MonitorServer \<Rightarrow> MonitorServer" where
  "register_rule env f parsed_rule s =
     (let s1 = s\<lparr>alert_rules := alert_rules s @ [parsed_rule]\<rparr>;
          (now, s2) = server_clock env s1;
          system_message = \<lparr>chat_sender = ''system'',
             chat_text = ''Registered alert rule: '' @ raw_command parsed_rule,
             chat_timestamp = iso_timestamp now\<rparr>;
          s3 = broadcast_to_dashboards env (chat_event_to_json system_message) s2;
          s4 = broadcast_to_dashboards env (rules_event_to_json (alert_rules s3)) s3
      in server_send env f (ack_event_to_json (''rule added: '' @ raw_command parsed_rule)) s4)"

definition handle_command ::
    "env \<Rightarrow> socket_t \<Rightarrow> cpp_string \<Rightarrow> MonitorServer \<Rightarrow> MonitorServer result" where
  "handle_command env f text s =
     (let lowered = lower_copy (trim text) in
      if starts_with ''/alert'' lowered then
        and_then (parse_alert_command text) (\<lambda>rule.
          case rule of
            None \<Rightarrow> Inr (server_send env f
                (error_event_to_json ''expected /alert CPU>80% or /alert MEMORY>70%'') s)
          | Some parsed_rule \<Rightarrow> Inr (register_rule env f parsed_rule s))
      else if lowered = ''/listalerts'' then
        Inr (server_send env f (rules_event_to_json (alert_rules s)) s)
      else if lowered = ''/clients'' then
        Inr (server_send env f
          (ack_event_to_json (''connected agents: '' @ nat_to_string (length (latest_metrics s)))) s)
      else Inr (server_send env f (error_event_to_json ''unknown command'') s))"

section \<open>Messages\<close>

definition set_client :: "nat \<Rightarrow> ClientConnection \<Rightarrow> MonitorServer \<Rightarrow> MonitorServer" where
  "set_client i c s = s\<lparr>clients := (clients s)[i := c]\<rparr>"

definition str_field :: "cpp_string \<Rightarrow> cpp_string \<Rightarrow> cpp_string \<Rightarrow> cpp_string" where
  "str_field line key fallback = value_or (json_get_string line key) fallback"

definition num_field :: "cpp_string \<Rightarrow> cpp_string \<Rightarrow> double result" where
  "num_field line key = and_then (json_get_number line key) (\<lambda>m. Inr (value_or m dbl_zero))"

definition int_field :: "cpp_string \<Rightarrow> cpp_string \<Rightarrow> int result" where
  "int_field line key = and_then (json_get_integer line key) (\<lambda>m. Inr (value_or m 0))"

text \<open>\<^verbatim>\<open>type == "register"\<close>: the reply names the role as it was sent.\<close>

definition new_role :: "cpp_string \<Rightarrow> ClientRole \<Rightarrow> ClientRole" where
  "new_role name old =
     (if name = ''agent'' then Agent else if name = ''dashboard'' then Dashboard else old)"

definition handle_register :: "env \<Rightarrow> nat \<Rightarrow> cpp_string \<Rightarrow> MonitorServer \<Rightarrow> MonitorServer" where
  "handle_register env i line s =
     (let client = clients s ! i;
          role_name = lower_copy (str_field line ''role'' []);
          client' = client\<lparr>declared_host := str_field line ''host'' (peer_label client),
                           role := new_role role_name (role client)\<rparr>;
          s1 = set_client i client' s;
          s2 = server_send env (fd client) (ack_event_to_json (''registered as '' @ role_name)) s1
      in if role client' = Dashboard
         then (let (now, s3) = server_clock env s2;
                   s4 = server_send env (fd client) (snapshot_event_to_json (latest_metrics s3) now) s3
               in server_send env (fd client) (rules_event_to_json (alert_rules s4)) s4)
         else s2)"

text \<open>\<^verbatim>\<open>type == "metrics"\<close> from an agent: the numeric fields are read in the source's order.\<close>

definition parse_metrics :: "cpp_string \<Rightarrow> cpp_string \<Rightarrow> cpp_string \<Rightarrow> MetricSnapshot result" where
  "parse_metrics line fallback_host now_stamp =
     and_then (num_field line ''cpu_percent'') (\<lambda>cpu.
     and_then (num_field line ''memory_percent'') (\<lambda>mem.
     and_then (num_field line ''disk_percent'') (\<lambda>disk.
     and_then (num_field line ''network_rx_kbps'') (\<lambda>rx.
     and_then (num_field line ''network_tx_kbps'') (\<lambda>tx.
     and_then (int_field line ''memory_used_mb'') (\<lambda>mu.
     and_then (int_field line ''memory_total_mb'') (\<lambda>mt.
     and_then (int_field line ''disk_used_mb'') (\<lambda>du.
     and_then (int_field line ''disk_total_mb'') (\<lambda>dt.
       Inr \<lparr>ms_host = str_field line ''host'' fallback_host,
            ms_timestamp = str_field line ''timestamp'' now_stamp,
            cpu_percent = cpu, memory_percent = mem, disk_percent = disk,
            network_rx_kbps = rx, network_tx_kbps = tx,
            memory_used_mb = mu, memory_total_mb = mt, disk_used_mb = du, disk_total_mb = dt\<rparr>)))))))))"

definition store_metric :: "env \<Rightarrow> MetricSnapshot \<Rightarrow> MonitorServer \<Rightarrow> MonitorServer" where
  "store_metric env metric s =
     (let s1 = s\<lparr>latest_metrics := AList.update (ms_host metric) metric (latest_metrics s)\<rparr>
      in evaluate_rules env metric (broadcast_to_dashboards env (metric_event_to_json metric) s1))"

definition handle_metrics :: "env \<Rightarrow> nat \<Rightarrow> cpp_string \<Rightarrow> MonitorServer \<Rightarrow> MonitorServer result" where
  "handle_metrics env i line s =
     (let (now, s1) = server_clock env s in
      and_then (parse_metrics line (declared_host (clients s ! i)) (iso_timestamp now))
        (\<lambda>metric. Inr (store_metric env metric s1)))"

definition handle_chat :: "env \<Rightarrow> nat \<Rightarrow> cpp_string \<Rightarrow> MonitorServer \<Rightarrow> MonitorServer" where
  "handle_chat env i line s =
     (let client = clients s ! i;
          (now, s1) = server_clock env s;
          message = \<lparr>chat_sender = str_field line ''from''
                       (if declared_host client = [] then peer_label client else declared_host client),
                     chat_text = str_field line ''text'' [],
                     chat_timestamp = iso_timestamp now\<rparr>
      in broadcast_to_dashboards env (chat_event_to_json message) s1)"

definition handle_line :: "env \<Rightarrow> nat \<Rightarrow> cpp_string \<Rightarrow> MonitorServer \<Rightarrow> MonitorServer result" where
  "handle_line env i line s =
     (let client = clients s ! i;
          type = str_field line ''type'' [] in
      if type = ''register'' then Inr (handle_register env i line s)
      else if type = ''metrics'' \<and> role client = Agent then handle_metrics env i line s
      else if type = ''command'' then handle_command env (fd client) (str_field line ''text'' []) s
      else if type = ''chat'' then Inr (handle_chat env i line s)
      else Inr (server_send env (fd client) (error_event_to_json ''unsupported message'') s))"

section \<open>Who receives a broadcast\<close>

definition dashboards :: "ClientConnection list \<Rightarrow> socket_t list" where
  "dashboards cs = map fd (filter (\<lambda>c. role c = Dashboard) cs)"

definition send_all :: "env \<Rightarrow> cpp_string \<Rightarrow> socket_t list \<Rightarrow> world \<Rightarrow> world" where
  "send_all env payload fds w = fold (\<lambda>f. snd \<circ> send_line env True f payload) fds w"

lemma send_each_dashboards: "send_each env payload cs w = send_all env payload (dashboards cs) w"
  by (induction cs arbitrary: w) (simp_all add: send_all_def dashboards_def)

lemma broadcast_net: "net (broadcast_to_dashboards env p s) = send_all env p (dashboards (clients s)) (net s)"
  by (simp add: broadcast_to_dashboards_def send_each_dashboards)

lemma send_all_frame [keeps]:
  "opened (send_all env p fds w) = opened w"
  "closed (send_all env p fds w) = closed w"
  "clock_reads (send_all env p fds w) = clock_reads w"
  unfolding send_all_def by (induction fds arbitrary: w) (simp_all add: keeps)

lemma send_all_other_stream [keeps]:
  "g \<notin> set fds \<Longrightarrow> stream (send_all env p fds w) g = stream w g"
  unfolding send_all_def by (induction fds arbitrary: w) (simp_all add: keeps)

section \<open>What the handlers leave alone\<close>

lemma send_frame [keeps, simp]:
  "clients (server_send env f p s) = clients s"
  "latest_metrics (server_send env f p s) = latest_metrics s"
  "alert_rules (server_send env f p s) = alert_rules s"
  "active_alerts (server_send env f p s) = active_alerts s"
  "listen_fd (server_send env f p s) = listen_fd s"
  by (simp_all add: server_send_def)

lemma broadcast_frame [keeps, simp]:
  "clients (broadcast_to_dashboards env p s) = clients s"
  "latest_metrics (broadcast_to_dashboards env p s) = latest_metrics s"
  "alert_rules (broadcast_to_dashboards env p s) = alert_rules s"
  "active_alerts (broadcast_to_dashboards env p s) = active_alerts s"
  "listen_fd (broadcast_to_dashboards env p s) = listen_fd s"
  by (simp_all add: broadcast_to_dashboards_def)

lemma clock_frame [keeps, simp]:
  "fst (server_clock env s) = clock_at env (clock_reads (net s))"
  "clients (snd (server_clock env s)) = clients s"
  "latest_metrics (snd (server_clock env s)) = latest_metrics s"
  "alert_rules (snd (server_clock env s)) = alert_rules s"
  "active_alerts (snd (server_clock env s)) = active_alerts s"
  "listen_fd (snd (server_clock env s)) = listen_fd s"
  by (simp_all add: server_clock_def read_clock_def)

lemma evaluate_rule_frame [keeps, simp]:
  "clients (evaluate_rule env m r s) = clients s"
  "latest_metrics (evaluate_rule env m r s) = latest_metrics s"
  "alert_rules (evaluate_rule env m r s) = alert_rules s"
  "listen_fd (evaluate_rule env m r s) = listen_fd s"
  by (simp_all add: evaluate_rule_def Let_def case_prod_unfold)

lemma fold_evaluate_frame [keeps, simp]:
  "clients (fold (evaluate_rule env m) rs s) = clients s"
  "latest_metrics (fold (evaluate_rule env m) rs s) = latest_metrics s"
  "alert_rules (fold (evaluate_rule env m) rs s) = alert_rules s"
  "listen_fd (fold (evaluate_rule env m) rs s) = listen_fd s"
  by (induction rs arbitrary: s) simp_all

lemma evaluate_rules_frame [keeps, simp]:
  "clients (evaluate_rules env m s) = clients s"
  "latest_metrics (evaluate_rules env m s) = latest_metrics s"
  "alert_rules (evaluate_rules env m s) = alert_rules s"
  "listen_fd (evaluate_rules env m s) = listen_fd s"
  by (simp_all add: evaluate_rules_def)

lemma register_rule_frame [keeps, simp]:
  "clients (register_rule env f r s) = clients s"
  "latest_metrics (register_rule env f r s) = latest_metrics s"
  "alert_rules (register_rule env f r s) = alert_rules s @ [r]"
  "active_alerts (register_rule env f r s) = active_alerts s"
  "listen_fd (register_rule env f r s) = listen_fd s"
  by (simp_all add: register_rule_def Let_def case_prod_unfold)

lemma handle_register_frame [keeps, simp]:
  "latest_metrics (handle_register env i line s) = latest_metrics s"
  "alert_rules (handle_register env i line s) = alert_rules s"
  "active_alerts (handle_register env i line s) = active_alerts s"
  "listen_fd (handle_register env i line s) = listen_fd s"
  by (simp_all add: handle_register_def Let_def case_prod_unfold set_client_def)

lemma handle_register_clients: "clients (handle_register env i line s) =
    (clients s)[i := (clients s ! i)\<lparr>
        declared_host := str_field line ''host'' (peer_label (clients s ! i)),
        role := new_role (lower_copy (str_field line ''role'' [])) (role (clients s ! i))\<rparr>]"
  by (simp add: handle_register_def Let_def case_prod_unfold set_client_def)

lemma store_metric_frame [keeps, simp]:
  "clients (store_metric env m s) = clients s"
  "latest_metrics (store_metric env m s) = AList.update (ms_host m) m (latest_metrics s)"
  "alert_rules (store_metric env m s) = alert_rules s"
  "listen_fd (store_metric env m s) = listen_fd s"
  by (simp_all add: store_metric_def Let_def)

lemma handle_chat_frame [keeps, simp]:
  "clients (handle_chat env i line s) = clients s"
  "latest_metrics (handle_chat env i line s) = latest_metrics s"
  "alert_rules (handle_chat env i line s) = alert_rules s"
  "active_alerts (handle_chat env i line s) = active_alerts s"
  "listen_fd (handle_chat env i line s) = listen_fd s"
  by (simp_all add: handle_chat_def Let_def case_prod_unfold)

section \<open>How a line can change the server\<close>

lemma handle_command_cases:
  assumes "handle_command env f t s = Inr s'"
  obtains (reply) p where "s' = server_send env f p s"
  | (rule) r where "parse_alert_command t = Inr (Some r)" and "s' = register_rule env f r s"
  using assms
  by (auto simp: handle_command_def Let_def elim!: and_then_InrE split: if_splits option.splits)

lemma handle_line_cases:
  assumes "handle_line env i line s = Inr s'"
  obtains (register) "s' = handle_register env i line s"
  | (metrics) metric where "role (clients s ! i) = Agent"
      and "parse_metrics line (declared_host (clients s ! i))
             (iso_timestamp (fst (server_clock env s))) = Inr metric"
      and "s' = store_metric env metric (snd (server_clock env s))"
  | (command) t where "handle_command env (fd (clients s ! i)) t s = Inr s'"
  | (chat) "s' = handle_chat env i line s"
  | (unsupported) p where "s' = server_send env (fd (clients s ! i)) p s"
proof -
  let ?type = "str_field line ''type'' []" and ?c = "clients s ! i"
  consider "?type = ''register''" | "?type \<noteq> ''register''" "?type = ''metrics'' \<and> role ?c = Agent"
    | "?type = ''command''" | "?type = ''chat''"
    | "?type \<noteq> ''register''" "\<not> (?type = ''metrics'' \<and> role ?c = Agent)" "?type \<noteq> ''command''"
      "?type \<noteq> ''chat''"
    by blast
  then show ?thesis
  proof cases
    case 1
    with assms show ?thesis using register by (simp add: handle_line_def)
  next
    case 2
    then have "handle_metrics env i line s = Inr s'" using assms by (simp add: handle_line_def)
    with 2 show ?thesis using metrics
      by (auto simp: handle_metrics_def case_prod_unfold elim!: and_then_InrE)
  next
    case 3
    with assms show ?thesis using command by (simp add: handle_line_def)
  next
    case 4
    with assms show ?thesis using chat by (simp add: handle_line_def)
  next
    case 5
    with assms show ?thesis
      using unsupported [of "error_event_to_json ''unsupported message''"]
      by (simp add: handle_line_def)
  qed
qed

lemma handle_line_listen_fd [keeps]: "handle_line env i line s = Inr s' \<Longrightarrow> listen_fd s' = listen_fd s"
  by (erule handle_line_cases) (auto elim!: handle_command_cases)

text \<open>Seen through a projection that ignores role and declared host, the clients do not change.\<close>

lemma handle_line_clients [keeps]:
  assumes "handle_line env i line s = Inr s'"
    and "\<And>c h r. f (c\<lparr>declared_host := h, role := r\<rparr>) = f c"
  shows "map f (clients s') = map f (clients s)"
  using assms(1)
proof (cases rule: handle_line_cases)
  case register
  then show ?thesis by (simp add: handle_register_clients map_list_update_same assms(2))
next
  case (command t)
  then show ?thesis by (cases rule: handle_command_cases) simp_all
qed simp_all

lemma handle_line_length [keeps]: "handle_line env i line s = Inr s' \<Longrightarrow> length (clients s') = length (clients s)"
  using handle_line_clients [of env i line s s' "\<lambda>_. ()"] by (metis length_map)

section \<open>A server with one client, for examples\<close>

definition steady_env :: env where
  "steady_env = \<lparr>clock_at = (\<lambda>_. 0), send_at = (\<lambda>_ _ len. Accepted len)\<rparr>"

definition sample_client :: "ClientRole \<Rightarrow> ClientConnection" where
  "sample_client r =
     \<lparr>fd = 5, role = r, peer_label = ''10.0.0.7:40000'', declared_host = ''web1'', buffer = []\<rparr>"

definition sample_server :: "ClientRole \<Rightarrow> MonitorServer" where
  "sample_server r =
     \<lparr>listen_fd = 3, clients = [sample_client r], latest_metrics = [], alert_rules = [],
      active_alerts = [], net = initial_world\<rparr>"

lemma reliable_steady_env [simp]: "reliable steady_env"
  by (simp add: reliable_def steady_env_def)

end
