(* ===== verification/Server_Loop.thy ===== *)
theory Server_Loop
  imports Server_State
begin

text \<open>
  The event loop of \<^verbatim>\<open>cpp/server/main.cpp\<close>: \<open>read_client\<close> with its line
  splitting, one iteration of \<open>run\<close> (the descriptor sets, \<open>accept_connection\<close>, the
  pass over the clients, the disconnections), \<open>shutdown_all\<close>, \<open>start\<close> and
  \<open>main\<close>. What the kernel answers in one iteration is the record \<open>poll\<close>; a run is
  a list of them, and the loop ends when the list does (the signal handler cleared
  \<open>g_running\<close>) or when \<^verbatim>\<open>select\<close> fails. The model is the POSIX build.
\<close>

section \<open>Reading from a client\<close>

definition set_buffer :: "nat \<Rightarrow> cpp_string \<Rightarrow> MonitorServer \<Rightarrow> MonitorServer" where
  "set_buffer i b s = set_client i ((clients s ! i)\<lparr>buffer := b\<rparr>) s"

definition before_newline :: "cpp_string \<Rightarrow> cpp_string" where
  "before_newline pending = takeWhile (\<lambda>c. c \<noteq> CHR_nl) pending"

definition after_newline :: "cpp_string \<Rightarrow> cpp_string" where
  "after_newline pending = drop 1 (dropWhile (\<lambda>c. c \<noteq> CHR_nl) pending)"

lemma length_after_newline: "CHR_nl \<in> set pending \<Longrightarrow> length (after_newline pending) < length pending"
  using length_dropWhile_le [of "\<lambda>c. c \<noteq> CHR_nl" pending]
  by (cases "dropWhile (\<lambda>c. c \<noteq> CHR_nl) pending") (auto simp: after_newline_def)

lemma set_buffer_clients [simp]:
  "clients (set_buffer i b s) = (clients s)[i := (clients s ! i)\<lparr>buffer := b\<rparr>]"
  by (simp add: set_buffer_def set_client_def)

definition handle_if_nonempty ::
    "env \<Rightarrow> nat \<Rightarrow> cpp_string \<Rightarrow> MonitorServer \<Rightarrow> MonitorServer result" where
  "handle_if_nonempty env i line s = (if line = [] then Inr s else handle_line env i line s)"

lemma handle_if_nonempty_clients:
  "handle_if_nonempty env i line s = Inr s' \<Longrightarrow>
   (\<And>c h r. f (c\<lparr>declared_host := h, role := r\<rparr>) = f c) \<Longrightarrow> map f (clients s') = map f (clients s)"
  by (auto simp: handle_if_nonempty_def handle_line_clients split: if_splits)

text \<open>
  The loop over the pending bytes. It is entered with an index of a client; without one the
  source's reference would dangle, and the model has no line to take.
\<close>

function process_lines :: "env \<Rightarrow> nat \<Rightarrow> MonitorServer \<Rightarrow> MonitorServer result" where
  "process_lines env i s =
     (let pending = buffer (clients s ! i) in
      if i < length (clients s) \<and> CHR_nl \<in> set pending then
        (let line = trim (before_newline pending);
             s1 = set_buffer i (after_newline pending) s
         in and_then (handle_if_nonempty env i line s1) (process_lines env i))
      else Inr s)"
  by pat_completeness auto
termination
proof (relation "measure (\<lambda>(env, i, s). length (buffer (clients s ! i)))", goal_cases)
  case (2 env i s pending line s1 s2)
  have "map buffer (clients s2) = map buffer (clients s1)"
    using 2(5) by (rule handle_if_nonempty_clients) simp
  then have "map buffer (clients s2) ! i = map buffer (clients s1) ! i" and "length (clients s2) = length (clients s1)"
    by (simp, metis length_map)
  then have "buffer (clients s2 ! i) = after_newline pending" using 2(2,4) by simp
  then show ?case using 2(1,2) length_after_newline by simp
qed simp

declare process_lines.simps [simp del]

text \<open>
  \<open>recv\<close> on the client's socket: \<open>None\<close> is an error, the empty string the end of the
  stream, otherwise at most the 4096 bytes that fit the buffer.
\<close>

definition append_bytes :: "nat \<Rightarrow> cpp_string \<Rightarrow> MonitorServer \<Rightarrow> MonitorServer" where
  "append_bytes i bs s = set_buffer i (buffer (clients s ! i) @ bs) s"

definition read_client ::
    "env \<Rightarrow> nat \<Rightarrow> cpp_string option \<Rightarrow> MonitorServer \<Rightarrow> (bool \<times> MonitorServer) result" where
  "read_client env i received s =
     (case received of
        None \<Rightarrow> Inr (False, s)
      | Some data \<Rightarrow>
          (let bytes = take 4096 data in
           if bytes = [] then Inr (False, s)
           else and_then (process_lines env i (append_bytes i bytes s)) (\<lambda>s'. Inr (True, s'))))"

section \<open>One iteration of run\<close>

text \<open>
  What the kernel reports in one iteration: the result of \<^verbatim>\<open>select\<close> (with the two
  sets as predicates), of \<^verbatim>\<open>accept\<close> and of \<^verbatim>\<open>recv\<close> per socket.
\<close>

record poll =
  ready :: int
  interrupted :: bool
  readable :: "socket_t \<Rightarrow> bool"
  exceptional :: "socket_t \<Rightarrow> bool"
  accept_ret :: socket_t
  accept_host :: "cpp_string option"
  accept_port :: nat
  recv_ret :: "socket_t \<Rightarrow> cpp_string option"

definition FD_SETSIZE :: int where
  "FD_SETSIZE = 1024"

definition watched :: "MonitorServer \<Rightarrow> socket_t list" where
  "watched s = listen_fd s # map fd (clients s)"

text \<open>
  \<^verbatim>\<open>FD_SET\<close> and \<^verbatim>\<open>FD_ISSET\<close> address a bit of a fixed array:
  outside it the behaviour is undefined, before \<^verbatim>\<open>select\<close> for the clients there
  were, after it for one that was just accepted.
\<close>

definition fd_sets_ok :: "MonitorServer \<Rightarrow> bool" where
  "fd_sets_ok s \<longleftrightarrow> list_all (\<lambda>f. 0 \<le> f \<and> f < FD_SETSIZE) (watched s)"

text \<open>
  \<^verbatim>\<open>select\<close> leaves in a set only descriptors that were put into it, and none on a
  timeout.
\<close>

definition FD_ISSET :: "poll \<Rightarrow> (socket_t \<Rightarrow> bool) \<Rightarrow> socket_t list \<Rightarrow> socket_t \<Rightarrow> bool" where
  "FD_ISSET p sel fds f \<longleftrightarrow> 0 < ready p \<and> f \<in> set fds \<and> sel f"

text \<open>
  \<^verbatim>\<open>endpoint_label\<close>: the text \<^verbatim>\<open>inet_ntoa\<close> gives for the
  address (\<open>None\<close> its null pointer) and the port.
\<close>

definition endpoint_label :: "cpp_string option \<Rightarrow> nat \<Rightarrow> cpp_string" where
  "endpoint_label host port =
     (case host of Some h \<Rightarrow> h @ '':'' @ nat_to_string port | None \<Rightarrow> ''unknown-peer'')"

definition accept_connection :: "poll \<Rightarrow> MonitorServer \<Rightarrow> MonitorServer" where
  "accept_connection p s =
     (if \<not> is_socket_valid Posix (accept_ret p) then s
      else s\<lparr>net := open_socket (accept_ret p) (net s),
             clients := clients s @
             [\<lparr>fd = accept_ret p, role = Unknown,
               peer_label = endpoint_label (accept_host p) (accept_port p),
               declared_host = [], buffer = []\<rparr>]\<rparr>)"

fun scan_clients ::
    "env \<Rightarrow> poll \<Rightarrow> socket_t list \<Rightarrow> nat list \<Rightarrow> nat list \<Rightarrow> MonitorServer
       \<Rightarrow> (nat list \<times> MonitorServer) result" where
  "scan_clients env p fds [] disconnect s = Inr (disconnect, s)"
| "scan_clients env p fds (index # rest) disconnect s =
     (let f = fd (clients s ! index) in
      if FD_ISSET p (exceptional p) fds f
      then scan_clients env p fds rest (disconnect @ [index]) s
      else if FD_ISSET p (readable p) fds f
      then and_then (read_client env index (recv_ret p f) s) (\<lambda>(ok, s1).
             scan_clients env p fds rest (if ok then disconnect else disconnect @ [index]) s1)
      else scan_clients env p fds rest disconnect s)"

definition disconnect_client :: "nat \<Rightarrow> MonitorServer \<Rightarrow> MonitorServer" where
  "disconnect_client index s =
     s\<lparr>net := close_socket Posix (fd (clients s ! index)) (net s),
       clients := take index (clients s) @ drop (Suc index) (clients s)\<rparr>"

datatype loop_state = Continue MonitorServer | Break MonitorServer

definition run_iteration :: "env \<Rightarrow> poll \<Rightarrow> MonitorServer \<Rightarrow> loop_state result" where
  "run_iteration env p s =
     (if \<not> fd_sets_ok s then Inl Undefined_FD_SET
      else if ready p < 0 then Inr (if interrupted p then Continue s else Break s)
      else
        (let fds = watched s;
             s1 = (if FD_ISSET p (readable p) fds (listen_fd s) then accept_connection p s else s)
         in if \<not> fd_sets_ok s1 then Inl Undefined_FD_SET
            else and_then (scan_clients env p fds [0..<length (clients s1)] [] s1) (\<lambda>(disconnect, s2).
              Inr (Continue (fold disconnect_client (rev disconnect) s2)))))"

definition close_clients :: "ClientConnection list \<Rightarrow> world \<Rightarrow> world" where
  "close_clients cs w = fold (\<lambda>c. close_socket Posix (fd c)) cs w"

definition shutdown_all :: "MonitorServer \<Rightarrow> MonitorServer" where
  "shutdown_all s =
     (let w1 = close_clients (clients s) (net s);
          s1 = s\<lparr>clients := [], net := w1\<rparr>
      in if is_socket_valid Posix (listen_fd s1)
         then s1\<lparr>net := close_socket Posix (listen_fd s1) (net s1), listen_fd := invalid_socket Posix\<rparr>
         else s1)"

fun run :: "env \<Rightarrow> poll list \<Rightarrow> MonitorServer \<Rightarrow> MonitorServer result" where
  "run env [] s = Inr (shutdown_all s)"
| "run env (p # ps) s =
     and_then (run_iteration env p s) (\<lambda>l.
       case l of Continue s1 \<Rightarrow> run env ps s1 | Break s1 \<Rightarrow> Inr (shutdown_all s1))"

section \<open>start and main\<close>

text \<open>
  The answers of \<^verbatim>\<open>socket\<close>, of \<^verbatim>\<open>bind\<close> for a port and of
  \<^verbatim>\<open>listen\<close>.
\<close>

record start_calls =
  socket_ret :: socket_t
  bind_ret :: "int \<Rightarrow> int"
  listen_ret :: int

definition initial_server :: MonitorServer where
  "initial_server =
     \<lparr>listen_fd = invalid_socket Posix, clients = [], latest_metrics = [], alert_rules = [],
      active_alerts = [], net = initial_world\<rparr>"

text \<open>\<^verbatim>\<open>htons(static_cast<unsigned short>(port_))\<close>: the low 16 bits of the port.\<close>

definition bound_port :: "int \<Rightarrow> int" where
  "bound_port port = port mod 2 ^ 16"

definition start :: "start_calls \<Rightarrow> int \<Rightarrow> MonitorServer \<Rightarrow> bool \<times> MonitorServer" where
  "start c port s =
     (let s1 = s\<lparr>listen_fd := socket_ret c,
                  net := (if is_socket_valid Posix (socket_ret c) then open_socket (socket_ret c) (net s)
                          else net s)\<rparr>;
          failed = s1\<lparr>net := close_socket Posix (listen_fd s1) (net s1),
                       listen_fd := invalid_socket Posix\<rparr>
      in if \<not> is_socket_valid Posix (listen_fd s1) then (False, s1)
         else if bind_ret c (bound_port port) \<noteq> 0 then (False, failed)
         else if listen_ret c \<noteq> 0 then (False, failed)
         else (True, s1))"

definition server_port :: "cpp_string list \<Rightarrow> int" where
  "server_port argv = (if length argv > 1 then atoi (argv ! 1) else 9090)"

text \<open>The exit status and the last state, or how the process ended.\<close>

definition server_main ::
    "env \<Rightarrow> cpp_string list \<Rightarrow> int \<Rightarrow> start_calls \<Rightarrow> poll list
       \<Rightarrow> (int \<times> MonitorServer) result" where
  "server_main env argv wsa_startup c polls =
     (if \<not> socket_runtime_ok Posix wsa_startup then Inr (1, initial_server)
      else (let (ok, s) = start c (server_port argv) initial_server in
            if \<not> ok then Inr (1, s)
            else and_then (run env polls s) (\<lambda>s'. Inr (0, s'))))"

end
