(* ===== verification/Server_Framing.thy ===== *)
theory Server_Framing
  imports Server_Loop
begin

text \<open>
  Line framing. A TCP stream has no message boundaries: what one \<^verbatim>\<open>recv\<close> returns
  is an arbitrary piece of it. The locale \<open>framed_input\<close> is the contract between a loop
  that splits a buffer into lines and the handler it calls: the handler neither reads nor
  writes the buffer. Under it the loop handles exactly the complete lines, in order, and how
  the bytes were cut into pieces is not observable. The interpretation discharges the contract
  for \<open>process_lines\<close> and \<open>handle_line\<close>.
\<close>

section \<open>Lines\<close>

definition unlines :: "cpp_string list \<Rightarrow> cpp_string" where
  "unlines ls = concat (map (\<lambda>l. l @ [CHR_nl]) ls)"

abbreviation nl_free :: "cpp_string \<Rightarrow> bool" where
  "nl_free s \<equiv> CHR_nl \<notin> set s"

lemma unlines_simps [simp]: "unlines [] = []" "unlines (l # ls) = l @ CHR_nl # unlines ls"
  "unlines (ls @ ks) = unlines ls @ unlines ks"
  by (simp_all add: unlines_def)

lemma before_after_newline_append [simp]:
  "nl_free l \<Longrightarrow> before_newline (l @ CHR_nl # s) = l"
  "nl_free l \<Longrightarrow> after_newline (l @ CHR_nl # s) = s"
  unfolding before_newline_def after_newline_def
  by (auto simp: takeWhile_append2 dropWhile_append2 takeWhile_eq_all_conv)

lemma split_newline: "\<not> nl_free s \<Longrightarrow> \<exists>l t. s = l @ CHR_nl # t \<and> nl_free l"
  by (metis split_list_first)

lemma lines_exist: "\<exists>ls r. s = unlines ls @ r \<and> (\<forall>l \<in> set ls. nl_free l) \<and> nl_free r"
proof (induction s rule: length_induct)
  case (1 s)
  show ?case
  proof (cases "nl_free s")
    case True
    then show ?thesis by (intro exI [of _ "[]"] exI [of _ s]) simp
  next
    case False
    then obtain l t where s: "s = l @ CHR_nl # t" "nl_free l" using split_newline by blast
    then obtain ls r where "t = unlines ls @ r" "\<forall>l \<in> set ls. nl_free l" "nl_free r"
      using 1 [rule_format, of t] by auto
    with s show ?thesis by (intro exI [of _ "l # ls"] exI [of _ r]) simp
  qed
qed

section \<open>The contract\<close>

definition map_result :: "('a \<Rightarrow> 'b) \<Rightarrow> 'a result \<Rightarrow> 'b result" where
  "map_result f r = and_then r (\<lambda>x. Inr (f x))"

lemma map_result_simps [simp]: "map_result f (Inr x) = Inr (f x)" "map_result f (Inl e) = Inl e"
  by (simp_all add: map_result_def)

lemma map_result_eq: "map_result f r = r' \<Longrightarrow> r = Inr x \<Longrightarrow> r' = Inr (f x)"
  by auto

fun each_line :: "(cpp_string \<Rightarrow> 's \<Rightarrow> 's result) \<Rightarrow> cpp_string list \<Rightarrow> 's \<Rightarrow> 's result" where
  "each_line h [] s = Inr s"
| "each_line h (l # ls) s = and_then (h l s) (each_line h ls)"

lemma each_line_append: "each_line h (ls @ ks) s = and_then (each_line h ls s) (each_line h ks)"
proof (induction ls arbitrary: s)
  case (Cons l ls)
  then show ?case by (cases "h l s") simp_all
qed simp

locale framed_input =
  fixes valid :: "'s \<Rightarrow> bool"
    and get :: "'s \<Rightarrow> cpp_string"
    and put :: "cpp_string \<Rightarrow> 's \<Rightarrow> 's"
    and handle :: "cpp_string \<Rightarrow> 's \<Rightarrow> 's result"
    and process :: "'s \<Rightarrow> 's result"
  assumes valid_put: "valid (put b s) \<longleftrightarrow> valid s"
    and valid_handle: "valid s \<Longrightarrow> handle l s = Inr s' \<Longrightarrow> valid s'"
    and get_put: "valid s \<Longrightarrow> get (put b s) = b"
    and put_get: "put (get s) s = s"
    and put_put: "put b (put c s) = put b s"
    and handle_put: "handle l (put b s) = map_result (put b) (handle l s)"
    and process_step: "valid s \<Longrightarrow> \<not> nl_free (get s) \<Longrightarrow>
       process s = and_then (handle (trim (before_newline (get s))) (put (after_newline (get s)) s)) process"
    and process_stop: "nl_free (get s) \<Longrightarrow> process s = Inr s"
begin

lemma put_handled: "handle l s = Inr s' \<Longrightarrow> s' = put (get s) s'"
  using handle_put [of l "get s" s] by (simp add: put_get)

lemma get_handled: "valid s \<Longrightarrow> handle l s = Inr s' \<Longrightarrow> get s' = get s"
  using put_handled valid_handle get_put by metis

lemma each_line_put: "each_line handle ls (put b s) = map_result (put b) (each_line handle ls s)"
proof (induction ls arbitrary: s)
  case (Cons l ls)
  then show ?case by (cases "handle l s") (simp_all add: handle_put)
qed simp

lemma valid_each_line: "valid s \<Longrightarrow> each_line handle ls s = Inr s' \<Longrightarrow> valid s'"
  by (induction ls arbitrary: s) (auto elim!: and_then_InrE intro: valid_handle)

text \<open>The loop is the handler run over the trimmed complete lines; the rest stays buffered.\<close>

lemma process_lines_spec:
  assumes "valid s" "get s = unlines ls @ r" "\<forall>l \<in> set ls. nl_free l" "nl_free r"
  shows "process s = map_result (put r) (each_line handle (map trim ls) s)"
  using assms
proof (induction ls arbitrary: s)
  case Nil
  then show ?case using put_get [of s] process_stop [of s] by simp
next
  case (Cons l ls)
  let ?rest = "unlines ls @ r"
  have step: "process s = and_then (handle (trim l) (put ?rest s)) process"
    using process_step [of s] Cons.prems by simp
  show ?case
  proof (cases "handle (trim l) s")
    case (Inr s1)
    have v: "valid (put ?rest s1)" using valid_handle [OF Cons.prems(1) Inr] by (simp add: valid_put)
    have "process (put ?rest s1) = map_result (put r) (each_line handle (map trim ls) (put ?rest s1))"
      using Cons.IH [OF v] Cons.prems get_put valid_put v by auto
    also have "\<dots> = map_result (put r) (each_line handle (map trim ls) s1)"
      by (cases "each_line handle (map trim ls) s1") (simp_all add: each_line_put put_put)
    finally show ?thesis by (simp add: step Inr handle_put)
  qed (simp add: step handle_put)
qed

text \<open>Bytes that arrive after the loop has run have the effect they would have had before it.\<close>

lemma process_append:
  assumes "valid s"
  shows "process (put (get s @ b) s) = and_then (process s) (\<lambda>s'. process (put (get s' @ b) s'))"
proof -
  obtain ls r where dec: "get s = unlines ls @ r" "\<forall>l \<in> set ls. nl_free l" "nl_free r"
    using lines_exist by blast
  obtain ks q where rest: "r @ b = unlines ks @ q" "\<forall>l \<in> set ks. nl_free l" "nl_free q"
    using lines_exist by blast
  have whole: "get (put (get s @ b) s) = unlines (ls @ ks) @ q"
    using dec rest by (simp add: get_put assms)
  have v: "valid (put (get s @ b) s)" using assms by (simp add: valid_put)
  have "process (put (get s @ b) s) =
      map_result (put q) (each_line handle (map trim (ls @ ks)) (put (get s @ b) s))"
    using process_lines_spec [OF v whole] dec rest by auto
  also have "\<dots> = map_result (put q) (each_line handle (map trim (ls @ ks)) s)"
    by (cases "each_line handle (map trim (ls @ ks)) s") (simp_all only: each_line_put map_result_simps put_put)
  finally have lhs: "process (put (get s @ b) s) =
      map_result (put q) (and_then (each_line handle (map trim ls) s) (each_line handle (map trim ks)))"
    by (simp add: each_line_append)
  have mid: "process s = map_result (put r) (each_line handle (map trim ls) s)"
    by (rule process_lines_spec [OF assms dec])
  show ?thesis
  proof (cases "each_line handle (map trim ls) s")
    case (Inr s1)
    have v1: "valid s1" by (rule valid_each_line [OF assms Inr])
    then have "process (put (r @ b) s1) = map_result (put q) (each_line handle (map trim ks) (put (r @ b) s1))"
      using process_lines_spec [of "put (r @ b) s1" ks q] rest by (simp add: valid_put get_put)
    also have "\<dots> = map_result (put q) (each_line handle (map trim ks) s1)"
      by (cases "each_line handle (map trim ks) s1") (simp_all add: each_line_put put_put)
    finally show ?thesis using v1 by (simp add: lhs mid Inr put_put get_put)
  qed (simp add: lhs mid)
qed

end

section \<open>Handlers ignore the buffers\<close>

lemma dashboards_set_buffer [simp]: "dashboards (cs[i := (cs ! i)\<lparr>buffer := b\<rparr>]) = dashboards cs"
proof -
  have "map (\<lambda>c. (fd c, role c)) (cs[i := (cs ! i)\<lparr>buffer := b\<rparr>]) = map (\<lambda>c. (fd c, role c)) cs"
    by (rule map_list_update_same) simp
  moreover have "dashboards xs = map fst (filter (\<lambda>m. snd m = Dashboard) (map (\<lambda>c. (fd c, role c)) xs))" for xs
    by (induction xs) (simp_all add: dashboards_def)
  ultimately show ?thesis by metis
qed

lemma set_buffer_fields [simp]:
  "listen_fd (set_buffer i b s) = listen_fd s"
  "latest_metrics (set_buffer i b s) = latest_metrics s"
  "alert_rules (set_buffer i b s) = alert_rules s"
  "active_alerts (set_buffer i b s) = active_alerts s"
  "net (set_buffer i b s) = net s"
  by (simp_all add: set_buffer_def set_client_def)

lemma server_eqI:
  fixes s t :: MonitorServer
  assumes "listen_fd s = listen_fd t" "clients s = clients t" "latest_metrics s = latest_metrics t"
    "alert_rules s = alert_rules t" "active_alerts s = active_alerts t" "net s = net t"
  shows "s = t"
  using assms by simp

lemma set_buffer_same [simp]: "set_buffer i (buffer (clients s ! i)) s = s"
  by (simp add: set_buffer_def set_client_def)

lemma set_buffer_beyond: "\<not> i < length (clients s) \<Longrightarrow> set_buffer i b s = s"
  by (simp add: set_buffer_def set_client_def list_update_beyond not_less)

lemma set_buffer_twice [simp]: "set_buffer i b (set_buffer i c s) = set_buffer i b s"
proof (cases "i < length (clients s)")
  case True
  then show ?thesis by (simp add: set_buffer_def set_client_def)
qed (simp add: set_buffer_beyond)

lemma server_send_set_buffer [commutes]: "server_send env f p (set_buffer i b s) = set_buffer i b (server_send env f p s)"
  by (rule server_eqI) (simp_all add: server_send_def)

lemma broadcast_set_buffer [commutes]:
  "broadcast_to_dashboards env p (set_buffer i b s) = set_buffer i b (broadcast_to_dashboards env p s)"
  by (rule server_eqI) (simp_all add: broadcast_to_dashboards_def send_each_dashboards)

lemma clock_set_buffer [commutes]:
  "server_clock env (set_buffer i b s) = (fst (server_clock env s), set_buffer i b (snd (server_clock env s)))"
  by (simp add: server_clock_def read_clock_def set_buffer_def set_client_def)

lemma update_set_buffer [commutes]:
  "(set_buffer i b s)\<lparr>active_alerts := a\<rparr> = set_buffer i b (s\<lparr>active_alerts := a\<rparr>)"
  "(set_buffer i b s)\<lparr>latest_metrics := m\<rparr> = set_buffer i b (s\<lparr>latest_metrics := m\<rparr>)"
  "(set_buffer i b s)\<lparr>alert_rules := r\<rparr> = set_buffer i b (s\<lparr>alert_rules := r\<rparr>)"
  by (rule server_eqI; simp)+

lemma evaluate_rule_set_buffer [commutes]:
  "evaluate_rule env m r (set_buffer i b s) = set_buffer i b (evaluate_rule env m r s)"
  by (simp add: evaluate_rule_def Let_def case_prod_unfold commutes)

lemma fold_evaluate_set_buffer [commutes]:
  "fold (evaluate_rule env m) rs (set_buffer i b s) = set_buffer i b (fold (evaluate_rule env m) rs s)"
  by (induction rs arbitrary: s) (simp_all add: commutes)

lemma store_metric_set_buffer [commutes]: "store_metric env m (set_buffer i b s) = set_buffer i b (store_metric env m s)"
  by (simp add: store_metric_def evaluate_rules_def Let_def commutes)

lemma register_rule_set_buffer [commutes]:
  "register_rule env f r (set_buffer i b s) = set_buffer i b (register_rule env f r s)"
  by (simp add: register_rule_def Let_def case_prod_unfold commutes)

lemma handle_command_set_buffer [commutes]:
  "handle_command env f t (set_buffer i b s) = map_result (set_buffer i b) (handle_command env f t s)"
  by (cases "parse_alert_command t")
    (simp_all add: handle_command_def Let_def commutes split: option.split)

lemma nth_set_buffer [simp]: "i < length (clients s) \<Longrightarrow>
    clients (set_buffer i b s) ! i = (clients s ! i)\<lparr>buffer := b\<rparr>"
  by simp

lemma set_client_set_buffer [commutes]: "i < length (clients s) \<Longrightarrow>
    set_client i (c\<lparr>buffer := b\<rparr>) (set_buffer i b s) = set_buffer i b (set_client i c s)"
  by (simp add: set_buffer_def set_client_def)

lemma set_client_update_buffer:
  assumes "i < length (clients s)"
  shows "set_client i (c\<lparr>buffer := b, declared_host := h, role := r\<rparr>) (set_buffer i b s) =
    set_buffer i b (set_client i (c\<lparr>declared_host := h, role := r\<rparr>) s)"
proof -
  have "c\<lparr>buffer := b, declared_host := h, role := r\<rparr> = (c\<lparr>declared_host := h, role := r\<rparr>)\<lparr>buffer := b\<rparr>"
    by simp
  then show ?thesis by (simp only: set_client_set_buffer [OF assms])
qed

lemma handle_register_set_buffer [commutes]:
  "i < length (clients s) \<Longrightarrow>
   handle_register env i line (set_buffer i b s) = set_buffer i b (handle_register env i line s)"
  by (simp add: handle_register_def Let_def case_prod_unfold set_client_update_buffer commutes
      del: set_buffer_clients)

lemma handle_chat_set_buffer [commutes]:
  "i < length (clients s) \<Longrightarrow> handle_chat env i line (set_buffer i b s) = set_buffer i b (handle_chat env i line s)"
  by (simp add: handle_chat_def Let_def case_prod_unfold commutes del: set_buffer_clients)

lemma handle_metrics_set_buffer [commutes]:
  assumes "i < length (clients s)"
  shows "handle_metrics env i line (set_buffer i b s) = map_result (set_buffer i b) (handle_metrics env i line s)"
  using assms
  by (cases "parse_metrics line (declared_host (clients s ! i)) (iso_timestamp (fst (server_clock env s)))")
    (simp_all add: handle_metrics_def Let_def case_prod_unfold commutes del: set_buffer_clients clock_frame(1))

lemma handle_line_set_buffer [commutes]:
  "handle_line env i line (set_buffer i b s) = map_result (set_buffer i b) (handle_line env i line s)"
proof (cases "i < length (clients s)")
  case True
  then show ?thesis by (simp add: handle_line_def Let_def commutes del: set_buffer_clients)
next
  case False
  then show ?thesis
    by (cases "handle_line env i line s") (simp_all add: set_buffer_beyond handle_line_length)
qed

lemma handle_if_nonempty_set_buffer [commutes]:
  "handle_if_nonempty env i line (set_buffer i b s) = map_result (set_buffer i b) (handle_if_nonempty env i line s)"
  by (simp add: handle_if_nonempty_def commutes)

lemma handle_if_nonempty_length:
  "handle_if_nonempty env i line s = Inr s' \<Longrightarrow> length (clients s') = length (clients s)"
  by (auto simp: handle_if_nonempty_def handle_line_length split: if_splits)

interpretation conn: framed_input "\<lambda>s. i < length (clients s)" "\<lambda>s. buffer (clients s ! i)"
    "set_buffer i" "handle_if_nonempty env i" "process_lines env i" for env i
proof (unfold_locales, goal_cases)
  case (2 s l s')
  then show ?case by (simp add: handle_if_nonempty_length)
next
  case (7 s)
  then show ?case by (subst process_lines.simps) (simp add: Let_def)
next
  case (8 s)
  then show ?case by (subst process_lines.simps) (simp add: Let_def)
qed (simp_all add: commutes)

lemma each_line_nonempty:
  "each_line (handle_if_nonempty env i) ls s = each_line (handle_line env i) (filter (\<lambda>l. l \<noteq> []) ls) s"
proof (induction ls arbitrary: s)
  case (Cons l ls)
  then show ?case by (cases "handle_line env i l s") (simp_all add: handle_if_nonempty_def)
qed simp

lemma append_bytes_simps [simp]:
  "append_bytes i [] s = s"
  "length (clients (append_bytes i bs s)) = length (clients s)"
  "i < length (clients s) \<Longrightarrow> buffer (clients (append_bytes i bs s) ! i) = buffer (clients s ! i) @ bs"
  "i < length (clients s) \<Longrightarrow> append_bytes i b (append_bytes i a s) = append_bytes i (a @ b) s"
  by (simp_all add: append_bytes_def)

lemma process_lines_append:
  "i < length (clients s) \<Longrightarrow> process_lines env i (append_bytes i b s) =
     and_then (process_lines env i s) (\<lambda>s'. process_lines env i (append_bytes i b s'))"
  using conn.process_append [of i s env b] by (simp add: append_bytes_def)

lemma process_lines_length:
  "i < length (clients s) \<Longrightarrow> process_lines env i s = Inr s' \<Longrightarrow> length (clients s') = length (clients s)"
proof (induction env i s rule: process_lines.induct)
  case (1 env i s)
  show ?case
  proof (cases "nl_free (buffer (clients s ! i))")
    case True
    then show ?thesis using 1 by (simp add: process_lines.simps [of env i s])
  next
    case False
    let ?pending = "buffer (clients s ! i)"
    obtain s1 where s1: "handle_if_nonempty env i (trim (before_newline ?pending))
        (set_buffer i (after_newline ?pending) s) = Inr s1" and s': "process_lines env i s1 = Inr s'"
      using 1 False by (auto simp: process_lines.simps [of env i s] Let_def elim!: and_then_InrE)
    then have "length (clients s1) = length (clients s)" using handle_if_nonempty_length [OF s1] by simp
    then show ?thesis using 1(1) [OF refl _ refl refl s1] 1(2) False s' by simp
  qed
qed

section \<open>What read\_client does\<close>

text \<open>
  C19: One call of \<open>read_client\<close> that receives data appends it to the client's buffer, runs
  \<open>handle_line\<close> on every complete line of the buffer in order, each line trimmed and blank lines
  skipped, and keeps the unterminated rest as the new buffer. The call reports success, or the
  process ends where a handler ends it.
\<close>

theorem read_client_lines:
  assumes "i < length (clients s)"
    and "bytes \<noteq> []" and "length bytes \<le> 4096"
    and "buffer (clients s ! i) @ bytes = unlines ls @ r"
    and "\<forall>l \<in> set ls. nl_free l" and "nl_free r"
  shows "read_client env i (Some bytes) s =
    and_then (each_line (handle_line env i) (filter (\<lambda>l. l \<noteq> []) (map trim ls)) s)
      (\<lambda>s'. Inr (True, set_buffer i r s'))"
proof -
  let ?h = "each_line (handle_if_nonempty env i) (map trim ls)"
  have "process_lines env i (append_bytes i bytes s) = map_result (set_buffer i r) (?h (append_bytes i bytes s))"
    using assms by (intro conn.process_lines_spec) simp_all
  also have "?h (append_bytes i bytes s) = map_result (set_buffer i (buffer (clients s ! i) @ bytes)) (?h s)"
    unfolding append_bytes_def by (rule conn.each_line_put)
  finally have "process_lines env i (append_bytes i bytes s) = map_result (set_buffer i r) (?h s)"
    by (cases "?h s") simp_all
  then show ?thesis using assms(2,3)
    by (cases "?h s") (simp_all add: read_client_def each_line_nonempty)
qed

text \<open>Successive reads of the same connection; a failed one would disconnect it.\<close>

fun read_chunks :: "env \<Rightarrow> nat \<Rightarrow> cpp_string list \<Rightarrow> MonitorServer \<Rightarrow> MonitorServer result" where
  "read_chunks env i [] s = Inr s"
| "read_chunks env i (chunk # chunks) s =
     and_then (read_client env i (Some chunk) s) (\<lambda>(ok, s'). read_chunks env i chunks s')"

definition recv_chunk :: "cpp_string \<Rightarrow> bool" where
  "recv_chunk bs \<longleftrightarrow> bs \<noteq> [] \<and> length bs \<le> 4096"

lemma read_chunks_whole:
  assumes "i < length (clients s)" and "\<forall>c \<in> set chunks. recv_chunk c" and "nl_free (buffer (clients s ! i))"
  shows "read_chunks env i chunks s = process_lines env i (append_bytes i (concat chunks) s)"
proof -
  have "i < length (clients s) \<Longrightarrow> \<forall>c \<in> set chunks. recv_chunk c \<Longrightarrow>
      and_then (process_lines env i s) (read_chunks env i chunks) =
      process_lines env i (append_bytes i (concat chunks) s)" for s
  proof (induction chunks arbitrary: s)
    case (Cons c chunks)
    have step: "read_chunks env i (c # chunks) t =
        and_then (process_lines env i (append_bytes i c t)) (read_chunks env i chunks)" for t
      using Cons.prems by (cases "process_lines env i (append_bytes i c t)")
        (simp_all add: read_client_def recv_chunk_def)
    have "and_then (process_lines env i s) (read_chunks env i (c # chunks)) =
        and_then (and_then (process_lines env i s) (\<lambda>t. process_lines env i (append_bytes i c t)))
          (read_chunks env i chunks)"
      by (cases "process_lines env i s") (simp_all only: step and_then.simps)
    also have "\<dots> = and_then (process_lines env i (append_bytes i c s)) (read_chunks env i chunks)"
      using Cons.prems by (simp add: process_lines_append)
    finally show ?case using Cons by (simp del: read_chunks.simps)
  next
    case Nil
    then show ?case by (cases "process_lines env i s") simp_all
  qed
  moreover have "process_lines env i s = Inr s" using assms(3) by (rule conn.process_stop)
  ultimately show ?thesis using assms(1,2) by (metis and_then.simps(2))
qed

text \<open>
  C10: How TCP cuts the bytes of a connection into pieces is not observable. Two sequences of
  reads that deliver the same bytes, each read getting between 1 and 4096 of them, leave the
  server in the same state with the same output, or end the process in the same way.
\<close>

theorem read_chunks_independent:
  assumes "i < length (clients s)" and "nl_free (buffer (clients s ! i))"
    and "\<forall>c \<in> set chunks. recv_chunk c" and "\<forall>c \<in> set chunks'. recv_chunk c"
    and "concat chunks = concat chunks'"
  shows "read_chunks env i chunks s = read_chunks env i chunks' s"
  using assms by (simp add: read_chunks_whole)

section \<open>Examples\<close>

theorem read_client_lines_example:
  "read_client steady_env 0 (Some (''a'' @ [CHR_cr, CHR_nl, CHR_nl] @ ''{b'')) (sample_server Agent) =
     and_then (each_line (handle_line steady_env 0) [''a''] (sample_server Agent))
       (\<lambda>s'. Inr (True, set_buffer 0 ''{b'' s'))"
  using read_client_lines [of 0 "sample_server Agent" "''a'' @ [CHR_cr, CHR_nl, CHR_nl] @ ''{b''"
      "[''a'' @ [CHR_cr], []]" "''{b''" steady_env]
  by (simp add: sample_server_def sample_client_def trim_def isspace_def spaces_def)

theorem read_chunks_independent_example:
  "read_chunks steady_env 0 [''{}'', [CHR_nl]] (sample_server Dashboard) =
   read_chunks steady_env 0 [''{'', ''}'' @ [CHR_nl]] (sample_server Dashboard)"
  using read_chunks_independent [of 0 "sample_server Dashboard" "[''{}'', [CHR_nl]]" "[''{'', ''}'' @ [CHR_nl]]"
      steady_env]
  by (simp add: sample_server_def sample_client_def recv_chunk_def)

end
