(* ===== verification/Server_Alerts.thy ===== *)
theory Server_Alerts
  imports Server_Loop
begin

text \<open>
  The alert engine. The locale \<open>edge_trigger\<close> is the abstract contract: every pair of a
  source and a rule has a latch holding the last outcome of the rule for that source, and a
  rule fires on a rising edge of it. Inside the locale: which rules a list of evaluations fires
  (each at most once, in list order), and over a sequence of reports one alert per rising edge.
  The interpretation shows that \<open>evaluate_rule\<close>, whose latches are one unordered map over the
  concatenated key \<^verbatim>\<open>host + "|" + raw_command\<close>, is such an engine: the key is
  injective because a command text has no vertical bar.
\<close>

section \<open>Edge-triggered engines\<close>

text \<open>The elements of a list without repetitions, in the order of their first occurrence.\<close>

fun firsts :: "'a list \<Rightarrow> 'a list" where
  "firsts [] = []"
| "firsts (x # xs) = x # filter (\<lambda>y. y \<noteq> x) (firsts xs)"

lemma set_firsts [simp]: "set (firsts xs) = set xs"
  by (induction xs) auto

lemma distinct_firsts [simp]: "distinct (firsts xs)"
  by (induction xs) auto

text \<open>The number of rising edges of a signal that starts at \<open>b\<close>.\<close>

fun rising_edges :: "bool \<Rightarrow> bool list \<Rightarrow> nat" where
  "rising_edges b [] = 0"
| "rising_edges b (x # xs) = (if x \<and> \<not> b then 1 else 0) + rising_edges x xs"

locale edge_trigger =
  fixes ok :: "'r \<Rightarrow> bool"
    and source :: "'m \<Rightarrow> 'h"
    and matches :: "'m \<Rightarrow> 'r \<Rightarrow> bool"
    and latched :: "'s \<Rightarrow> 'h \<Rightarrow> 'r \<Rightarrow> bool"
    and out :: "'s \<Rightarrow> 'w"
    and emit :: "'m \<Rightarrow> 'r \<Rightarrow> 'w \<Rightarrow> 'w"
    and eval :: "'m \<Rightarrow> 'r \<Rightarrow> 's \<Rightarrow> 's"
  assumes out_eval: "ok r \<Longrightarrow> out (eval m r s) =
      (if matches m r \<and> \<not> latched s (source m) r then emit m r (out s) else out s)"
    and latched_eval: "ok r \<Longrightarrow> ok r' \<Longrightarrow> latched (eval m r s) h r' =
      (if h = source m \<and> r' = r then matches m r else latched s h r')"
begin

definition fires :: "'m \<Rightarrow> 's \<Rightarrow> 'r \<Rightarrow> bool" where
  "fires m s r \<longleftrightarrow> matches m r \<and> \<not> latched s (source m) r"

lemma latched_evals:
  assumes "\<forall>r \<in> set rs. ok r" and "ok r'"
  shows "latched (fold (eval m) rs s) h r' =
    (if h = source m \<and> r' \<in> set rs then matches m r' else latched s h r')"
  using assms by (induction rs arbitrary: s) (auto simp: latched_eval)

lemma out_evals:
  assumes "\<forall>r \<in> set rs. ok r"
  shows "out (fold (eval m) rs s) = fold (emit m) (filter (fires m s) (firsts rs)) (out s)"
  using assms
proof (induction rs arbitrary: s)
  case (Cons r rs)
  have "filter (fires m (eval m r s)) (firsts rs) = filter (fires m s) (filter (\<lambda>y. y \<noteq> r) (firsts rs))"
    unfolding filter_filter using Cons.prems
    by (intro filter_cong refl) (auto simp: fires_def latched_eval)
  moreover have "out (eval m r s) = (if fires m s r then emit m r (out s) else out s)"
    using Cons.prems by (simp add: out_eval fires_def)
  ultimately show ?case using Cons by simp
qed simp

text \<open>A sequence of reports under a fixed list of rules.\<close>

fun fired :: "'r list \<Rightarrow> 'm list \<Rightarrow> 's \<Rightarrow> ('m \<times> 'r) list" where
  "fired rs [] s = []"
| "fired rs (m # ms) s = map (Pair m) (filter (fires m s) (firsts rs)) @ fired rs ms (fold (eval m) rs s)"

lemma fold_emit_map: "fold (\<lambda>(m, r). emit m r) (map (Pair m) rs) w = fold (emit m) rs w"
  by (induction rs arbitrary: w) auto

lemma out_fired:
  assumes "\<forall>r \<in> set rs. ok r"
  shows "out (fold (\<lambda>m. fold (eval m) rs) ms s) = fold (\<lambda>(m, r). emit m r) (fired rs ms s) (out s)"
  by (induction ms arbitrary: s) (simp_all add: fold_emit_map out_evals [OF assms])

lemma fired_members: "(m, r) \<in> set (fired rs ms s) \<Longrightarrow> m \<in> set ms \<and> r \<in> set rs \<and> matches m r"
  by (induction ms arbitrary: s) (auto simp: fires_def)

lemma count_firsts:
  assumes "r \<in> set rs"
  shows "length (filter (\<lambda>x. x = r \<and> P x) (firsts rs)) = (if P r then 1 else 0)"
proof -
  have "filter (\<lambda>x. x = r \<and> P x) (firsts rs) = (if P r then filter (\<lambda>x. x = r) (firsts rs) else [])"
    by (auto intro: filter_cong)
  moreover have "length (filter (\<lambda>x. x = r) (firsts rs)) = 1"
  proof -
    have "set (filter (\<lambda>x. x = r) (firsts rs)) = {r}" using assms by auto
    then show ?thesis
      using distinct_card [of "filter (\<lambda>x. x = r) (firsts rs)"] by (simp del: set_filter)
  qed
  ultimately show ?thesis by simp
qed

lemma count_fired:
  assumes "\<forall>r \<in> set rs. ok r" and "r \<in> set rs"
  shows "length (filter (\<lambda>(m, x). source m = h \<and> x = r) (fired rs ms s)) =
    rising_edges (latched s h r) (map (\<lambda>m. matches m r) (filter (\<lambda>m. source m = h) ms))"
proof (induction ms arbitrary: s)
  case (Cons m ms)
  have "length (filter ((\<lambda>(m, x). source m = h \<and> x = r) \<circ> Pair m) (filter (fires m s) (firsts rs))) =
      (if source m = h \<and> fires m s r then 1 else 0)"
    using count_firsts [OF assms(2), of "\<lambda>x. source m = h \<and> fires m s x"]
    by (simp add: comp_def conj_ac)
  moreover have "latched (fold (eval m) rs s) h r = (if h = source m then matches m r else latched s h r)"
    using assms by (simp add: latched_evals)
  ultimately show ?case using Cons by (auto simp: filter_map fires_def)
qed simp

end

section \<open>The server's engine\<close>

lemma dedupe_key_inj:
  assumes "CHR ''|'' \<notin> set raw" and "CHR ''|'' \<notin> set raw'"
  shows "dedupe_key host raw = dedupe_key host' raw' \<longleftrightarrow> host = host' \<and> raw = raw'"
proof
  assume eq: "dedupe_key host raw = dedupe_key host' raw'"
  have key: "takeWhile (\<lambda>c. c \<noteq> CHR ''|'') (rev (dedupe_key h t)) = rev t"
      "dropWhile (\<lambda>c. c \<noteq> CHR ''|'') (rev (dedupe_key h t)) = CHR ''|'' # rev h"
    if "CHR ''|'' \<notin> set t" for h t
    using that by (simp_all add: dedupe_key_def)
  show "host = host' \<and> raw = raw'"
    using key [OF assms(1), of host] key [OF assms(2), of host'] by (simp add: eq)
qed simp

definition latched :: "MonitorServer \<Rightarrow> cpp_string \<Rightarrow> cpp_string \<Rightarrow> bool" where
  "latched s host raw \<longleftrightarrow> map_of (active_alerts s) (dedupe_key host raw) = Some True"

definition alert_message :: "env \<Rightarrow> MetricSnapshot \<Rightarrow> AlertRule \<Rightarrow> world \<Rightarrow> cpp_string" where
  "alert_message env m r w = alert_event_to_json (make_alert m r (fst (read_clock env w)))"

text \<open>Announcing one alert: the clock is read and the message goes to the dashboards.\<close>

definition announce ::
    "env \<Rightarrow> MetricSnapshot \<Rightarrow> AlertRule \<Rightarrow> socket_t list \<times> world \<Rightarrow> socket_t list \<times> world" where
  "announce env m r = (\<lambda>(fds, w). (fds, send_all env (alert_message env m r w) fds (snd (read_clock env w))))"

definition audience :: "MonitorServer \<Rightarrow> socket_t list \<times> world" where
  "audience s = (dashboards (clients s), net s)"

lemma wf_rule_raw_eq: "wf_rule r \<Longrightarrow> wf_rule r' \<Longrightarrow> raw_command r = raw_command r' \<longleftrightarrow> r = r'"
  unfolding wf_rule_def by (metis option.inject sum.inject(2))

lemma evaluate_rule_audience:
  "audience (evaluate_rule env m r s) =
     (if rule_matches r m \<and> \<not> latched s (ms_host m) (raw_command r)
      then announce env m r (audience s) else audience s)"
  by (simp add: evaluate_rule_def Let_def case_prod_unfold audience_def announce_def latched_def
      broadcast_net alert_message_def server_clock_def read_clock_def)

lemma evaluate_rule_latched:
  assumes "wf_rule r" and "CHR ''|'' \<notin> set raw"
  shows "latched (evaluate_rule env m r s) h raw =
    (if h = ms_host m \<and> raw = raw_command r then rule_matches r m else latched s h raw)"
  using dedupe_key_inj [OF wf_ruleD(1) [OF assms(1)] assms(2), of "ms_host m" h]
  by (auto simp: evaluate_rule_def Let_def case_prod_unfold latched_def umap.lookup_assign)

interpretation alerts: edge_trigger wf_rule ms_host "\<lambda>m r. rule_matches r m"
    "\<lambda>s h r. latched s h (raw_command r)" audience "announce env" "evaluate_rule env" for env
proof (unfold_locales, goal_cases)
  case (1 r m s)
  then show ?case by (simp add: evaluate_rule_audience)
next
  case (2 r r' m s h)
  then show ?case using wf_ruleD(1) [OF 2(2)] by (auto simp: evaluate_rule_latched wf_rule_raw_eq)
qed

section \<open>What the server announces\<close>

text \<open>
  When a report is evaluated, the dashboards are sent one alert for every rule that matches
  the report and did not match the previous report of the same host, in the order in which the
  rules were registered; a rule registered twice is announced once; nothing else is sent.
\<close>

lemma evaluate_rules_announces:
  assumes "\<forall>r \<in> set (alert_rules s). wf_rule r"
  shows "audience (evaluate_rules env m s) =
    fold (announce env m)
      (filter (\<lambda>r. rule_matches r m \<and> \<not> latched s (ms_host m) (raw_command r)) (firsts (alert_rules s)))
      (audience s)"
  using alerts.out_evals [OF assms, of env m s] unfolding evaluate_rules_def alerts.fires_def .

text \<open>
  After a report, the latch of every registered rule for that host is whether the rule
  matches the report; the latches of other hosts are as they were, even where host names
  contain the separator of the key.
\<close>

lemma evaluate_rules_latches:
  assumes "\<forall>r \<in> set (alert_rules s). wf_rule r" and "wf_rule r"
  shows "latched (evaluate_rules env m s) h (raw_command r) =
    (if h = ms_host m \<and> r \<in> set (alert_rules s) then rule_matches r m
     else latched s h (raw_command r))"
  unfolding evaluate_rules_def by (rule alerts.latched_evals [OF assms])

lemma evaluate_rules_sequence:
  "fold (evaluate_rules env) ms s = fold (\<lambda>m. fold (evaluate_rule env m) (alert_rules s)) ms s"
proof -
  have "alert_rules s = rs \<Longrightarrow>
      fold (evaluate_rules env) ms s = fold (\<lambda>m. fold (evaluate_rule env m) rs) ms s" for rs
    by (induction ms arbitrary: s) (simp_all add: evaluate_rules_def)
  then show ?thesis by simp
qed

text \<open>
  C5: Over any sequence of reports of any hosts, the number of alerts announced for a host and
  a rule is the number of times the rule's condition becomes true for that host: no alert is
  repeated while the condition persists, none is lost, and it fires again after it has cleared.
  Every alert announced belongs to a report and a rule that matched.
\<close>

theorem alerts_are_rising_edges:
  assumes "\<forall>r \<in> set (alert_rules s). wf_rule r"
  shows "\<exists>fired. audience (fold (evaluate_rules env) ms s) =
      fold (\<lambda>(m, r). announce env m r) fired (audience s) \<and>
    (\<forall>(m, r) \<in> set fired. m \<in> set ms \<and> r \<in> set (alert_rules s) \<and> rule_matches r m) \<and>
    (\<forall>h. \<forall>r \<in> set (alert_rules s).
       length (filter (\<lambda>(m, x). ms_host m = h \<and> x = r) fired) =
       rising_edges (latched s h (raw_command r))
         (map (rule_matches r) (filter (\<lambda>m. ms_host m = h) ms)))"
proof (intro exI [of _ "alerts.fired env (alert_rules s) ms s"] conjI allI ballI)
  show "audience (fold (evaluate_rules env) ms s) =
      fold (\<lambda>(m, r). announce env m r) (alerts.fired env (alert_rules s) ms s) (audience s)"
    using alerts.out_fired [OF assms] by (simp add: evaluate_rules_sequence)
next
  fix x assume "x \<in> set (alerts.fired env (alert_rules s) ms s)"
  then show "case x of (m, r) \<Rightarrow> m \<in> set ms \<and> r \<in> set (alert_rules s) \<and> rule_matches r m"
    by (auto dest: alerts.fired_members split: prod.splits)
next
  fix h r assume "r \<in> set (alert_rules s)"
  then show "length (filter (\<lambda>(m, x). ms_host m = h \<and> x = r) (alerts.fired env (alert_rules s) ms s)) =
      rising_edges (latched s h (raw_command r)) (map (rule_matches r) (filter (\<lambda>m. ms_host m = h) ms))"
    using alerts.count_fired [OF assms] by simp
qed

text \<open>
  C28: A client that has not registered as an agent cannot change the metrics the server keeps
  or the state of any alert, whatever line it sends.
\<close>

theorem only_agents_report:
  assumes "handle_line env i line s = Inr s'" and "role (clients s ! i) \<noteq> Agent"
  shows "latest_metrics s' = latest_metrics s \<and> active_alerts s' = active_alerts s"
  using assms(1)
proof (cases rule: handle_line_cases)
  case (metrics metric)
  then show ?thesis using assms(2) by simp
next
  case (command t)
  then show ?thesis by (cases rule: handle_command_cases) simp_all
qed simp_all

section \<open>Examples\<close>

definition cpu_rule :: AlertRule where
  "cpu_rule = \<lparr>raw_command = ''/alert CPU>80%'', rule_metric_key = ''cpu_percent'',
     rule_display_metric = ''CPU'', rule_threshold = dbl_of_nat 80, comparison = CHR ''>''\<rparr>"

definition cpu_report :: "cpp_string \<Rightarrow> nat \<Rightarrow> MetricSnapshot" where
  "cpu_report host load = default_MetricSnapshot\<lparr>ms_host := host, cpu_percent := dbl_of_nat load\<rparr>"

definition alert_server :: MonitorServer where
  "alert_server = (sample_server Dashboard)\<lparr>alert_rules := [cpu_rule, cpu_rule]\<rparr>"

lemma alert_server_rules: "alert_rules alert_server = [cpu_rule, cpu_rule]"
  by (simp add: alert_server_def)

lemma cpu_rule_wf: "wf_rule cpu_rule"
  by code_simp

lemma cpu_rule_matches:
  "rule_matches cpu_rule (cpu_report ''web1'' 95)"
  "rule_matches cpu_rule (cpu_report ''web2'' 95)"
  "\<not> rule_matches cpu_rule (cpu_report ''web1'' 80)"
  by code_simp+

lemma cpu_rule_unlatched: "\<not> latched alert_server h raw"
  by (simp add: latched_def alert_server_def sample_server_def)

lemma evaluate_rules_announces_example:
  "audience (evaluate_rules steady_env (cpu_report ''web1'' 95) alert_server) =
     announce steady_env (cpu_report ''web1'' 95) cpu_rule (audience alert_server)"
  using evaluate_rules_announces [of alert_server steady_env "cpu_report ''web1'' 95"]
  by (simp add: alert_server_rules cpu_rule_wf cpu_rule_matches cpu_rule_unlatched)

lemma evaluate_rules_latches_example:
  "latched (evaluate_rules steady_env (cpu_report ''web1'' 95) alert_server) ''web1'' ''/alert CPU>80%'' \<and>
   \<not> latched (evaluate_rules steady_env (cpu_report ''web1'' 95) alert_server) ''web2'' ''/alert CPU>80%''"
proof -
  have host: "ms_host (cpu_report ''web1'' 95) = ''web1''" by (simp add: cpu_report_def)
  have raw: "raw_command cpu_rule = ''/alert CPU>80%''" by (simp add: cpu_rule_def)
  have wf: "\<forall>r \<in> set (alert_rules alert_server). wf_rule r" by (simp add: alert_server_rules cpu_rule_wf)
  show ?thesis
    using evaluate_rules_latches [OF wf cpu_rule_wf, of steady_env "cpu_report ''web1'' 95" "''web1''"]
      evaluate_rules_latches [OF wf cpu_rule_wf, of steady_env "cpu_report ''web1'' 95" "''web2''"]
    by (simp add: host raw alert_server_rules cpu_rule_matches cpu_rule_unlatched)
qed

theorem alerts_are_rising_edges_example:
  "\<exists>fired. audience (fold (evaluate_rules steady_env)
       [cpu_report ''web1'' 95, cpu_report ''web2'' 95, cpu_report ''web1'' 95, cpu_report ''web1'' 80,
        cpu_report ''web1'' 95] alert_server) =
      fold (\<lambda>(m, r). announce steady_env m r) fired (audience alert_server) \<and>
    length (filter (\<lambda>(m, x). ms_host m = ''web1'' \<and> x = cpu_rule) fired) = 2"
proof -
  let ?ms = "[cpu_report ''web1'' 95, cpu_report ''web2'' 95, cpu_report ''web1'' 95,
    cpu_report ''web1'' 80, cpu_report ''web1'' 95]"
  have host: "ms_host (cpu_report h n) = h" for h n by (simp add: cpu_report_def)
  have wf: "\<forall>r \<in> set (alert_rules alert_server). wf_rule r" by (simp add: alert_server_rules cpu_rule_wf)
  have edges: "rising_edges (latched alert_server ''web1'' (raw_command cpu_rule))
      (map (rule_matches cpu_rule) (filter (\<lambda>m. ms_host m = ''web1'') ?ms)) = 2"
    by (simp add: host cpu_rule_matches cpu_rule_unlatched)
  show ?thesis
    using alerts_are_rising_edges [OF wf, of steady_env ?ms] edges
    by (elim exE conjE) (intro exI conjI, assumption, simp add: alert_server_rules)
qed

theorem only_agents_report_example:
  "handle_line steady_env 0 ''{}'' (sample_server Dashboard) =
     Inr (server_send steady_env 5 (error_event_to_json ''unsupported message'') (sample_server Dashboard)) \<and>
   latest_metrics (server_send steady_env 5 (error_event_to_json ''unsupported message'')
     (sample_server Dashboard)) = []"
proof -
  have "str_field ''{}'' ''type'' [] = []" by code_simp
  then have line: "handle_line steady_env 0 ''{}'' (sample_server Dashboard) =
     Inr (server_send steady_env 5 (error_event_to_json ''unsupported message'') (sample_server Dashboard))"
    by (simp add: handle_line_def sample_server_def sample_client_def)
  then show ?thesis
    using only_agents_report [OF line] by (simp add: sample_server_def sample_client_def)
qed

end
