(* ===== verification/Server_Invariant.thy ===== *)
theory Server_Invariant
  imports Server_Framing Server_Alerts "HOL-Library.Multiset"
begin

text \<open>
  The invariant of the server and what one iteration of its loop does to the connections. The
  tables stay maps, a stored report is stored under its own host, every rule is one that
  parsing its own text gives back, no buffer holds a complete line, the sockets are distinct
  and valid, and the sockets the process has opened are those it has closed and those it still
  watches. \<open>srv\<close> interprets the transition systems of the prelude on \<open>run_iteration\<close>; the only
  assumption on the kernel is that \<^verbatim>\<open>accept\<close> does not return a descriptor that is
  open.
\<close>

section \<open>The invariant\<close>

definition tables_ok :: "MonitorServer \<Rightarrow> bool" where
  "tables_ok s \<longleftrightarrow>
     distinct_keys (latest_metrics s) \<and> distinct_keys (active_alerts s) \<and>
     (\<forall>(host, m) \<in> set (latest_metrics s). ms_host m = host) \<and>
     (\<forall>r \<in> set (alert_rules s). wf_rule r)"

definition balanced :: "MonitorServer \<Rightarrow> bool" where
  "balanced s \<longleftrightarrow> mset (opened (net s)) = mset (closed (net s)) + mset (watched s)"

definition sockets_ok :: "MonitorServer \<Rightarrow> bool" where
  "sockets_ok s \<longleftrightarrow> distinct (watched s) \<and> (\<forall>f \<in> set (watched s). is_socket_valid Posix f)"

definition buffers_ok :: "MonitorServer \<Rightarrow> bool" where
  "buffers_ok s \<longleftrightarrow> (\<forall>c \<in> set (clients s). nl_free (buffer c))"

definition server_ok :: "MonitorServer \<Rightarrow> bool" where
  "server_ok s \<longleftrightarrow> tables_ok s \<and> balanced s \<and> sockets_ok s \<and> buffers_ok s"

section \<open>Handlers\<close>

definition sockets :: "MonitorServer \<Rightarrow> socket_t list \<times> socket_t list" where
  "sockets s = (opened (net s), closed (net s))"

lemma sockets_sends [keeps, simp]:
  "sockets (server_send env f p s) = sockets s"
  "sockets (broadcast_to_dashboards env p s) = sockets s"
  "sockets (snd (server_clock env s)) = sockets s"
  by (simp_all add: sockets_def server_send_def broadcast_net keeps server_clock_def read_clock_def)

lemma sockets_updates [simp]:
  "sockets (s\<lparr>active_alerts := a\<rparr>) = sockets s"
  "sockets (s\<lparr>latest_metrics := m\<rparr>) = sockets s"
  "sockets (s\<lparr>alert_rules := r\<rparr>) = sockets s"
  "sockets (s\<lparr>clients := c\<rparr>) = sockets s"
  "sockets (set_buffer i b s) = sockets s"
  by (simp_all add: sockets_def)

lemma sockets_handlers [keeps, simp]:
  "sockets (evaluate_rule env m r s) = sockets s"
  "sockets (register_rule env f r s) = sockets s"
  "sockets (handle_register env i line s) = sockets s"
  "sockets (handle_chat env i line s) = sockets s"
  by (simp_all add: evaluate_rule_def register_rule_def handle_register_def handle_chat_def set_client_def
      Let_def case_prod_unfold)

lemma sockets_fold_evaluate [simp]: "sockets (fold (evaluate_rule env m) rs s) = sockets s"
  by (induction rs arbitrary: s) simp_all

lemma sockets_store_metric [keeps, simp]: "sockets (store_metric env m s) = sockets s"
  by (simp add: store_metric_def evaluate_rules_def)

lemma handle_line_sockets: "handle_line env i line s = Inr s' \<Longrightarrow> sockets s' = sockets s"
  by (erule handle_line_cases) (auto elim!: handle_command_cases)

lemma handle_line_watched: "handle_line env i line s = Inr s' \<Longrightarrow> watched s' = watched s"
  using handle_line_clients [of env i line s s' fd] by (simp add: watched_def handle_line_listen_fd)

lemma active_alerts_keys: "distinct_keys (active_alerts s) \<Longrightarrow> distinct_keys (active_alerts (fold (evaluate_rule env m) rs s))"
proof (induction rs arbitrary: s)
  case (Cons r rs)
  have "distinct_keys (active_alerts (evaluate_rule env m r s))"
    using Cons.prems by (simp add: evaluate_rule_def Let_def case_prod_unfold umap.invar_assign)
  then show ?case using Cons.IH by simp
qed simp

lemma store_metric_tables:
  assumes "tables_ok s"
  shows "tables_ok (store_metric env m s)"
proof -
  have "distinct_keys (active_alerts (store_metric env m s))"
    using assms by (simp add: store_metric_def evaluate_rules_def active_alerts_keys tables_ok_def)
  moreover have "\<forall>(host, x) \<in> set (AList.update (ms_host m) m (latest_metrics s)). ms_host x = host"
  proof -
    have "set (AList.update k v al) \<subseteq> insert (k, v) (set al)" for k :: cpp_string and v :: MetricSnapshot and al
      by (induction al) auto
    then show ?thesis using assms by (fastforce simp: tables_ok_def)
  qed
  ultimately show ?thesis using assms by (simp add: tables_ok_def umap.invar_assign)
qed

lemma tables_ok_cong:
  "latest_metrics s' = latest_metrics s \<Longrightarrow> active_alerts s' = active_alerts s \<Longrightarrow>
   alert_rules s' = alert_rules s \<Longrightarrow> tables_ok s' = tables_ok s"
  by (simp add: tables_ok_def)

lemma handle_line_tables:
  assumes "handle_line env i line s = Inr s'" and "tables_ok s"
  shows "tables_ok s'"
  using assms(1)
proof (cases rule: handle_line_cases)
  case (metrics metric)
  have "tables_ok (snd (server_clock env s))" using assms(2) by (simp cong: tables_ok_cong)
  then show ?thesis using metrics by (simp add: store_metric_tables)
next
  case (command t)
  then show ?thesis
  proof (cases rule: handle_command_cases)
    case (rule r)
    then show ?thesis using assms(2) parsed_rule_wf(1) [OF rule(1)] by (auto simp: tables_ok_def)
  qed (use assms(2) in \<open>simp cong: tables_ok_cong\<close>)
qed (use assms(2) in \<open>simp_all cong: tables_ok_cong\<close>)

section \<open>Reads\<close>

lemma each_line_preserves:
  assumes "\<And>line s s'. P s \<Longrightarrow> h line s = Inr s' \<Longrightarrow> P s'"
    and "P s" and "each_line h ls s = Inr s'"
  shows "P s'"
  using assms(2,3) by (induction ls arbitrary: s) (auto elim!: and_then_InrE intro: assms(1))

lemma process_lines_result:
  assumes "i < length (clients s)" and "process_lines env i s = Inr s'"
  obtains ls r t where "nl_free r" and "each_line (handle_if_nonempty env i) ls s = Inr t"
    and "s' = set_buffer i r t"
proof -
  obtain ls r where dec: "buffer (clients s ! i) = unlines ls @ r" "\<forall>l \<in> set ls. nl_free l" "nl_free r"
    using lines_exist by blast
  have "map_result (set_buffer i r) (each_line (handle_if_nonempty env i) (map trim ls) s) = Inr s'"
    using conn.process_lines_spec [OF assms(1) dec, of env] assms(2) by simp
  then show ?thesis
    using that [OF dec(3)] by (cases "each_line (handle_if_nonempty env i) (map trim ls) s") auto
qed

lemma read_client_result:
  assumes "i < length (clients s)" and "read_client env i received s = Inr (ok, s')"
  obtains (gone) "\<not> ok" and "s' = s" and "received = None \<or> received = Some []"
  | (data) bytes ls r t where "ok" and "received = Some bytes" and "bytes \<noteq> []" and "nl_free r"
      and "each_line (handle_if_nonempty env i) ls (append_bytes i (take 4096 bytes) s) = Inr t"
      and "s' = set_buffer i r t"
proof (cases "received = None \<or> received = Some []")
  case True
  then show ?thesis using assms gone by (auto simp: read_client_def)
next
  case False
  then obtain bytes where b: "received = Some bytes" "bytes \<noteq> []" by auto
  then have "ok" and p: "process_lines env i (append_bytes i (take 4096 bytes) s) = Inr s'"
    using assms(2) by (auto simp: read_client_def elim!: and_then_InrE)
  moreover have "i < length (clients (append_bytes i (take 4096 bytes) s))" using assms(1) by simp
  ultimately show ?thesis
    using process_lines_result [of i _ env s'] data b by metis
qed

lemma read_client_preserves:
  assumes handle: "\<And>line s s'. P s \<Longrightarrow> handle_line env i line s = Inr s' \<Longrightarrow> P s'"
    and buffers: "\<And>b s. P s \<Longrightarrow> P (set_buffer i b s)"
    and "i < length (clients s)" and "P s" and "read_client env i received s = Inr (ok, s')"
  shows "P s'"
  using assms(3,5)
proof (cases rule: read_client_result)
  case gone
  then show ?thesis using assms(4) by simp
next
  case (data bytes ls r t)
  have "P (append_bytes i (take 4096 bytes) s)" using assms(4) buffers by (simp add: append_bytes_def)
  then have "P t" using data(5)
    by (rule each_line_preserves [rotated]) (auto simp: handle_if_nonempty_def handle split: if_splits)
  then show ?thesis using data buffers by simp
qed

lemma set_buffer_watched [simp]: "watched (set_buffer i b s) = watched s"
  by (simp add: watched_def map_list_update_same)

text \<open>What a read keeps, apart from the buffers.\<close>

lemma read_client_frame:
  assumes "i < length (clients s)" and "read_client env i received s = Inr (ok, s')"
  shows "watched s' = watched s" and "sockets s' = sockets s" and "tables_ok s \<Longrightarrow> tables_ok s'"
proof -
  show "watched s' = watched s"
    by (rule read_client_preserves [of "\<lambda>t. watched t = watched s", OF _ _ assms(1) refl assms(2)])
      (simp_all add: handle_line_watched)
  show "sockets s' = sockets s"
    by (rule read_client_preserves [of "\<lambda>t. sockets t = sockets s", OF _ _ assms(1) refl assms(2)])
      (simp_all add: handle_line_sockets)
  show "tables_ok s'" if "tables_ok s"
    by (rule read_client_preserves [of tables_ok, OF _ _ assms(1) that assms(2)])
      (simp_all add: handle_line_tables cong: tables_ok_cong)
qed

lemma watched_length: "watched s' = watched s \<Longrightarrow> length (clients s') = length (clients s)"
  unfolding watched_def by (metis length_Cons length_map nat.inject)

lemma read_client_buffers:
  assumes "i < length (clients s)" and "read_client env i received s = Inr (ok, s')" and "buffers_ok s"
  shows "buffers_ok s'"
proof -
  have others: "\<forall>j < length (clients s'). j \<noteq> i \<longrightarrow> nl_free (buffer (clients s' ! j))"
  proof (rule read_client_preserves [OF _ _ assms(1) _ assms(2)])
    fix line t t'
    assume t: "\<forall>j < length (clients t). j \<noteq> i \<longrightarrow> nl_free (buffer (clients t ! j))"
      and h: "handle_line env i line t = Inr t'"
    have m: "map buffer (clients t') = map buffer (clients t)" by (rule handle_line_clients [OF h]) simp
    have len: "length (clients t') = length (clients t)" by (rule handle_line_length [OF h])
    show "\<forall>j < length (clients t'). j \<noteq> i \<longrightarrow> nl_free (buffer (clients t' ! j))"
      using t len m by (metis nth_map)
  qed (use assms(3) in \<open>simp_all add: buffers_ok_def\<close>)
  have len: "length (clients s') = length (clients s)"
    using read_client_frame(1) [OF assms(1,2)] by (rule watched_length)
  have "nl_free (buffer (clients s' ! i))"
    using assms(1,2)
  proof (cases rule: read_client_result)
    case (data bytes ls r t)
    then have "i < length (clients t)" using len assms(1) by simp
    then show ?thesis using data by simp
  qed (use assms in \<open>simp add: buffers_ok_def\<close>)
  then show ?thesis unfolding buffers_ok_def using others len assms(1) by (metis in_set_conv_nth)
qed

section \<open>The pass over the clients\<close>

text \<open>A client is dropped when its socket reports an error, or is readable and delivers nothing.\<close>

definition doomed :: "poll \<Rightarrow> socket_t list \<Rightarrow> socket_t \<Rightarrow> bool" where
  "doomed p fds f \<longleftrightarrow>
     FD_ISSET p (exceptional p) fds f \<or>
     FD_ISSET p (readable p) fds f \<and> (recv_ret p f = None \<or> recv_ret p f = Some [])"

definition keeps_server :: "MonitorServer \<Rightarrow> MonitorServer \<Rightarrow> bool" where
  "keeps_server s s' \<longleftrightarrow> watched s' = watched s \<and> sockets s' = sockets s \<and>
     (tables_ok s \<longrightarrow> tables_ok s') \<and> (buffers_ok s \<longrightarrow> buffers_ok s')"

lemma keeps_server_refl [simp]: "keeps_server s s"
  by (simp add: keeps_server_def)

lemma keeps_server_trans: "keeps_server s t \<Longrightarrow> keeps_server t u \<Longrightarrow> keeps_server s u"
  by (simp add: keeps_server_def)

lemma read_client_keeps:
  "i < length (clients s) \<Longrightarrow> read_client env i received s = Inr (ok, s') \<Longrightarrow> keeps_server s s'"
  using read_client_frame read_client_buffers by (simp add: keeps_server_def)

lemma keeps_server_fds:
  assumes "keeps_server s s'"
  shows "map fd (clients s') = map fd (clients s)" and "length (clients s') = length (clients s)"
  using assms watched_length [of s' s] by (simp_all add: keeps_server_def watched_def)

lemma keeps_server_nth:
  assumes "keeps_server s s'" and "j < length (clients s)"
  shows "fd (clients s' ! j) = fd (clients s ! j)"
  using arg_cong [OF keeps_server_fds(1) [OF assms(1)], of "\<lambda>xs. xs ! j"] assms
  by (simp add: keeps_server_fds(2))

lemma read_client_ok:
  assumes "i < length (clients s)" and "read_client env i received s = Inr (ok, s')"
  shows "ok \<longleftrightarrow> received \<noteq> None \<and> received \<noteq> Some []"
  using assms by (cases rule: read_client_result) auto

lemma scan_clients_result:
  assumes "scan_clients env p fds idx acc s = Inr (ds, s')" and "\<forall>j \<in> set idx. j < length (clients s)"
  shows "ds = acc @ filter (\<lambda>j. doomed p fds (fd (clients s ! j))) idx \<and> keeps_server s s'"
  using assms
proof (induction idx arbitrary: acc s)
  case (Cons j idx)
  let ?f = "fd (clients s ! j)"
  consider (error) "FD_ISSET p (exceptional p) fds ?f"
    | (read) "\<not> FD_ISSET p (exceptional p) fds ?f" "FD_ISSET p (readable p) fds ?f"
    | (idle) "\<not> FD_ISSET p (exceptional p) fds ?f" "\<not> FD_ISSET p (readable p) fds ?f"
    by blast
  then show ?case
  proof cases
    case read
    then obtain ok t where t: "read_client env j (recv_ret p ?f) s = Inr (ok, t)"
        and rest: "scan_clients env p fds idx (if ok then acc else acc @ [j]) t = Inr (ds, s')"
      using Cons.prems(1) by (auto simp: Let_def elim!: and_then_InrE)
    have j: "j < length (clients s)" using Cons.prems(2) by simp
    have keep: "keeps_server s t" using j t by (rule read_client_keeps)
    have "ds = (if ok then acc else acc @ [j]) @ filter (\<lambda>j. doomed p fds (fd (clients t ! j))) idx"
        and "keeps_server t s'"
      using Cons.IH [OF rest] Cons.prems(2) keeps_server_fds(2) [OF keep] by simp_all
    moreover have "filter (\<lambda>j. doomed p fds (fd (clients t ! j))) idx =
        filter (\<lambda>j. doomed p fds (fd (clients s ! j))) idx"
      using Cons.prems(2) keeps_server_nth [OF keep] by (intro filter_cong) auto
    moreover have "doomed p fds ?f \<longleftrightarrow> \<not> ok"
      using read read_client_ok [OF j t] by (auto simp: doomed_def)
    ultimately show ?thesis using keeps_server_trans [OF keep] by simp
  next
    case error
    then have "doomed p fds ?f" by (simp add: doomed_def)
    then show ?thesis using error Cons.IH [of "acc @ [j]" s] Cons.prems by (simp add: Let_def)
  next
    case idle
    then have "\<not> doomed p fds ?f" by (simp add: doomed_def)
    then show ?thesis using idle Cons.IH [of acc s] Cons.prems by (simp add: Let_def)
  qed
qed simp

section \<open>Disconnections\<close>

text \<open>Removing the listed positions from the last to the first removes exactly those.\<close>

lemma nths_cong: "(\<And>j. j < length xs \<Longrightarrow> j \<in> A \<longleftrightarrow> j \<in> B) \<Longrightarrow> nths xs A = nths xs B"
proof (induction xs arbitrary: A B)
  case (Cons x xs)
  have "nths xs {j. Suc j \<in> A} = nths xs {j. Suc j \<in> B}" using Cons.prems by (intro Cons.IH) simp
  moreover have "0 \<in> A \<longleftrightarrow> 0 \<in> B" using Cons.prems by simp
  ultimately show ?case by (simp add: nths_Cons)
qed simp

lemma nths_remove_last:
  assumes "d < length xs" and "\<forall>j \<in> A. j < d"
  shows "nths (take d xs @ drop (Suc d) xs) (- A) = nths xs (- insert d A)"
proof -
  have xs: "xs = take d xs @ xs ! d # drop (Suc d) xs" using assms(1) by (rule id_take_nth_drop)
  have above: "j + d \<notin> A" "Suc (j + d) \<notin> A" for j
    using assms(2) by (fastforce dest: bspec)+
  have tail: "{j. j + d \<in> - A} = UNIV" "{j. Suc (j + d) \<in> - insert d A} = UNIV" "d \<notin> - insert d A"
    using above by auto
  have front: "nths (take d xs) (- A) = nths (take d xs) (- insert d A)"
    by (rule nths_cong) auto
  have "nths xs (- insert d A) = nths (take d xs @ xs ! d # drop (Suc d) xs) (- insert d A)"
    using xs by simp
  also have "\<dots> = nths (take d xs) (- insert d A) @ drop (Suc d) xs"
    using assms(1) tail by (simp add: nths_append nths_Cons nths_all min_absorb2)
  also have "\<dots> = nths (take d xs @ drop (Suc d) xs) (- A)"
    using assms(1) tail front by (simp add: nths_append nths_all min_absorb2)
  finally show ?thesis ..
qed

lemma disconnect_client_simps:
  "clients (disconnect_client d s) = take d (clients s) @ drop (Suc d) (clients s)"
  "net (disconnect_client d s) = close_socket Posix (fd (clients s ! d)) (net s)"
  "(disconnect_client d s)\<lparr>clients := cs, net := w\<rparr> = s\<lparr>clients := cs, net := w\<rparr>"
  by (simp_all add: disconnect_client_def)

lemma disconnect_all:
  assumes "sorted_wrt (<) ds" and "\<forall>j \<in> set ds. j < length (clients s)"
  shows "fold disconnect_client (rev ds) s =
    s\<lparr>clients := nths (clients s) (- set ds),
      net := fold (\<lambda>j. close_socket Posix (fd (clients s ! j))) (rev ds) (net s)\<rparr>"
  using assms
proof (induction ds arbitrary: s rule: rev_induct)
  case Nil
  then show ?case by (simp add: nths_all)
next
  case (snoc d ds)
  let ?s1 = "disconnect_client d s"
  have below: "\<forall>j \<in> set ds. j < d" and d: "d < length (clients s)"
    using snoc.prems by (auto simp: sorted_wrt_append)
  have "fold disconnect_client (rev ds) ?s1 =
      ?s1\<lparr>clients := nths (clients ?s1) (- set ds),
        net := fold (\<lambda>j. close_socket Posix (fd (clients ?s1 ! j))) (rev ds) (net ?s1)\<rparr>"
  proof (rule snoc.IH)
    show "sorted_wrt (<) ds" using snoc.prems by (simp add: sorted_wrt_append)
    show "\<forall>j \<in> set ds. j < length (clients ?s1)" using below d by (auto simp: disconnect_client_simps)
  qed
  moreover have "nths (clients ?s1) (- set ds) = nths (clients s) (- set (ds @ [d]))"
    using nths_remove_last [OF d below] by (simp add: disconnect_client_simps)
  moreover have "fold (\<lambda>j. close_socket Posix (fd (clients ?s1 ! j))) (rev ds) w =
      fold (\<lambda>j. close_socket Posix (fd (clients s ! j))) (rev ds) w" for w
    using below d by (intro fold_cong) (auto simp: disconnect_client_simps nth_append)
  ultimately show ?case by (simp add: disconnect_client_simps(2,3))
qed

section \<open>One iteration\<close>

lemma nths_not_filter:
  "nths xs (- set (filter (\<lambda>j. Q (xs ! j)) [0..<length xs])) = filter (\<lambda>x. \<not> Q x) xs"
  unfolding filter_eq_nths [of "\<lambda>x. \<not> Q x"] by (rule nths_cong) auto

lemma map_nth_filter: "map (\<lambda>j. f (xs ! j)) (filter (\<lambda>j. Q (xs ! j)) [0..<length xs]) = map f (filter Q xs)"
proof -
  have "filter Q (map ((!) xs) [0..<length xs]) = map ((!) xs) (filter (Q \<circ> (!) xs) [0..<length xs])"
    by (rule filter_map)
  then show ?thesis by (simp add: map_nth comp_def)
qed

definition close_all :: "socket_t list \<Rightarrow> world \<Rightarrow> world" where
  "close_all fds w = fold (close_socket Posix) fds w"

lemma close_all_effect [simp]:
  "closed (close_all fds w) = closed w @ filter (is_socket_valid Posix) fds"
  "opened (close_all fds w) = opened w"
  "stream (close_all fds w) = stream w"
  unfolding close_all_def by (induction fds arbitrary: w) (auto simp: close_socket_def)

definition accepted :: "poll \<Rightarrow> MonitorServer \<Rightarrow> bool" where
  "accepted p s \<longleftrightarrow> FD_ISSET p (readable p) (watched s) (listen_fd s) \<and> is_socket_valid Posix (accept_ret p)"

definition after_accept :: "poll \<Rightarrow> MonitorServer \<Rightarrow> MonitorServer" where
  "after_accept p s = (if accepted p s then accept_connection p s else s)"

lemma after_accept_simps:
  "listen_fd (after_accept p s) = listen_fd s"
  "map fd (clients (after_accept p s)) = map fd (clients s) @ (if accepted p s then [accept_ret p] else [])"
  "opened (net (after_accept p s)) = opened (net s) @ (if accepted p s then [accept_ret p] else [])"
  "closed (net (after_accept p s)) = closed (net s)"
  "tables_ok (after_accept p s) = tables_ok s"
  "buffers_ok (after_accept p s) = buffers_ok s"
  by (auto simp: after_accept_def accept_connection_def accepted_def open_socket_def tables_ok_def buffers_ok_def)

lemma run_iteration_cases:
  assumes "run_iteration env p s = Inr l"
  obtains (select_failed) "ready p < 0" and "l = (if interrupted p then Continue s else Break s)"
  | (served) s2 where "0 \<le> ready p" and "keeps_server (after_accept p s) s2"
      and "l = Continue (s2\<lparr>
          clients := filter (\<lambda>c. \<not> doomed p (watched s) (fd c)) (clients s2),
          net := close_all (rev (filter (doomed p (watched s)) (map fd (clients s2)))) (net s2)\<rparr>)"
proof (cases "ready p < 0")
  case True
  then show ?thesis using select_failed assms by (simp add: run_iteration_def split: if_splits)
next
  case False
  let ?fds = "watched s" and ?s1 = "after_accept p s"
  have s1: "(if FD_ISSET p (readable p) ?fds (listen_fd s) then accept_connection p s else s) = ?s1"
    by (simp add: after_accept_def accepted_def accept_connection_def)
  obtain ds s2 where scan: "scan_clients env p ?fds [0..<length (clients ?s1)] [] ?s1 = Inr (ds, s2)"
      and l: "l = Continue (fold disconnect_client (rev ds) s2)"
    using assms False by (auto simp: run_iteration_def s1 Let_def elim!: and_then_InrE split: if_splits)
  have ds: "ds = filter (\<lambda>j. doomed p ?fds (fd (clients ?s1 ! j))) [0..<length (clients ?s1)]"
      and keep: "keeps_server ?s1 s2"
    using scan_clients_result [OF scan] by simp_all
  have ds2: "ds = filter (\<lambda>j. doomed p ?fds (fd (clients s2 ! j))) [0..<length (clients s2)]"
    unfolding ds keeps_server_fds(2) [OF keep]
    by (rule filter_cong) (simp_all add: keeps_server_nth [OF keep])
  have "fold disconnect_client (rev ds) s2 =
      s2\<lparr>clients := nths (clients s2) (- set ds),
        net := fold (\<lambda>j. close_socket Posix (fd (clients s2 ! j))) (rev ds) (net s2)\<rparr>"
    by (rule disconnect_all) (simp_all add: ds2 sorted_wrt_filter)
  moreover have "nths (clients s2) (- set ds) = filter (\<lambda>c. \<not> doomed p ?fds (fd c)) (clients s2)"
    unfolding ds2 by (rule nths_not_filter)
  moreover have "fold (\<lambda>j. close_socket Posix (fd (clients s2 ! j))) (rev ds) w =
      close_all (rev (filter (doomed p ?fds) (map fd (clients s2)))) w" for w
  proof -
    have "map (\<lambda>j. fd (clients s2 ! j)) ds = filter (doomed p ?fds) (map fd (clients s2))"
      using map_nth_filter [of fd "clients s2" "\<lambda>c. doomed p ?fds (fd c)"]
      unfolding ds2 by (simp add: filter_map comp_def)
    then have "rev (filter (doomed p ?fds) (map fd (clients s2))) = map (\<lambda>j. fd (clients s2 ! j)) (rev ds)"
      by (simp only: rev_map [symmetric])
    then show ?thesis by (simp only: close_all_def fold_map comp_def)
  qed
  ultimately show ?thesis using served [OF _ keep] False l by simp
qed

lemma after_accept_watched:
  "watched (after_accept p s) = watched s @ (if accepted p s then [accept_ret p] else [])"
  by (simp add: watched_def after_accept_simps)

text \<open>
  C20: One iteration of the event loop: afterwards the connections are those there were, in
  their order, followed by the accepted one, without the clients whose socket reported an error
  or end of stream; exactly these are closed. A connection accepted in the iteration is kept.
\<close>

theorem run_iteration_connections:
  assumes "run_iteration env p s = Inr (Continue s')" and "0 \<le> ready p"
    and "sockets_ok s" and "accept_ret p \<notin> set (watched s)"
  shows "map fd (clients s') = filter (\<lambda>f. \<not> doomed p (watched s) f) (map fd (clients s)) @
      (if accepted p s then [accept_ret p] else []) \<and>
    closed (net s') = closed (net s) @ rev (filter (doomed p (watched s)) (map fd (clients s))) \<and>
    listen_fd s' = listen_fd s"
  using assms(1)
proof (cases rule: run_iteration_cases)
  case (served s2)
  have fds: "map fd (clients s2) = map fd (clients s) @ (if accepted p s then [accept_ret p] else [])"
    using keeps_server_fds(1) [OF served(2)] by (simp add: after_accept_simps)
  have new: "\<not> doomed p (watched s) (accept_ret p)"
    using assms(4) by (simp add: doomed_def FD_ISSET_def)
  have s': "clients s' = filter (\<lambda>c. \<not> doomed p (watched s) (fd c)) (clients s2)"
      "net s' = close_all (rev (filter (doomed p (watched s)) (map fd (clients s2)))) (net s2)"
      "listen_fd s' = listen_fd s2"
    using served(3) by simp_all
  have "map fd (clients s') = filter (\<lambda>f. \<not> doomed p (watched s) f) (map fd (clients s2))"
    by (simp add: s' filter_map comp_def)
  moreover have "closed (net s2) = closed (net s)" "listen_fd s2 = listen_fd s"
    using served(2) after_accept_simps [of p s] by (simp_all add: keeps_server_def sockets_def watched_def)
  moreover have "filter (is_socket_valid Posix) (rev (filter (doomed p (watched s)) (map fd (clients s)))) =
      rev (filter (doomed p (watched s)) (map fd (clients s)))"
    using assms(3) by (intro filter_True) (auto simp: sockets_ok_def watched_def)
  ultimately show ?thesis
    using new by (simp add: fds s'(2,3))
qed (use assms(2) in simp)

section \<open>Preservation\<close>

definition all_valid :: "MonitorServer \<Rightarrow> bool" where
  "all_valid s \<longleftrightarrow> (\<forall>f \<in> set (watched s). is_socket_valid Posix f)"

lemma served_watched:
  assumes "keeps_server (after_accept p s) s2"
    and "s' = s2\<lparr>clients := filter (\<lambda>c. \<not> doomed p (watched s) (fd c)) (clients s2),
          net := close_all (rev (filter (doomed p (watched s)) (map fd (clients s2)))) (net s2)\<rparr>"
  shows "watched s' = listen_fd s # filter (\<lambda>f. \<not> doomed p (watched s) f) (map fd (clients s2))"
    and "listen_fd s # map fd (clients s2) = watched (after_accept p s)"
proof -
  show wt: "listen_fd s # map fd (clients s2) = watched (after_accept p s)"
    using assms(1) keeps_server_fds(1) [OF assms(1)] by (simp add: watched_def after_accept_simps)
  have "listen_fd s2 = listen_fd s"
    using assms(1) by (simp add: keeps_server_def watched_def after_accept_simps)
  then show "watched s' = listen_fd s # filter (\<lambda>f. \<not> doomed p (watched s) f) (map fd (clients s2))"
    by (simp add: assms(2) watched_def filter_map comp_def)
qed

lemma run_iteration_balanced:
  assumes "run_iteration env p s = Inr (Continue s')" and "balanced s" and "all_valid s"
  shows "balanced s'" and "all_valid s'"
proof -
  have "balanced s' \<and> all_valid s'"
    using assms(1)
  proof (cases rule: run_iteration_cases)
    case select_failed
    then show ?thesis using assms by (simp split: if_splits)
  next
    case (served s2)
    let ?gone = "doomed p (watched s)" and ?fds = "map fd (clients s2)"
    have s': "s' = s2\<lparr>clients := filter (\<lambda>c. \<not> ?gone (fd c)) (clients s2),
        net := close_all (rev (filter ?gone ?fds)) (net s2)\<rparr>"
      using served(3) by simp
    note w = served_watched [OF served(2) s']
    have valid: "all_valid (after_accept p s)"
      using assms(3) by (auto simp: all_valid_def after_accept_watched accepted_def)
    then have closes: "filter (is_socket_valid Posix) (rev (filter ?gone ?fds)) = rev (filter ?gone ?fds)"
      unfolding all_valid_def w(2) [symmetric] by (intro filter_True) auto
    have "mset (opened (net s2)) = mset (closed (net s2)) + mset (listen_fd s # ?fds)"
      using served(2) assms(2) unfolding w(2)
      by (simp add: keeps_server_def sockets_def balanced_def after_accept_simps after_accept_watched)
    moreover have "mset ?fds = mset (filter ?gone ?fds) + mset (filter (\<lambda>f. \<not> ?gone f) ?fds)"
      by (simp only: mset_filter multiset_partition [symmetric])
    ultimately have "balanced s'"
      unfolding balanced_def w(1) using closes by (simp add: s')
    moreover have "set (watched s') \<subseteq> set (watched (after_accept p s))"
      unfolding w(1) w(2) [symmetric] by auto
    ultimately show ?thesis using valid by (auto simp: all_valid_def)
  qed
  then show "balanced s'" and "all_valid s'" by simp_all
qed

lemma run_iteration_ok:
  assumes "run_iteration env p s = Inr (Continue s')" and "server_ok s"
    and "accept_ret p \<notin> set (watched s)"
  shows "server_ok s'"
  using assms(1)
proof (cases rule: run_iteration_cases)
  case select_failed
  then show ?thesis using assms by (simp split: if_splits)
next
  case (served s2)
  have s': "s' = s2\<lparr>clients := filter (\<lambda>c. \<not> doomed p (watched s) (fd c)) (clients s2),
      net := close_all (rev (filter (doomed p (watched s)) (map fd (clients s2)))) (net s2)\<rparr>"
    using served(3) by simp
  note w = served_watched [OF served(2) s']
  have "balanced s' \<and> all_valid s'"
    using run_iteration_balanced [OF assms(1)] assms(2)
    by (simp add: server_ok_def sockets_ok_def all_valid_def)
  moreover have "distinct (watched (after_accept p s))"
    using assms(2,3) by (auto simp: after_accept_watched server_ok_def sockets_ok_def)
  then have "distinct (watched s')"
    unfolding w(1) w(2) [symmetric] by (simp add: distinct_filter)
  moreover have "tables_ok s2" "buffers_ok s2"
    using served(2) assms(2) by (simp_all add: keeps_server_def after_accept_simps server_ok_def)
  then have "tables_ok s'" "buffers_ok s'" by (simp_all add: s' tables_ok_def buffers_ok_def)
  ultimately show ?thesis by (simp add: server_ok_def sockets_ok_def all_valid_def)
qed

section \<open>Reachable servers\<close>

definition server_started :: "MonitorServer \<Rightarrow> bool" where
  "server_started s \<longleftrightarrow> (\<exists>c port. start c port initial_server = (True, s))"

definition server_step :: "env \<Rightarrow> MonitorServer \<Rightarrow> poll \<Rightarrow> MonitorServer \<Rightarrow> bool" where
  "server_step env s p s' \<longleftrightarrow>
     accept_ret p \<notin> set (watched s) \<and> run_iteration env p s = Inr (Continue s')"

interpretation srv: transition_system server_started "server_step env" for env .

lemma start_result:
  assumes "start c port initial_server = (ok, s)"
  shows "if ok then is_socket_valid Posix (socket_ret c) \<and>
           s = initial_server\<lparr>listen_fd := socket_ret c, net := initial_world\<lparr>opened := [socket_ret c]\<rparr>\<rparr>
         else clients s = [] \<and> mset (opened (net s)) = mset (closed (net s)) \<and>
           \<not> is_socket_valid Posix (listen_fd s)"
  using assms
  by (auto simp: start_def Let_def initial_server_def initial_world_def open_socket_def close_socket_def
      is_socket_valid_def invalid_socket_def split: if_splits)

lemma server_started_ok:
  assumes "server_started s"
  shows "server_ok s"
proof -
  obtain c port where "start c port initial_server = (True, s)"
    using assms by (auto simp: server_started_def)
  note start_result [OF this]
  then show ?thesis
    by (simp add: server_ok_def tables_ok_def balanced_def sockets_ok_def buffers_ok_def
        watched_def initial_server_def initial_world_def distinct_keys_def)
qed

text \<open>
  C1: In every state the event loop can reach, whatever the clients send and however reads,
  accepts and disconnections interleave: the tables have one entry per key and a report is
  stored under its own host, every rule is the one its own command text denotes, no client
  buffer holds a complete line, all sockets are valid and distinct, and the sockets opened so
  far are those closed so far and those still watched.
\<close>

theorem server_invariant:
  assumes "srv.reach env s"
  shows "server_ok s"
  using assms
proof (rule srv.invariant_rule)
  fix s assume "server_started s"
  then show "server_ok s" by (rule server_started_ok)
next
  fix s p t assume "server_ok s" and "server_step env s p t"
  then show "server_ok t" using run_iteration_ok unfolding server_step_def by blast
qed

section \<open>Shutdown\<close>

lemma shutdown_balanced:
  assumes "balanced s" and "all_valid s"
  shows "mset (closed (net (shutdown_all s))) = mset (opened (net (shutdown_all s)))"
    and "clients (shutdown_all s) = []"
proof -
  have "close_clients (clients s) (net s) = close_all (map fd (clients s)) (net s)"
    by (simp add: close_clients_def close_all_def fold_map comp_def)
  moreover have "filter (is_socket_valid Posix) (map fd (clients s)) = map fd (clients s)"
    using assms(2) by (intro filter_True) (auto simp: all_valid_def watched_def)
  ultimately show "mset (closed (net (shutdown_all s))) = mset (opened (net (shutdown_all s)))"
    using assms by (simp add: shutdown_all_def Let_def balanced_def watched_def close_socket_def all_valid_def)
  show "clients (shutdown_all s) = []" by (simp add: shutdown_all_def Let_def)
qed

lemma run_balanced:
  assumes "run env ps s = Inr s'" and "balanced s" and "all_valid s"
  shows "mset (closed (net s')) = mset (opened (net s')) \<and> clients s' = []"
  using assms
proof (induction ps arbitrary: s)
  case Nil
  then show ?case using shutdown_balanced [of s] by auto
next
  case (Cons p ps)
  then obtain l where l: "run_iteration env p s = Inr l"
      and rest: "(case l of Continue s1 \<Rightarrow> run env ps s1 | Break s1 \<Rightarrow> Inr (shutdown_all s1)) = Inr s'"
    by (auto elim!: and_then_InrE)
  show ?case
  proof (cases l)
    case (Continue s1)
    then show ?thesis using Cons.IH [of s1] rest run_iteration_balanced [of env p s s1] l Cons.prems by simp
  next
    case (Break s1)
    then have "s1 = s" using l by (auto elim!: run_iteration_cases split: if_splits)
    then show ?thesis using Break rest shutdown_balanced [of s] Cons.prems by auto
  qed
qed

text \<open>
  C21: When the server process returns from \<open>main\<close>, every socket it has opened has been closed
  exactly once: the listening socket and each accepted connection, on every path, a failed
  \<open>bind\<close> or \<open>listen\<close>, a failed \<open>select\<close> and a signal included.
\<close>

theorem server_main_closes_all:
  assumes "server_main env argv wsa c polls = Inr (code, s)"
  shows "mset (closed (net s)) = mset (opened (net s)) \<and> clients s = []"
proof (cases "start c (server_port argv) initial_server")
  case (Pair ok s0)
  note st = start_result [OF Pair]
  show ?thesis
  proof (cases ok)
    case True
    have "run env polls s0 = Inr s"
      using assms Pair True by (auto simp: server_main_def socket_runtime_ok_def elim!: and_then_InrE)
    moreover have "server_ok s0"
      using Pair True by (intro server_started_ok) (auto simp: server_started_def)
    ultimately show ?thesis
      using run_balanced [of env polls s0 s] by (simp add: server_ok_def sockets_ok_def all_valid_def)
  next
    case False
    then show ?thesis using assms Pair st by (auto simp: server_main_def socket_runtime_ok_def)
  qed
qed

section \<open>Examples\<close>

definition sample_start :: start_calls where
  "sample_start = \<lparr>socket_ret = 3, bind_ret = (\<lambda>_. 0), listen_ret = 0\<rparr>"

text \<open>A connection on descriptor 4 while the client on 5 hangs up.\<close>

definition sample_poll :: poll where
  "sample_poll = \<lparr>ready = 2, interrupted = False, readable = (\<lambda>f. f = 3 \<or> f = 5),
     exceptional = (\<lambda>_. False), accept_ret = 4, accept_host = Some ''10.0.0.9'', accept_port = 41000,
     recv_ret = (\<lambda>_. Some [])\<rparr>"

definition listening_server :: MonitorServer where
  "listening_server = initial_server\<lparr>listen_fd := 3, net := initial_world\<lparr>opened := [3]\<rparr>\<rparr>"

lemma listening_server_started: "start sample_start port initial_server = (True, listening_server)"
  by (simp add: start_def sample_start_def listening_server_def initial_server_def initial_world_def
      is_socket_valid_def open_socket_def)

lemma sample_iteration:
  "run_iteration steady_env sample_poll (sample_server Agent) =
     Inr (Continue (disconnect_client 0 (accept_connection sample_poll (sample_server Agent))))"
  by (simp add: run_iteration_def sample_poll_def sample_server_def sample_client_def fd_sets_ok_def watched_def
      FD_SETSIZE_def FD_ISSET_def accept_connection_def is_socket_valid_def read_client_def)

theorem run_iteration_connections_example:
  "\<exists>s'. run_iteration steady_env sample_poll (sample_server Agent) = Inr (Continue s') \<and>
     map fd (clients s') = [4] \<and> closed (net s') = [5]"
proof -
  have ok: "sockets_ok (sample_server Agent)" "accept_ret sample_poll \<notin> set (watched (sample_server Agent))"
      "0 \<le> ready sample_poll"
    by (simp_all add: sockets_ok_def watched_def sample_server_def sample_client_def sample_poll_def
        is_socket_valid_def)
  have vals: "map fd (clients (sample_server Agent)) = [5]" "watched (sample_server Agent) = [3, 5]"
      "closed (net (sample_server Agent)) = []" "accept_ret sample_poll = 4"
    by (simp_all add: watched_def sample_server_def sample_client_def sample_poll_def initial_world_def)
  have preds: "doomed sample_poll [3, 5] 5" "accepted sample_poll (sample_server Agent)"
    by (simp_all add: doomed_def FD_ISSET_def accepted_def vals is_socket_valid_def sample_poll_def)
      (simp add: sample_server_def)
  let ?s' = "disconnect_client 0 (accept_connection sample_poll (sample_server Agent))"
  have "map fd (clients ?s') = [4] \<and> closed (net ?s') = [5]"
    using run_iteration_connections [OF sample_iteration ok(3,1,2)] unfolding vals by (simp add: preds)
  with sample_iteration show ?thesis by (intro exI [of _ ?s'] conjI) simp_all
qed

theorem server_invariant_example:
  "srv.reach steady_env listening_server \<and> server_ok listening_server"
proof -
  have "server_started listening_server"
    unfolding server_started_def using listening_server_started by blast
  then have "srv.reach steady_env listening_server" by (rule srv.reach_start)
  then show ?thesis using server_invariant by blast
qed

theorem server_main_closes_all_example:
  "\<exists>s. server_main steady_env [''server''] 0 sample_start [] = Inr (0, s) \<and>
     mset (closed (net s)) = mset (opened (net s)) \<and> clients s = []"
proof -
  have "server_main steady_env [''server''] 0 sample_start [] = Inr (0, shutdown_all listening_server)"
    by (simp add: server_main_def socket_runtime_ok_def listening_server_started)
  then show ?thesis using server_main_closes_all by blast
qed

end
