(* ===== verification/Agent_Main.thy ===== *)
theory Agent_Main
  imports Agent_Metrics Net_Sockets "HOL-Library.Multiset"
begin

text \<open>
  The agent of \<^verbatim>\<open>cpp/client/main.cpp\<close>: its arguments, the connection to the
  server, and the two nested loops of \<^verbatim>\<open>main\<close> as a state machine. A state is the
  loop head the program is at (with the connected socket in the inner loop); an input says what
  \<^verbatim>\<open>g_running\<close> reads there and what the system answers before the next head. The
  model is the POSIX build. Unlike the server, the agent does not ignore
  \<^verbatim>\<open>SIGPIPE\<close>.
\<close>

section \<open>Arguments\<close>

record AgentConfig =
  server_host :: cpp_string
  agent_server_port :: int
  agent_name :: cpp_string
  interval_seconds :: int
  daemonize :: bool

definition default_AgentConfig :: "host_name_call \<Rightarrow> AgentConfig" where
  "default_AgentConfig call =
     \<lparr>server_host = ''127.0.0.1'', agent_server_port = 9090,
      agent_name = hostname_or call ''agent-node'', interval_seconds = 5, daemonize = False\<rparr>"

definition positional :: "nat \<Rightarrow> cpp_string \<Rightarrow> AgentConfig \<Rightarrow> AgentConfig" where
  "positional positional_index argument config =
     (if positional_index = 1 then config\<lparr>server_host := argument\<rparr>
      else if positional_index = 2 then config\<lparr>agent_server_port := atoi argument\<rparr>
      else if positional_index = 3 then config\<lparr>agent_name := argument\<rparr>
      else if positional_index = 4 then config\<lparr>interval_seconds := max 1 (atoi argument)\<rparr>
      else config)"

fun parse_arg_list :: "nat \<Rightarrow> cpp_string list \<Rightarrow> AgentConfig \<Rightarrow> AgentConfig" where
  "parse_arg_list positional_index [] config = config"
| "parse_arg_list positional_index (argument # arguments) config =
     (if argument = ''--daemon''
      then parse_arg_list positional_index arguments (config\<lparr>daemonize := True\<rparr>)
      else parse_arg_list (Suc positional_index) arguments
             (positional (Suc positional_index) argument config))"

definition parse_args :: "host_name_call \<Rightarrow> cpp_string list \<Rightarrow> AgentConfig" where
  "parse_args call argv = parse_arg_list 0 (drop 1 argv) (default_AgentConfig call)"

section \<open>Connecting\<close>

text \<open>
  The answers of \<^verbatim>\<open>socket\<close>, of the two address lookups (\<open>None\<close> for
  \<^verbatim>\<open>INADDR_NONE\<close> and for a null result) and of \<^verbatim>\<open>connect\<close> for an
  address and a port.
\<close>

record connect_calls =
  client_socket_ret :: socket_t
  inet_addr :: "cpp_string \<Rightarrow> nat option"
  gethostbyname :: "cpp_string \<Rightarrow> nat option"
  connect_ret :: "nat \<Rightarrow> int \<Rightarrow> int"

definition server_address :: "connect_calls \<Rightarrow> cpp_string \<Rightarrow> nat option" where
  "server_address calls host =
     (case inet_addr calls host of Some a \<Rightarrow> Some a | None \<Rightarrow> gethostbyname calls host)"

definition register_message :: "cpp_string \<Rightarrow> cpp_string" where
  "register_message name =
     ''{\"type\":\"register\",\"role\":\"agent\",\"host\":\"'' @ escape_json name @ ''\"}''"

definition connect_to_server ::
    "env \<Rightarrow> connect_calls \<Rightarrow> AgentConfig \<Rightarrow> world \<Rightarrow> (bool \<times> socket_t) result \<times> world" where
  "connect_to_server env calls config w =
     (let socket_fd = client_socket_ret calls;
          w1 = open_socket socket_fd w;
          failed = (Inr (False, invalid_socket Posix), close_socket Posix socket_fd w1)
      in if \<not> is_socket_valid Posix socket_fd then (Inr (False, socket_fd), w)
         else case server_address calls (server_host config) of
                None \<Rightarrow> failed
              | Some address \<Rightarrow>
                  if connect_ret calls address (agent_server_port config mod 2 ^ 16) \<noteq> 0 then failed
                  else (case send_line env False socket_fd (register_message (agent_name config)) w1 of
                          (Inl e, w2) \<Rightarrow> (Inl e, w2)
                        | (Inr True, w2) \<Rightarrow> (Inr (True, socket_fd), w2)
                        | (Inr False, w2) \<Rightarrow> (Inr (False, socket_fd), close_socket Posix socket_fd w2)))"

definition metrics_payload :: "MetricSnapshot \<Rightarrow> cpp_string" where
  "metrics_payload metric = ''{\"type\":\"metrics\",'' @ drop 1 (metric_data_to_json metric)"

section \<open>The loops of main\<close>

datatype agent_phase = Outer | Inner socket_t | Finished

record agent =
  phase :: agent_phase
  previous_cpu :: CpuSample
  previous_net :: NetSample
  previous_tick :: int
  agent_net :: world
  slept :: "int list"

text \<open>
  What happens between two loop heads: the value of \<^verbatim>\<open>g_running\<close> at the head and,
  when the inner loop has ended, after it; the answers to the calls; the steady clock in
  nanoseconds.
\<close>

record agent_input =
  running :: bool
  still_running :: bool
  calls :: connect_calls
  steady_now :: int
  system :: probe

definition sleep_seconds :: "int \<Rightarrow> agent \<Rightarrow> agent" where
  "sleep_seconds seconds a = a\<lparr>slept := slept a @ [seconds]\<rparr>"

text \<open>\<^verbatim>\<open>std::chrono::duration<double>\<close> of a difference in nanoseconds.\<close>

definition elapsed_seconds :: "int \<Rightarrow> double" where
  "elapsed_seconds nanos = dbl_div (dbl_of_int nanos) (dbl_of_nat 1000000000)"

definition connect_step :: "env \<Rightarrow> AgentConfig \<Rightarrow> agent_input \<Rightarrow> agent \<Rightarrow> agent result" where
  "connect_step env config i a =
     (case connect_to_server env (calls i) config (agent_net a) of
        (Inl e, w) \<Rightarrow> Inl e
      | (Inr (ok, socket_fd), w) \<Rightarrow>
          Inr (if ok then a\<lparr>agent_net := w, phase := Inner socket_fd\<rparr>
               else sleep_seconds 3 (a\<lparr>agent_net := w, phase := Outer\<rparr>)))"

text \<open>After the inner loop: a socket that is still valid is closed.\<close>

definition leave_inner :: "agent_input \<Rightarrow> socket_t \<Rightarrow> agent \<Rightarrow> agent" where
  "leave_inner i socket_fd a =
     (let a1 = (if is_socket_valid Posix socket_fd
                then a\<lparr>agent_net := close_socket Posix socket_fd (agent_net a)\<rparr> else a);
          a2 = (if still_running i then sleep_seconds 2 a1 else a1)
      in a2\<lparr>phase := Outer\<rparr>)"

definition report_step ::
    "env \<Rightarrow> AgentConfig \<Rightarrow> agent_input \<Rightarrow> socket_t \<Rightarrow> agent \<Rightarrow> agent result" where
  "report_step env config i socket_fd a =
     (let a1 = sleep_seconds (interval_seconds config) a;
          elapsed = elapsed_seconds (steady_now i - previous_tick a1);
          (now, w1) = read_clock env (agent_net a1);
          (metric, cpu, net) =
            collect_metrics (agent_name config) now (system i) (previous_cpu a1) (previous_net a1) elapsed;
          a2 = a1\<lparr>previous_tick := steady_now i, previous_cpu := cpu, previous_net := net\<rparr>
      in case send_line env False socket_fd (metrics_payload metric) w1 of
           (Inl e, w2) \<Rightarrow> Inl e
         | (Inr True, w2) \<Rightarrow> Inr (a2\<lparr>agent_net := w2, phase := Inner socket_fd\<rparr>)
         | (Inr False, w2) \<Rightarrow>
             Inr (leave_inner i (invalid_socket Posix)
                    (a2\<lparr>agent_net := close_socket Posix socket_fd w2\<rparr>)))"

definition agent_step :: "env \<Rightarrow> AgentConfig \<Rightarrow> agent_input \<Rightarrow> agent \<Rightarrow> agent result" where
  "agent_step env config i a =
     (case phase a of
        Finished \<Rightarrow> Inr a
      | Outer \<Rightarrow> if running i then connect_step env config i a else Inr (a\<lparr>phase := Finished\<rparr>)
      | Inner socket_fd \<Rightarrow>
          if running i then report_step env config i socket_fd a
          else Inr (leave_inner i socket_fd a))"

fun agent_run :: "env \<Rightarrow> AgentConfig \<Rightarrow> agent_input list \<Rightarrow> agent \<Rightarrow> agent result" where
  "agent_run env config [] a = Inr a"
| "agent_run env config (i # is) a = and_then (agent_step env config i a) (agent_run env config is)"

definition initial_agent :: "probe \<Rightarrow> int \<Rightarrow> agent" where
  "initial_agent p now =
     \<lparr>phase = Outer, previous_cpu = read_cpu_sample (probe_cpu p),
      previous_net = read_net_sample (probe_net p), previous_tick = now,
      agent_net = initial_world, slept = []\<rparr>"

text \<open>The exit status, \<open>None\<close> while the program still runs.\<close>

definition agent_main ::
    "env \<Rightarrow> host_name_call \<Rightarrow> cpp_string list \<Rightarrow> int \<Rightarrow> int \<Rightarrow> probe \<Rightarrow> int \<Rightarrow> agent_input list
       \<Rightarrow> (int option \<times> agent) result" where
  "agent_main env call argv wsa_startup daemon_ret p now inputs =
     (let config = parse_args call argv; a = initial_agent p now
      in if \<not> socket_runtime_ok Posix wsa_startup then Inr (Some 1, a)
         else if daemonize config \<and> daemon_ret \<noteq> 0 then Inr (Some 1, a)
         else and_then (agent_run env config inputs a)
                (\<lambda>a'. Inr (if phase a' = Finished then Some 0 else None, a')))"

section \<open>Sockets of the agent\<close>

definition held :: "agent_phase \<Rightarrow> socket_t list" where
  "held ph = (case ph of Inner f \<Rightarrow> [f] | _ \<Rightarrow> [])"

lemma held_simps [simp]: "held Outer = []" "held (Inner f) = [f]" "held Finished = []"
  by (simp_all add: held_def)

definition agent_ok :: "agent \<Rightarrow> bool" where
  "agent_ok a \<longleftrightarrow>
     mset (opened (agent_net a)) = mset (closed (agent_net a)) + mset (held (phase a)) \<and>
     (\<forall>f \<in> set (held (phase a)). is_socket_valid Posix f)"

lemma send_line_sockets:
  "send_line env ign f p w = (r, w') \<Longrightarrow> opened w' = opened w \<and> closed w' = closed w"
  using send_line_frame [of env ign f p w] by simp

lemma invalid_socket_posix [simp]: "\<not> is_socket_valid Posix (invalid_socket Posix)"
  by (simp add: is_socket_valid_def invalid_socket_def)

lemma connect_to_server_sockets:
  assumes "connect_to_server env cs config w = (Inr (ok, f), w')"
  shows "mset (opened w') + mset (closed w) = mset (opened w) + mset (closed w') + (if ok then {#f#} else {#})"
    and "ok \<Longrightarrow> is_socket_valid Posix f"
proof -
  have "mset (opened w') + mset (closed w) = mset (opened w) + mset (closed w') + (if ok then {#f#} else {#}) \<and>
      (ok \<longrightarrow> is_socket_valid Posix f)"
  proof (cases "is_socket_valid Posix (client_socket_ret cs) \<and>
      (\<exists>address. server_address cs (server_host config) = Some address \<and>
         connect_ret cs address (agent_server_port config mod 2 ^ 16) = 0)")
    case True
    let ?w1 = "open_socket (client_socket_ret cs) w"
    obtain r w2 where send: "send_line env False (client_socket_ret cs)
        (register_message (agent_name config)) ?w1 = (r, w2)" by (metis surj_pair)
    have frame: "opened w2 = opened w @ [client_socket_ret cs]" "closed w2 = closed w"
      using send_line_sockets [OF send] by (simp_all add: open_socket_def)
    have "r = Inr True \<and> ok \<and> f = client_socket_ret cs \<and> w' = w2 \<or>
        r = Inr False \<and> \<not> ok \<and> w' = close_socket Posix (client_socket_ret cs) w2"
      using assms True by (auto simp: connect_to_server_def Let_def send split: sum.splits bool.splits)
    then show ?thesis using True frame by (auto simp: close_socket_def)
  next
    case False
    then show ?thesis using assms
      by (auto simp: connect_to_server_def Let_def open_socket_def close_socket_def split: option.splits if_splits)
  qed
  then show "mset (opened w') + mset (closed w) = mset (opened w) + mset (closed w') + (if ok then {#f#} else {#})"
    and "ok \<Longrightarrow> is_socket_valid Posix f" by simp_all
qed

lemma leave_inner_world:
  "agent_net (leave_inner i f a) =
     (if is_socket_valid Posix f then close_socket Posix f (agent_net a) else agent_net a)"
  "phase (leave_inner i f a) = Outer"
  by (simp_all add: leave_inner_def Let_def sleep_seconds_def)

lemma connect_step_ok:
  assumes "connect_step env config i a = Inr a'" and "agent_ok a" and "phase a = Outer"
  shows "agent_ok a'"
proof -
  obtain ok f w where c: "connect_to_server env (calls i) config (agent_net a) = (Inr (ok, f), w)"
      and a': "a' = (if ok then a\<lparr>agent_net := w, phase := Inner f\<rparr>
                     else sleep_seconds 3 (a\<lparr>agent_net := w, phase := Outer\<rparr>))"
    using assms(1) by (auto simp: connect_step_def split: prod.splits sum.splits)
  show ?thesis
    using connect_to_server_sockets [OF c] assms(2,3)
    by (auto simp: a' agent_ok_def sleep_seconds_def ac_simps)
qed

lemma report_step_ok:
  assumes "report_step env config i f a = Inr a'" and "agent_ok a" and "phase a = Inner f"
  shows "agent_ok a'"
proof -
  let ?clock = "read_clock env (agent_net a)"
  let ?metric = "fst (collect_metrics (agent_name config) (fst ?clock) (system i) (previous_cpu a) (previous_net a)
    (elapsed_seconds (steady_now i - previous_tick a)))"
  obtain r w2 where send: "send_line env False f (metrics_payload ?metric) (snd ?clock) = (r, w2)"
    by (metis surj_pair)
  have cases: "r = Inr True \<and> agent_net a' = w2 \<and> phase a' = Inner f \<or>
      r = Inr False \<and> agent_net a' = close_socket Posix f w2 \<and> phase a' = Outer"
    using assms(1) send
    by (auto simp: report_step_def Let_def sleep_seconds_def leave_inner_world case_prod_unfold
        split: sum.splits bool.splits)
  have frame: "opened w2 = opened (agent_net a)" "closed w2 = closed (agent_net a)"
    using send_line_sockets [OF send] by (simp_all add: read_clock_def)
  have "is_socket_valid Posix f" using assms(2,3) by (simp add: agent_ok_def)
  then show ?thesis using cases frame assms(2,3) by (auto simp: agent_ok_def close_socket_def)
qed

lemma agent_step_ok:
  assumes "agent_step env config i a = Inr a'" and "agent_ok a"
  shows "agent_ok a'"
proof (cases "phase a")
  case Outer
  then show ?thesis
    using assms connect_step_ok [of env config i a a']
    by (auto simp: agent_step_def agent_ok_def split: if_splits)
next
  case (Inner f)
  then show ?thesis
    using assms report_step_ok [of env config i f a a']
    by (auto simp: agent_step_def agent_ok_def leave_inner_world close_socket_def split: if_splits)
next
  case Finished
  then show ?thesis using assms by (simp add: agent_step_def)
qed

interpretation agt: transition_system "\<lambda>a. \<exists>p now. a = initial_agent p now"
    "\<lambda>a i a'. agent_step env config i a = Inr a'" for env config .

lemma initial_agent_phase: "phase (initial_agent p now) = Outer"
  by (simp add: initial_agent_def)

lemma initial_agent_ok: "agent_ok (initial_agent p now)"
  by (simp add: agent_ok_def initial_agent_def initial_world_def)

lemma agent_run_reach:
  "agt.reach env config a \<Longrightarrow> agent_run env config is a = Inr a' \<Longrightarrow> agt.reach env config a'"
  by (induction "is" arbitrary: a) (auto elim!: and_then_InrE intro: agt.reach_step)

lemma agent_reach_ok: "agt.reach env config a \<Longrightarrow> agent_ok a"
  by (rule agt.invariant_rule) (auto simp: initial_agent_ok intro: agent_step_ok)

text \<open>
  C23: At every loop head the agent can reach, the sockets it has opened are those it has closed
  and, inside the inner loop, the connected one; so at no time does it hold more than one socket,
  however often connecting or sending fails.
\<close>

theorem agent_invariant:
  assumes "agt.reach env config a"
  shows "mset (opened (agent_net a)) = mset (closed (agent_net a)) + mset (held (phase a))"
  using agent_reach_ok [OF assms] by (simp add: agent_ok_def)

text \<open>
  C24: When the agent's \<open>main\<close> returns, every socket it has opened has been closed exactly once.
\<close>

theorem agent_main_closes_all:
  assumes "agent_main env call argv wsa daemon_ret p now inputs = Inr (Some code, a)"
  shows "mset (closed (agent_net a)) = mset (opened (agent_net a))"
proof -
  let ?config = "parse_args call argv"
  have init: "agt.reach env ?config (initial_agent p now)" by (rule agt.reach_start) blast
  have "a = initial_agent p now \<or> agent_run env ?config inputs (initial_agent p now) = Inr a \<and> phase a = Finished"
    using assms by (auto simp: agent_main_def Let_def elim!: and_then_InrE split: if_splits)
  then have "agt.reach env ?config a \<and> phase a \<in> {Outer, Finished}"
    using init agent_run_reach [OF init] initial_agent_phase by blast
  then have "agent_ok a \<and> phase a \<in> {Outer, Finished}" using agent_reach_ok by blast
  then show ?thesis by (auto simp: agent_ok_def)
qed

text \<open>
  C35: Once a signal has cleared \<open>g_running\<close> the agent ends: from any loop head it is at its end
  after passing at most two heads, whatever the system answers, and without sending anything.
\<close>

theorem agent_stops:
  assumes "\<not> running i" and "\<not> running j"
  shows "\<exists>a'. agent_run env config [i, j] a = Inr a' \<and> phase a' = Finished \<and>
    wire (agent_net a') = wire (agent_net a)"
  using assms
  by (cases "phase a")
    (auto simp: agent_step_def leave_inner_def Let_def sleep_seconds_def close_socket_def)

section \<open>Arguments, again\<close>

lemma parse_arg_list_daemon:
  "parse_arg_list k (xs @ ''--daemon'' # ys) config = (parse_arg_list k (xs @ ys) config)\<lparr>daemonize := True\<rparr>"
proof -
  have flag: "parse_arg_list k ys (config\<lparr>daemonize := True\<rparr>) = (parse_arg_list k ys config)\<lparr>daemonize := True\<rparr>"
    for k ys config
  proof (induction ys arbitrary: k config)
    case (Cons y ys)
    have "positional (Suc k) y (config\<lparr>daemonize := True\<rparr>) = (positional (Suc k) y config)\<lparr>daemonize := True\<rparr>"
      by (simp add: positional_def)
    then show ?case using Cons.IH by simp
  qed simp
  show ?thesis by (induction xs arbitrary: k config) (simp_all add: flag)
qed

text \<open>
  The flag \<^verbatim>\<open>--daemon\<close> may stand anywhere among the arguments: it only sets the
  daemon mode and does not shift the positional arguments.
\<close>

lemma parse_args_daemon_anywhere:
  "parse_args call (program # xs @ ''--daemon'' # ys) =
     (parse_args call (program # xs @ ys))\<lparr>daemonize := True\<rparr>"
  by (simp add: parse_args_def parse_arg_list_daemon)

lemma parse_arg_list_interval:
  "1 \<le> interval_seconds config \<Longrightarrow> 1 \<le> interval_seconds (parse_arg_list k args config)"
  by (induction args arbitrary: k config) (simp_all add: positional_def)

text \<open>
  Whatever the arguments are, the agent waits at least one second before each report.
\<close>

lemma parse_args_interval: "1 \<le> interval_seconds (parse_args call argv)"
  unfolding parse_args_def by (rule parse_arg_list_interval) (simp add: default_AgentConfig_def)

section \<open>Examples\<close>

definition idle_input :: agent_input where
  "idle_input = \<lparr>running = False, still_running = False,
     calls = \<lparr>client_socket_ret = -1, inet_addr = (\<lambda>_. None), gethostbyname = (\<lambda>_. None), connect_ret = (\<lambda>_ _. 0)\<rparr>,
     steady_now = 0, system = sample_probe\<rparr>"

definition connected_agent :: agent where
  "connected_agent = (initial_agent sample_probe 0)\<lparr>phase := Inner 7, agent_net := initial_world\<lparr>opened := [7]\<rparr>\<rparr>"

definition broken_env :: env where
  "broken_env = \<lparr>clock_at = (\<lambda>_. 0), send_at = (\<lambda>_ _ _. Broken_pipe)\<rparr>"

theorem agent_invariant_example:
  "agt.reach broken_env (parse_args (GetHostName None) []) (initial_agent sample_probe 0) \<and>
   mset (opened (agent_net (initial_agent sample_probe 0))) =
     mset (closed (agent_net (initial_agent sample_probe 0))) + mset (held (phase (initial_agent sample_probe 0)))"
proof -
  have "agt.reach broken_env (parse_args (GetHostName None) []) (initial_agent sample_probe 0)"
    by (rule agt.reach_start) blast
  then show ?thesis using agent_invariant by blast
qed

theorem agent_main_closes_all_example:
  "\<exists>a. agent_main broken_env (GetHostName None) [''agent''] 0 0 sample_probe 0 [idle_input] = Inr (Some 0, a) \<and>
     mset (closed (agent_net a)) = mset (opened (agent_net a))"
proof -
  have "daemonize (parse_args (GetHostName None) [''agent'']) = False"
    by (simp add: parse_args_def default_AgentConfig_def)
  then have "agent_main broken_env (GetHostName None) [''agent''] 0 0 sample_probe 0 [idle_input] =
      Inr (Some 0, (initial_agent sample_probe 0)\<lparr>phase := Finished\<rparr>)"
    by (simp add: agent_main_def socket_runtime_ok_def agent_step_def initial_agent_def idle_input_def Let_def)
  then show ?thesis using agent_main_closes_all by blast
qed

theorem agent_stops_example:
  "\<exists>a'. agent_run broken_env (parse_args (GetHostName None) []) [idle_input, idle_input] connected_agent = Inr a' \<and>
     phase a' = Finished"
proof -
  have "\<not> running idle_input" by (simp add: idle_input_def)
  from agent_stops [OF this this] show ?thesis by blast
qed

end
