(* ===== verification/Agent_Server.thy ===== *)
theory Agent_Server
  imports Server_Invariant Agent_Main
begin

text \<open>
  The protocol between the parts. A message the agent sends is an object of string and number
  fields; what the server's field readers find in such an object is proved once, by induction on
  its fields. It follows that the server recovers the agent's registration and its reports, that
  a report relayed to the dashboards is the one the agent made, and what an agent connected to
  a server does end to end.
\<close>

section \<open>Objects\<close>

datatype field = JStr cpp_string | JNum cpp_string

fun render_field :: "cpp_string \<times> field \<Rightarrow> cpp_string" where
  "render_field (k, JStr v) = jstr k v"
| "render_field (k, JNum v) = jnum k v"

fun render_fields :: "(cpp_string \<times> field) list \<Rightarrow> cpp_string" where
  "render_fields [] = ''}''"
| "render_fields [f] = render_field f @ ''}''"
| "render_fields (f # fs) = render_field f @ CHR '','' # render_fields fs"

definition object :: "(cpp_string \<times> field) list \<Rightarrow> cpp_string" where
  "object fs = CHR ''{'' # render_fields fs"

fun field_text :: "field \<Rightarrow> cpp_string" where
  "field_text (JStr v) = v"
| "field_text (JNum v) = v"

definition wf_field :: "cpp_string \<times> field \<Rightarrow> bool" where
  "wf_field f \<longleftrightarrow> ident (fst f) \<and> CHR_quote \<notin> set (field_text (snd f))"

lemma field_end_simps [simp]: "field_end (CHR '','')" "field_end (CHR ''}'')"
  by (simp_all add: field_end_def)

lemma render_fields_Cons:
  "\<exists>c rest. field_end c \<and> render_fields (f # fs) = render_field f @ c # rest \<and>
     (fs \<noteq> [] \<longrightarrow> rest = render_fields fs)"
  by (cases fs) auto

context field_reader
begin

lemma get_skip_field:
  assumes "ident key" and "wf_field (k, f)" and "k \<noteq> key" and "field_end c"
  shows "get (render_field (k, f) @ c # s) key = get s key"
proof (cases f)
  case (JStr v)
  then show ?thesis using assms by (simp add: get_skip_jstr wf_field_def)
next
  case (JNum v)
  have "c \<noteq> CHR_quote" using assms(4) by (auto simp: field_end_def)
  then show ?thesis using JNum assms by (simp add: get_skip_jnum get_skip_Cons wf_field_def)
qed

lemma get_field:
  assumes "ident key" and "\<forall>f \<in> set fs. wf_field f" and "map_of fs key = Some v"
  shows "\<exists>c rest. field_end c \<and> get (object fs) key = get (render_field (key, v) @ c # rest) key"
proof -
  have "get (object fs) key = get (render_fields fs) key"
    unfolding object_def by (rule get_skip_Cons) simp
  moreover have "\<exists>c rest. field_end c \<and> get (render_fields fs) key = get (render_field (key, v) @ c # rest) key"
    using assms(2,3)
  proof (induction fs)
    case (Cons f fs)
    obtain c rest where r: "field_end c" "render_fields (f # fs) = render_field f @ c # rest"
        "fs \<noteq> [] \<longrightarrow> rest = render_fields fs"
      using render_fields_Cons by blast
    show ?case
    proof (cases "fst f = key")
      case True
      then have "f = (key, v)" using Cons.prems(2) by (cases f) simp
      then show ?thesis using r by auto
    next
      case False
      then have rest: "map_of fs key = Some v" and "fs \<noteq> []" using Cons.prems(2) by (cases f; auto)+
      then have "get (render_fields (f # fs)) key = get (render_fields fs) key"
        using get_skip_field [OF assms(1), of "fst f" "snd f" c rest] Cons.prems(1) r False by simp
      then show ?thesis using Cons.IH rest Cons.prems(1) by simp
    qed
  qed simp
  ultimately show ?thesis by simp
qed

end

lemma string_field:
  assumes "ident key" and "\<forall>f \<in> set fs. wf_field f" and "map_of fs key = Some (JStr v)"
  shows "json_get_string (object fs) key = Some v"
proof -
  obtain c rest where g: "json_get_string (object fs) key = json_get_string (jstr key v @ c # rest) key"
    using str.get_field [OF assms] by auto
  have "wf_field (key, JStr v)" using assms(2,3) map_of_SomeD by fast
  then have "string_token (CHR_quote # v @ CHR_quote # c # rest) = Some v"
    by (intro string_token_quoted) (simp add: wf_field_def)
  then show ?thesis unfolding g by (rule str.get_jstr)
qed

lemma number_field:
  assumes "ident key" and "\<forall>f \<in> set fs. wf_field f" and "map_of fs key = Some (JNum (format_double (Finite sg m e)))"
  shows "json_number_text (object fs) key = Some (format_double (Finite sg m e))"
proof -
  obtain c rest where c: "field_end c"
      and g: "json_number_text (object fs) key = json_number_text (jnum key (format_double (Finite sg m e)) @ c # rest) key"
    using num.get_field [OF assms] by auto
  have "\<not> isdigit c" using c by (auto simp: field_end_def isdigit_def digit_chars_def)
  then have tok: "number_token (format_double (Finite sg m e) @ c # rest) = Some (format_double (Finite sg m e))"
    using number_token_fixed2 [of c sg "hundredths m e" rest] by simp
  have "\<not> isspace (hd (format_double (Finite sg m e)))"
    using digits_head [of "hundredths m e div 100"] isdigit_not_space
    by (auto simp: fixed2_def isspace_def spaces_def hd_append)
  then have "dropWhile isspace (format_double (Finite sg m e) @ c # rest) = format_double (Finite sg m e) @ c # rest"
    by (intro dropWhile_hd) (auto simp: fixed2_def hd_append)
  then show ?thesis unfolding g using tok by (intro num.get_jnum) simp
qed

lemma integer_field:
  assumes "ident key" and "\<forall>f \<in> set fs. wf_field f" and "map_of fs key = Some (JNum (int_to_string i))"
  shows "json_integer_text (object fs) key = Some (int_to_string i)"
proof -
  obtain c rest where c: "field_end c"
      and g: "json_integer_text (object fs) key = json_integer_text (jnum key (int_to_string i) @ c # rest) key"
    using intg.get_field [OF assms] by auto
  have "\<not> isdigit c" using c by (auto simp: field_end_def isdigit_def digit_chars_def)
  then have tok: "integer_token (int_to_string i @ c # rest) = Some (int_to_string i)"
    by (rule integer_token_int_to_string)
  have "\<not> isspace (hd (int_to_string i))"
    using digits_head isdigit_not_space by (auto simp: int_to_string_def isspace_def spaces_def)
  then have "dropWhile isspace (int_to_string i @ c # rest) = int_to_string i @ c # rest"
    by (intro dropWhile_hd) (auto simp: int_to_string_def hd_append)
  then show ?thesis unfolding g using tok by (intro intg.get_jnum) simp
qed

section \<open>Numbers over the wire\<close>

text \<open>A finite double whose magnitude, in hundredths, is below \<open>2\<^bsup>52\<^esup>\<close>.\<close>

fun wire_double :: "double \<Rightarrow> bool" where
  "wire_double (Finite s m e) \<longleftrightarrow> hundredths m e < 2 ^ 52"
| "wire_double _ \<longleftrightarrow> False"

lemma cents_error:
  assumes "hundredths m e < 2 ^ 52" and "real m' * 2 powi e' = rnd (real (hundredths m e) / real 100)"
  shows "\<bar>val (Finite s m' e') - val (Finite s m e)\<bar> \<le> 1 / 100"
proof -
  let ?h = "real (hundredths m e)" and ?x = "real m * 2 powi e" and ?y = "real m' * 2 powi e'"
  have "?h = of_int (rhe (100 * ?x))" using hundredths_correct [of m e] by (metis of_int_of_nat_eq)
  then have first: "\<bar>?h / 100 - ?x\<bar> \<le> 1 / 200"
    using rhe_error [of "100 * ?x"] by (simp add: abs_le_iff field_simps)
  have second: "\<bar>?y - ?h / 100\<bar> \<le> 1 / 200"
  proof (cases "hundredths m e = 0")
    case True
    then show ?thesis using assms(2) rnd_fixes_grid [OF nat_in_grid [of 0]] by simp
  next
    case False
    then have "1 / 100 \<le> ?h / 100" by simp
    moreover have "(2::real) powi (- 1022) \<le> 2 powi (- 7)" by (rule powi2_le) simp
    moreover have "(2::real) powi (- 7) \<le> 1 / 100" by (simp add: power_int_def power_one_over)
    ultimately have "\<bar>rnd (?h / 100) - ?h / 100\<bar> \<le> ?h / 100 / 2 ^ 53"
      by (intro rnd_relative_error) linarith
    also have "\<dots> \<le> 1 / 200" using assms(1) of_nat_mono [of "hundredths m e" "2 ^ 52", where 'a = real] by simp
    finally show ?thesis using assms(2) by simp
  qed
  have "\<bar>?y - ?x\<bar> \<le> 1 / 100" using first second by linarith
  then show ?thesis by (cases s) (simp_all add: abs_minus_commute)
qed

lemma stod_wire_double:
  assumes "wire_double x"
  shows "\<exists>y. stod (format_double x) = Inr y \<and> format_double y = format_double x \<and> \<bar>val y - val x\<bar> \<le> 1 / 100"
proof (cases x)
  case (Finite s m e)
  then have h: "hundredths m e < 2 ^ 52" using assms by simp
  obtain m' e' where "stod (format_double (Finite s m e)) = Inr (Finite s m' e')"
      and "real m' * 2 powi e' = rnd (real (hundredths m e) / real 100)"
      and "hundredths m' e' = hundredths m e"
    using stod_format_double [OF h] by metis
  then show ?thesis using cents_error [OF h, of m' e' s] Finite by auto
qed (use assms in simp_all)

definition wire_int :: "int \<Rightarrow> bool" where
  "wire_int i \<longleftrightarrow> - (2 ^ 63) \<le> i \<and> i < 2 ^ 63"

lemma num_field_read:
  assumes "ident key" and "\<forall>f \<in> set fs. wf_field f" and "map_of fs key = Some (JNum (format_double x))"
    and "wire_double x"
  shows "\<exists>y. num_field (object fs) key = Inr y \<and> format_double y = format_double x \<and> \<bar>val y - val x\<bar> \<le> 1 / 100"
proof (cases x)
  case (Finite s m e)
  have "json_number_text (object fs) key = Some (format_double x)"
    using number_field [OF assms(1,2)] assms(3) Finite by blast
  then show ?thesis
    using stod_wire_double [OF assms(4)] by (auto simp: num_field_def json_get_number_def value_or_def)
qed (use assms in simp_all)

lemma int_field_read:
  assumes "ident key" and "\<forall>f \<in> set fs. wf_field f" and "map_of fs key = Some (JNum (int_to_string i))"
    and "wire_int i"
  shows "int_field (object fs) key = Inr i"
  using integer_field [OF assms(1-3)] stoll_int_to_string [of i] assms(4)
  by (simp add: int_field_def json_get_integer_def value_or_def wire_int_def)

section \<open>Reports over the wire\<close>

definition metric_fields :: "MetricSnapshot \<Rightarrow> (cpp_string \<times> field) list" where
  "metric_fields m =
     [(''type'', JStr ''metrics''), (''host'', JStr (escape_json (ms_host m))),
      (''timestamp'', JStr (escape_json (ms_timestamp m))),
      (''cpu_percent'', JNum (format_double (cpu_percent m))),
      (''memory_percent'', JNum (format_double (memory_percent m))),
      (''disk_percent'', JNum (format_double (disk_percent m))),
      (''network_rx_kbps'', JNum (format_double (network_rx_kbps m))),
      (''network_tx_kbps'', JNum (format_double (network_tx_kbps m))),
      (''memory_used_mb'', JNum (int_to_string (memory_used_mb m))),
      (''memory_total_mb'', JNum (int_to_string (memory_total_mb m))),
      (''disk_used_mb'', JNum (int_to_string (disk_used_mb m))),
      (''disk_total_mb'', JNum (int_to_string (disk_total_mb m)))]"

lemma metrics_payload_object: "metrics_payload m = object (metric_fields m)"
  by (simp add: metrics_payload_def metric_data_to_json_def object_def metric_fields_def jstr_def jnum_def quoted_key_def)

text \<open>A name or time stamp that needs no escaping.\<close>

definition plain_text :: "cpp_string \<Rightarrow> bool" where
  "plain_text t \<longleftrightarrow> (\<forall>c \<in> set t. plain c)"

definition wire_ok :: "MetricSnapshot \<Rightarrow> bool" where
  "wire_ok m \<longleftrightarrow> plain_text (ms_host m) \<and> plain_text (ms_timestamp m) \<and>
     (\<forall>x \<in> {cpu_percent m, memory_percent m, disk_percent m, network_rx_kbps m, network_tx_kbps m}.
        wire_double x) \<and>
     (\<forall>i \<in> {memory_used_mb m, memory_total_mb m, disk_used_mb m, disk_total_mb m}. wire_int i)"

lemma plain_text_escape: "plain_text t \<Longrightarrow> escape_json t = t"
  by (simp add: plain_text_def escape_json_plain)

lemma plain_text_no_quote: "plain_text t \<Longrightarrow> CHR_quote \<notin> set t"
  by (auto simp: plain_text_def plain_def)

lemma metric_keys_ident:
  "ident ''type''" "ident ''host''" "ident ''timestamp''" "ident ''role''" "ident ''text''" "ident ''from''"
  "ident ''cpu_percent''" "ident ''memory_percent''" "ident ''disk_percent''"
  "ident ''network_rx_kbps''" "ident ''network_tx_kbps''" "ident ''memory_used_mb''"
  "ident ''memory_total_mb''" "ident ''disk_used_mb''" "ident ''disk_total_mb''"
  by (simp_all add: ident_def ident_char_def)

lemma metric_fields_wf:
  assumes "plain_text (ms_host m)" and "plain_text (ms_timestamp m)"
  shows "\<forall>f \<in> set (metric_fields m). wf_field f"
  using assms plain_text_no_quote
  by (simp add: metric_fields_def wf_field_def metric_keys_ident format_double_no_quote int_to_string_no_quote
      plain_text_escape)

lemma str_field_read:
  "ident key \<Longrightarrow> \<forall>f \<in> set fs. wf_field f \<Longrightarrow> map_of fs key = Some (JStr v) \<Longrightarrow> str_field (object fs) key fb = v"
  by (simp add: str_field_def string_field value_or_def)

text \<open>The same report up to the rounding of its numbers to two decimals.\<close>

definition same_report :: "MetricSnapshot \<Rightarrow> MetricSnapshot \<Rightarrow> bool" where
  "same_report m m' \<longleftrightarrow>
     ms_host m' = ms_host m \<and> ms_timestamp m' = ms_timestamp m \<and>
     memory_used_mb m' = memory_used_mb m \<and> memory_total_mb m' = memory_total_mb m \<and>
     disk_used_mb m' = disk_used_mb m \<and> disk_total_mb m' = disk_total_mb m \<and>
     \<bar>val (cpu_percent m') - val (cpu_percent m)\<bar> \<le> 1 / 100 \<and>
     \<bar>val (memory_percent m') - val (memory_percent m)\<bar> \<le> 1 / 100 \<and>
     \<bar>val (disk_percent m') - val (disk_percent m)\<bar> \<le> 1 / 100 \<and>
     \<bar>val (network_rx_kbps m') - val (network_rx_kbps m)\<bar> \<le> 1 / 100 \<and>
     \<bar>val (network_tx_kbps m') - val (network_tx_kbps m)\<bar> \<le> 1 / 100 \<and>
     metric_data_to_json m' = metric_data_to_json m"

definition metric_numbers :: "MetricSnapshot \<Rightarrow> (cpp_string \<times> double) list" where
  "metric_numbers m =
     [(''cpu_percent'', cpu_percent m), (''memory_percent'', memory_percent m), (''disk_percent'', disk_percent m),
      (''network_rx_kbps'', network_rx_kbps m), (''network_tx_kbps'', network_tx_kbps m)]"

lemma payload_number:
  assumes "wire_ok m" and "(key, x) \<in> set (metric_numbers m)"
  shows "\<exists>y. num_field (metrics_payload m) key = Inr y \<and> format_double y = format_double x \<and>
    \<bar>val y - val x\<bar> \<le> 1 / 100"
proof -
  have wf: "\<forall>f \<in> set (metric_fields m). wf_field f" using assms(1) by (intro metric_fields_wf) (simp_all add: wire_ok_def)
  have "ident k \<and> map_of (metric_fields m) k = Some (JNum (format_double y)) \<and> wire_double y"
    if "(k, y) = (''cpu_percent'', cpu_percent m) \<or> (k, y) = (''memory_percent'', memory_percent m) \<or>
      (k, y) = (''disk_percent'', disk_percent m) \<or> (k, y) = (''network_rx_kbps'', network_rx_kbps m) \<or>
      (k, y) = (''network_tx_kbps'', network_tx_kbps m)" for k y
    using that by (elim disjE) (use assms(1) in \<open>simp_all add: metric_fields_def metric_keys_ident wire_ok_def\<close>)
  then have "ident key" and "map_of (metric_fields m) key = Some (JNum (format_double x))" and "wire_double x"
    using assms(2) by (simp_all add: metric_numbers_def)
  then show ?thesis unfolding metrics_payload_object by (intro num_field_read wf)
qed

lemma parse_metrics_payload:
  assumes "wire_ok m"
  shows "\<exists>m'. parse_metrics (metrics_payload m) fb now = Inr m' \<and> same_report m m'"
proof -
  have plain: "plain_text (ms_host m)" "plain_text (ms_timestamp m)" using assms by (simp_all add: wire_ok_def)
  note wf = metric_fields_wf [OF plain] and num = payload_number [OF assms, unfolded metric_numbers_def]
  obtain cpu where cpu: "num_field (metrics_payload m) ''cpu_percent'' = Inr cpu"
      "format_double cpu = format_double (cpu_percent m)" "\<bar>val cpu - val (cpu_percent m)\<bar> \<le> 1 / 100"
    using num [of "''cpu_percent''"] by auto
  obtain mem where mem: "num_field (metrics_payload m) ''memory_percent'' = Inr mem"
      "format_double mem = format_double (memory_percent m)" "\<bar>val mem - val (memory_percent m)\<bar> \<le> 1 / 100"
    using num [of "''memory_percent''"] by auto
  obtain disk where disk: "num_field (metrics_payload m) ''disk_percent'' = Inr disk"
      "format_double disk = format_double (disk_percent m)" "\<bar>val disk - val (disk_percent m)\<bar> \<le> 1 / 100"
    using num [of "''disk_percent''"] by auto
  obtain rx where rx: "num_field (metrics_payload m) ''network_rx_kbps'' = Inr rx"
      "format_double rx = format_double (network_rx_kbps m)" "\<bar>val rx - val (network_rx_kbps m)\<bar> \<le> 1 / 100"
    using num [of "''network_rx_kbps''"] by auto
  obtain tx where tx: "num_field (metrics_payload m) ''network_tx_kbps'' = Inr tx"
      "format_double tx = format_double (network_tx_kbps m)" "\<bar>val tx - val (network_tx_kbps m)\<bar> \<le> 1 / 100"
    using num [of "''network_tx_kbps''"] by auto
  have ints: "int_field (metrics_payload m) ''memory_used_mb'' = Inr (memory_used_mb m)"
      "int_field (metrics_payload m) ''memory_total_mb'' = Inr (memory_total_mb m)"
      "int_field (metrics_payload m) ''disk_used_mb'' = Inr (disk_used_mb m)"
      "int_field (metrics_payload m) ''disk_total_mb'' = Inr (disk_total_mb m)"
    using assms unfolding metrics_payload_object
    by (intro int_field_read wf metric_keys_ident; simp add: metric_fields_def wire_ok_def)+
  have strs: "str_field (metrics_payload m) ''host'' fb = ms_host m"
      "str_field (metrics_payload m) ''timestamp'' now = ms_timestamp m"
    unfolding metrics_payload_object
    by (intro str_field_read wf metric_keys_ident; simp add: metric_fields_def plain plain_text_escape)+
  let ?m' = "\<lparr>ms_host = ms_host m, ms_timestamp = ms_timestamp m, cpu_percent = cpu, memory_percent = mem,
    disk_percent = disk, network_rx_kbps = rx, network_tx_kbps = tx, memory_used_mb = memory_used_mb m,
    memory_total_mb = memory_total_mb m, disk_used_mb = disk_used_mb m, disk_total_mb = disk_total_mb m\<rparr>"
  have "parse_metrics (metrics_payload m) fb now = Inr ?m'"
    by (simp only: parse_metrics_def cpu(1) mem(1) disk(1) rx(1) tx(1) ints strs and_then.simps)
  moreover have "same_report m ?m'"
    using cpu mem disk rx tx by (simp add: same_report_def metric_data_to_json_def)
  ultimately show ?thesis by blast
qed

section \<open>What the server does with the agent's lines\<close>

lemma trim_object: "trim (object fs) = object fs"
proof -
  have "\<exists>u. render_fields fs = u @ ''}''" by (induction fs rule: render_fields.induct) auto
  then obtain u where u: "object fs = (CHR ''{'' # u) @ ''}''" by (auto simp: object_def)
  have "\<not> isspace (CHR ''{'')" "\<not> isspace (CHR ''}'')" by (simp_all add: isspace_def spaces_def)
  then show ?thesis using trim_eqI [of "[]" "[]" "object fs"] u by simp
qed

lemma object_nonempty [simp]: "object fs \<noteq> []"
  by (simp add: object_def)

lemma register_message_object:
  "register_message name = object [(''type'', JStr ''register''), (''role'', JStr ''agent''), (''host'', JStr (escape_json name))]"
  by (simp add: register_message_def object_def jstr_def quoted_key_def)

lemma register_fields:
  assumes "plain_text name"
  shows "str_field (register_message name) ''type'' fb = ''register''"
    and "str_field (register_message name) ''role'' fb = ''agent''"
    and "str_field (register_message name) ''host'' fb = name"
  using assms plain_text_no_quote [OF assms] unfolding register_message_object
  by (intro str_field_read metric_keys_ident; simp add: wf_field_def metric_keys_ident plain_text_escape)+

lemma payload_type: "plain_text (ms_host m) \<Longrightarrow> plain_text (ms_timestamp m) \<Longrightarrow> str_field (metrics_payload m) ''type'' fb = ''metrics''"
  unfolding metrics_payload_object
  by (intro str_field_read metric_keys_ident metric_fields_wf) (simp_all add: metric_fields_def)

lemma handle_registration:
  assumes "plain_text name"
  shows "handle_line env i (register_message name) s = Inr (handle_register env i (register_message name) s)"
    and "clients (handle_register env i (register_message name) s) =
      (clients s)[i := (clients s ! i)\<lparr>declared_host := name, role := Agent\<rparr>]"
proof -
  have low: "lower_copy ''agent'' = ''agent''" by code_simp
  show "handle_line env i (register_message name) s = Inr (handle_register env i (register_message name) s)"
    by (simp add: handle_line_def register_fields [OF assms])
  show "clients (handle_register env i (register_message name) s) =
      (clients s)[i := (clients s ! i)\<lparr>declared_host := name, role := Agent\<rparr>]"
    by (simp add: handle_register_clients register_fields [OF assms] new_role_def low)
qed

lemma handle_report:
  assumes "wire_ok m" and "role (clients s ! i) = Agent"
  shows "\<exists>m'. handle_line env i (metrics_payload m) s = Inr (store_metric env m' (snd (server_clock env s))) \<and>
    same_report m m'"
proof -
  have "str_field (metrics_payload m) ''type'' [] = ''metrics''"
    using assms(1) by (intro payload_type) (simp_all add: wire_ok_def)
  moreover obtain m' where "parse_metrics (metrics_payload m) (declared_host (clients s ! i))
      (iso_timestamp (fst (server_clock env s))) = Inr m'" and "same_report m m'"
    using parse_metrics_payload [OF assms(1)] by blast
  ultimately show ?thesis
    using assms(2) by (auto simp: handle_line_def handle_metrics_def case_prod_unfold)
qed

text \<open>
  C11: A report survives the wire. From the line an agent sends, the server recovers host, time stamp
  and the four sizes exactly and the five rates and percentages to within a hundredth, and what it
  would send on to the dashboards is the very text the agent sent. The report must have a name
  without quotes, backslashes and line control characters, and magnitudes below \<open>2\<^bsup>52\<^esup>\<close> hundredths.
\<close>

theorem report_round_trip:
  assumes "wire_ok m"
  shows "\<exists>m'. parse_metrics (metrics_payload m) fallback now = Inr m' \<and> same_report m m'"
  using assms by (rule parse_metrics_payload)

text \<open>
  C13: What the server does with a report of a registered agent: it becomes the latest report of its
  host and of no other host, the dashboards are sent it first, as the agent made it, and then one alert
  for each rule that newly matches.
\<close>

theorem report_relayed:
  assumes "wire_ok m" and "role (clients s ! i) = Agent" and "\<forall>r \<in> set (alert_rules s). wf_rule r"
  shows "\<exists>m' s'. handle_line env i (metrics_payload m) s = Inr s' \<and> same_report m m' \<and>
    map_of (latest_metrics s') = (map_of (latest_metrics s))(ms_host m \<mapsto> m') \<and>
    audience s' = fold (announce env m')
      (filter (\<lambda>r. rule_matches r m' \<and> \<not> latched s (ms_host m) (raw_command r)) (firsts (alert_rules s)))
      (dashboards (clients s),
       send_all env (metric_event_to_json m) (dashboards (clients s)) (snd (read_clock env (net s))))"
proof -
  obtain m' where line: "handle_line env i (metrics_payload m) s = Inr (store_metric env m' (snd (server_clock env s)))"
      and same: "same_report m m'"
    using handle_report [OF assms(1,2)] by blast
  let ?s0 = "snd (server_clock env s)"
  let ?s1 = "broadcast_to_dashboards env (metric_event_to_json m')
    (?s0\<lparr>latest_metrics := AList.update (ms_host m') m' (latest_metrics ?s0)\<rparr>)"
  have "audience (store_metric env m' ?s0) =
      fold (announce env m') (filter (alerts.fires m' ?s1) (firsts (alert_rules ?s1))) (audience ?s1)"
    using alerts.out_evals [of "alert_rules ?s1" env m' ?s1] assms(3)
    by (simp add: store_metric_def evaluate_rules_def)
  moreover have "alerts.fires m' ?s1 = (\<lambda>r. rule_matches r m' \<and> \<not> latched s (ms_host m) (raw_command r))"
  proof -
    have "latched ?s1 h raw = latched s h raw" for h raw by (simp add: latched_def)
    then show ?thesis using same by (simp add: alerts.fires_def same_report_def fun_eq_iff)
  qed
  moreover have "metric_event_to_json m' = metric_event_to_json m"
    using same by (simp add: same_report_def metric_event_to_json_def)
  moreover have "map_of (latest_metrics (store_metric env m' ?s0)) = (map_of (latest_metrics s))(ms_host m \<mapsto> m')"
    using same by (simp add: update_conv' same_report_def)
  moreover have "audience ?s1 = (dashboards (clients s),
      send_all env (metric_event_to_json m') (dashboards (clients s)) (snd (read_clock env (net s))))"
    by (simp add: audience_def broadcast_net) (simp add: server_clock_def case_prod_unfold Let_def)
  moreover have "alert_rules ?s1 = alert_rules s" by simp
  ultimately show ?thesis
    using line same by (intro exI [of _ m'] exI [of _ "store_metric env m' ?s0"] conjI) simp_all
qed

section \<open>What an agent reports is fit for the wire\<close>

lemma wire_double_val:
  assumes "is_finite x" and "\<bar>val x\<bar> \<le> 2 ^ 45"
  shows "wire_double x"
proof (cases x)
  case (Finite s m e)
  then have "real m * 2 powi e \<le> 2 ^ 45" using assms(2) by (simp add: abs_mult split: if_splits)
  then have "rhe (100 * (real m * 2 powi e)) \<le> 100 * 2 ^ 45" by (intro rhe_le_int) simp
  then have "int (hundredths m e) < 2 ^ 52" using hundredths_correct [of m e] by simp
  then show ?thesis using Finite by simp
qed (use assms in \<open>simp_all add: is_finite_def\<close>)

lemma wire_double_percentage: "percentage x \<Longrightarrow> wire_double x"
  by (rule wire_double_val) (simp_all add: percentage_def)

lemma plain_digits: "plain_text (nat_to_string n)" "k < 10 \<Longrightarrow> plain (digit_char k)"
proof -
  have digits: "plain c" if "isdigit c" for c
    using that by (auto simp: plain_def isdigit_def digit_chars_def)
  show "plain_text (nat_to_string n)" using digits nat_to_string_digits by (simp add: plain_text_def)
  show "plain (digit_char k)" if "k < 10" using digits isdigit_digit_char [OF that] by simp
qed

lemma plain_text_append [simp]: "plain_text (s @ t) \<longleftrightarrow> plain_text s \<and> plain_text t"
  by (auto simp: plain_text_def)

lemma plain_text_iso_timestamp: "plain_text (iso_timestamp now)"
proof -
  have "plain_text (pad2 n)" for n using plain_digits(2) by (simp add: pad2_def plain_text_def)
  moreover have "plain_text (int_to_string n)" for n
    using plain_digits(1) by (simp add: int_to_string_def plain_text_def plain_def)
  moreover have "plain_text ''-''" "plain_text '':''" "plain_text ''T''" "plain_text ''Z''"
    by (simp_all add: plain_text_def plain_def)
  ultimately show ?thesis by (simp add: iso_timestamp_def Let_def case_prod_unfold del: append.simps)
qed

definition plausible_net :: "NetSample \<Rightarrow> NetSample \<Rightarrow> bool" where
  "plausible_net previous current \<longleftrightarrow>
     unat (rx_bytes current - rx_bytes previous) \<le> 2 ^ 53 \<and> unat (tx_bytes current - tx_bytes previous) \<le> 2 ^ 53"

lemma collected_wire_ok:
  assumes "probe_mem p = ProcMeminfo (Some (meminfo_text es @ tail))"
    and "\<forall>e \<in> set es. meminfo_entry e" and "distinct (map fst es)"
    and "map_of es ''MemTotal:'' = Some T" and "map_of es ''MemAvailable:'' = Some A"
    and "0 < A" and "A \<le> T" and "100 * T \<le> 2 ^ 53"
    and "probe_disk p = Statvfs (Some st)" and "plausible_disk st"
    and "plausible_cpu prev_cpu (read_cpu_sample (probe_cpu p))"
    and "plausible_net prev_net (read_net_sample (probe_net p))"
    and "denotes elapsed seconds" and "1 \<le> seconds" and "plain_text host"
  shows "wire_ok (fst (collect_metrics host now p prev_cpu prev_net elapsed))"
proof -
  obtain metric cpu net where c: "collect_metrics host now p prev_cpu prev_net elapsed = (metric, cpu, net)"
    by (metis prod_cases3)
  note facts = collect_linux [OF assms(1-11) c]
  have rate: "wire_double (net_rate a b elapsed)" if "unat (b - a) \<le> 2 ^ 53" for a b
    using net_rate_bound [OF that assms(13,14)] by (intro wire_double_val) simp_all
  have "wire_double dbl_zero" by (rule wire_double_percentage) simp
  then have rates: "wire_double (network_rx_kbps metric)" "wire_double (network_tx_kbps metric)"
    using facts(12,13) rate assms(12) by (auto simp: plausible_net_def facts(4))
  have mb: "wire_int (megabytes w)" for w
  proof -
    have "unat w div 2 ^ 20 \<le> unat w div 2" by (rule div_le_mono2) simp_all
    then have "unat w div 2 ^ 20 < 2 ^ 63" using unsigned_less [of w, where 'a = nat] by simp
    then have "int (unat w div 2 ^ 20) < 2 ^ 63" by simp
    then show ?thesis by (simp add: megabytes_def wire_int_def uint_nat unat_div)
  qed
  have kb: "wire_int (int (n div 1024))" if "n \<le> T" for n
    using that assms(8) by (auto simp: wire_int_def)
  have ints: "wire_int (memory_used_mb metric)" "wire_int (memory_total_mb metric)"
      "wire_int (disk_used_mb metric)" "wire_int (disk_total_mb metric)"
    unfolding facts(5-8) by (rule kb mb; simp)+
  show ?thesis
    using facts(9-11) rates ints assms(15) wire_double_percentage plain_text_iso_timestamp
    by (simp add: wire_ok_def c facts(1,2))
qed

section \<open>An agent and a server\<close>

text \<open>
  The report an agent makes at a loop head, and the reports it makes over a sequence of loop heads
  at which it stays connected.
\<close>

definition next_report :: "env \<Rightarrow> AgentConfig \<Rightarrow> agent_input \<Rightarrow> agent \<Rightarrow> MetricSnapshot" where
  "next_report env config i a =
     fst (collect_metrics (agent_name config) (fst (read_clock env (agent_net a))) (system i)
       (previous_cpu a) (previous_net a) (elapsed_seconds (steady_now i - previous_tick a)))"

fun reports :: "env \<Rightarrow> AgentConfig \<Rightarrow> agent_input list \<Rightarrow> agent \<Rightarrow> MetricSnapshot list" where
  "reports env config [] a = []"
| "reports env config (i # is) a =
     next_report env config i a #
     (case agent_step env config i a of Inr a' \<Rightarrow> reports env config is a' | Inl e \<Rightarrow> [])"

lemma next_report_host: "ms_host (next_report env config i a) = agent_name config"
  by (simp add: next_report_def collect_metrics_def Let_def case_prod_unfold)

lemma elapsed_seconds_denotes:
  assumes "10 ^ 9 \<le> nanos" and "nanos \<le> 2 ^ 53"
  shows "denotes (elapsed_seconds nanos) (rnd (real_of_int nanos / 10 ^ 9)) \<and> 1 \<le> rnd (real_of_int nanos / 10 ^ 9)"
proof -
  obtain n where n: "nanos = int n" using assms(1) by (metis nonneg_int_cases order_trans zero_le_numeral zero_le_power)
  have le: "n \<le> 2 ^ 53" using assms(2) n by simp
  have "real n \<le> real (2 ^ 53)" using le by (simp only: of_nat_le_iff)
  then have range: "in_range (real n / real 1000000000)" by (intro in_rangeI [of _ 53]) simp_all
  have "dbl_of_int nanos = dbl_of_nat n" by (simp add: n dbl_of_int_def dbl_of_nat_def)
  then have "denotes (elapsed_seconds nanos) (rnd (real n / real 1000000000))"
    using denotes_div [OF denotes_of_nat_exact [OF le] denotes_of_nat_exact [of 1000000000] _ range]
    by (simp add: elapsed_seconds_def)
  moreover have "rnd (real 1) \<le> rnd (real n / 10 ^ 9)" using assms(1) n by (intro rnd_mono) simp
  moreover have "rnd (real 1) = 1" using rnd_fixes_grid [OF nat_in_grid [of 1]] by simp
  ultimately show ?thesis by (simp add: n)
qed

text \<open>What an agent connected on a reliable network has sent: its registration and its reports.\<close>

definition agent_bytes :: "cpp_string \<Rightarrow> MetricSnapshot list \<Rightarrow> cpp_string" where
  "agent_bytes name ms = unlines (register_message name # map metrics_payload ms)"

lemma report_step_reliable:
  assumes "reliable env" and "phase a = Inner f"
  shows "\<exists>a'. report_step env config i f a = Inr a' \<and> phase a' = Inner f \<and>
    stream (agent_net a') f = stream (agent_net a) f @ metrics_payload (next_report env config i a) @ [CHR_nl]"
proof -
  let ?m = "next_report env config i a"
  let ?w = "snd (send_line env False f (metrics_payload ?m) (snd (read_clock env (agent_net a))))"
  have "stream ?w f = stream (agent_net a) f @ metrics_payload ?m @ [CHR_nl]"
    by (simp add: send_line_reliable [OF assms(1)] read_clock_def stream_def)
  moreover have "\<exists>a'. report_step env config i f a = Inr a' \<and> phase a' = Inner f \<and> agent_net a' = ?w"
    by (simp add: report_step_def next_report_def Let_def case_prod_unfold sleep_seconds_def
        send_line_reliable [OF assms(1)])
  ultimately show ?thesis by metis
qed

lemma agent_run_reliable:
  assumes "reliable env" and "phase a = Inner f" and "\<forall>i \<in> set inputs. running i"
  shows "\<exists>a'. agent_run env config inputs a = Inr a' \<and>
    length (reports env config inputs a) = length inputs \<and>
    (\<forall>m \<in> set (reports env config inputs a). ms_host m = agent_name config) \<and>
    stream (agent_net a') f = stream (agent_net a) f @ unlines (map metrics_payload (reports env config inputs a))"
  using assms(2,3)
proof (induction inputs arbitrary: a)
  case (Cons i inputs)
  obtain a1 where step: "report_step env config i f a = Inr a1" "phase a1 = Inner f"
      "stream (agent_net a1) f = stream (agent_net a) f @ metrics_payload (next_report env config i a) @ [CHR_nl]"
    using report_step_reliable [OF assms(1) Cons.prems(1)] by blast
  have "agent_step env config i a = Inr a1" using Cons.prems step(1) by (simp add: agent_step_def)
  then show ?case using Cons.IH [OF step(2)] Cons.prems(2) step(3) by (auto simp: next_report_host)
qed simp

lemma handle_reports:
  assumes "role (clients s ! i) = Agent" and "\<forall>m \<in> set ms. wire_ok m \<and> ms_host m = name"
  shows "\<exists>s'. each_line (handle_line env i) (map metrics_payload ms) s = Inr s' \<and> clients s' = clients s \<and>
    (ms \<noteq> [] \<longrightarrow> (\<exists>m'. map_of (latest_metrics s') name = Some m' \<and> same_report (last ms) m'))"
  using assms
proof (induction ms arbitrary: s)
  case (Cons m ms)
  obtain m' where line: "handle_line env i (metrics_payload m) s = Inr (store_metric env m' (snd (server_clock env s)))"
      and same: "same_report m m'"
    using handle_report [of m s i env] Cons.prems by auto
  let ?s1 = "store_metric env m' (snd (server_clock env s))"
  have "role (clients ?s1 ! i) = Agent" using Cons.prems by simp
  then obtain s' where rest: "each_line (handle_line env i) (map metrics_payload ms) ?s1 = Inr s'"
      "clients s' = clients ?s1"
      "ms \<noteq> [] \<longrightarrow> (\<exists>m'. map_of (latest_metrics s') name = Some m' \<and> same_report (last ms) m')"
    using Cons.IH Cons.prems(2) by (metis list.set_intros(2))
  have "map_of (latest_metrics ?s1) name = Some m'"
    using same Cons.prems(2) by (simp add: same_report_def update_conv')
  then have "ms = [] \<Longrightarrow> map_of (latest_metrics s') name = Some m'" using rest(1) by auto
  then show ?case using rest line same by (cases "ms = []") auto
qed simp

lemma agent_lines_free:
  "nl_free (register_message name)" "nl_free (metrics_payload m)"
proof -
  have "one_line (register_message name)" by (simp add: register_message_def)
  then show "nl_free (register_message name)" by (simp add: one_line_def)
  have "one_line (drop 1 (metric_data_to_json m))"
    using one_line_metric_data [of m] by (auto simp: one_line_def dest: in_set_dropD)
  then have "one_line (metrics_payload m)" by (simp add: metrics_payload_def)
  then show "nl_free (metrics_payload m)" by (simp add: one_line_def)
qed

lemma handle_agent_lines:
  assumes "i < length (clients s)" and "plain_text name" and "\<forall>m \<in> set ms. wire_ok m \<and> ms_host m = name"
  shows "\<exists>s'. each_line (handle_line env i) (register_message name # map metrics_payload ms) s = Inr s' \<and>
    clients s' = (clients s)[i := (clients s ! i)\<lparr>declared_host := name, role := Agent\<rparr>] \<and>
    (ms \<noteq> [] \<longrightarrow> (\<exists>m'. map_of (latest_metrics s') name = Some m' \<and> same_report (last ms) m'))"
proof -
  let ?s1 = "handle_register env i (register_message name) s"
  have c: "clients ?s1 = (clients s)[i := (clients s ! i)\<lparr>declared_host := name, role := Agent\<rparr>]"
    by (rule handle_registration(2) [OF assms(2)])
  then have "role (clients ?s1 ! i) = Agent" using assms(1) by simp
  from handle_reports [OF this assms(3)] show ?thesis
    by (simp add: handle_registration(1) [OF assms(2)] c)
qed

lemma server_reads_agent:
  assumes "i < length (clients s)" and "buffer (clients s ! i) = []" and "plain_text name"
    and "\<forall>m \<in> set ms. wire_ok m \<and> ms_host m = name"
    and "\<forall>c \<in> set chunks. recv_chunk c" and "concat chunks = agent_bytes name ms"
  shows "\<exists>s'. read_chunks env i chunks s = Inr s' \<and>
    clients s' = (clients s)[i := (clients s ! i)\<lparr>declared_host := name, role := Agent, buffer := []\<rparr>] \<and>
    (ms \<noteq> [] \<longrightarrow> (\<exists>m'. map_of (latest_metrics s') name = Some m' \<and> same_report (last ms) m'))"
proof -
  let ?ls = "register_message name # map metrics_payload ms"
  have trimmed: "map trim ?ls = ?ls" and nonempty: "filter (\<lambda>l. l \<noteq> []) ?ls = ?ls"
    by (simp_all add: register_message_object metrics_payload_object trim_object comp_def filter_True)
  have free: "\<forall>l \<in> set ?ls. nl_free l" using agent_lines_free by auto
  let ?b = "append_bytes i (agent_bytes name ms) s"
  have "read_chunks env i chunks s = process_lines env i ?b"
    using read_chunks_whole [OF assms(1,5)] assms(2,6) by simp
  also have "\<dots> = map_result (set_buffer i []) (each_line (handle_if_nonempty env i) (map trim ?ls) ?b)"
    using conn.process_lines_spec [of i ?b ?ls "[]" env] assms(1,2) free by (simp add: agent_bytes_def)
  also have "\<dots> = map_result (set_buffer i []) (each_line (handle_line env i) ?ls ?b)"
    by (simp only: each_line_nonempty trimmed nonempty)
  finally have run: "read_chunks env i chunks s = map_result (set_buffer i []) (each_line (handle_line env i) ?ls ?b)" .
  obtain s1 where s1: "each_line (handle_line env i) ?ls ?b = Inr s1"
      "clients s1 = (clients ?b)[i := (clients ?b ! i)\<lparr>declared_host := name, role := Agent\<rparr>]"
      "ms \<noteq> [] \<longrightarrow> (\<exists>m'. map_of (latest_metrics s1) name = Some m' \<and> same_report (last ms) m')"
    using handle_agent_lines [of i ?b name ms env] assms(1,3,4) by auto
  have "clients (set_buffer i [] s1) =
      (clients s)[i := (clients s ! i)\<lparr>declared_host := name, role := Agent, buffer := []\<rparr>]"
    using assms(1) by (simp add: s1(2) append_bytes_def)
  then show ?thesis using run s1 by simp
qed

lemma connect_step_reliable:
  assumes "reliable env" and "phase a = Outer" and "agent_step env config i a = Inr a1" and "phase a1 = Inner f"
  shows "stream (agent_net a1) f = stream (agent_net a) f @ register_message (agent_name config) @ [CHR_nl]"
  using assms(2-4)
  by (auto simp: agent_step_def connect_step_def connect_to_server_def Let_def send_line_reliable [OF assms(1)]
      sleep_seconds_def open_socket_def stream_def split: if_splits option.splits)

lemma agent_sends:
  assumes "reliable env" and "phase a = Outer" and "agent_step env config i a = Inr a1" and "phase a1 = Inner f"
    and "stream (agent_net a) f = []" and "\<forall>j \<in> set inputs. running j"
  shows "\<exists>a'. agent_run env config (i # inputs) a = Inr a' \<and>
    length (reports env config inputs a1) = length inputs \<and>
    (\<forall>m \<in> set (reports env config inputs a1). ms_host m = agent_name config) \<and>
    stream (agent_net a') f = agent_bytes (agent_name config) (reports env config inputs a1)"
  using agent_run_reliable [OF assms(1,4,6)] connect_step_reliable [OF assms(1-4)] assms(3,5)
  by (fastforce simp: agent_bytes_def)

lemma next_report_wire_ok:
  assumes "probe_mem (system i) = ProcMeminfo (Some (meminfo_text es @ tail))"
    and "\<forall>e \<in> set es. meminfo_entry e" and "distinct (map fst es)"
    and "map_of es ''MemTotal:'' = Some T" and "map_of es ''MemAvailable:'' = Some A"
    and "0 < A" and "A \<le> T" and "100 * T \<le> 2 ^ 53"
    and "probe_disk (system i) = Statvfs (Some st)" and "plausible_disk st"
    and "plausible_cpu (previous_cpu a) (read_cpu_sample (probe_cpu (system i)))"
    and "plausible_net (previous_net a) (read_net_sample (probe_net (system i)))"
    and "10 ^ 9 \<le> steady_now i - previous_tick a" and "steady_now i - previous_tick a \<le> 2 ^ 53"
    and "plain_text (agent_name config)"
  shows "wire_ok (next_report env config i a)"
  unfolding next_report_def
  using elapsed_seconds_denotes [OF assms(13,14)] by (intro collected_wire_ok [OF assms(1-12)] assms(15)) auto

text \<open>
  C12: The server understands what a Linux agent measures. When the kernel's figures are plausible
  (available memory and disk within the total, idle time within the total time, at most
  \<open>2\<^bsup>53\<^esup>\<close> bytes of traffic), at least a second has passed since the last report and the
  agent's name needs no escaping, the line the agent sends is read back as the report it made.
\<close>

theorem measured_report_understood:
  assumes "probe_mem (system i) = ProcMeminfo (Some (meminfo_text es @ tail))"
    and "\<forall>e \<in> set es. meminfo_entry e" and "distinct (map fst es)"
    and "map_of es ''MemTotal:'' = Some T" and "map_of es ''MemAvailable:'' = Some A"
    and "0 < A" and "A \<le> T" and "100 * T \<le> 2 ^ 53"
    and "probe_disk (system i) = Statvfs (Some st)" and "plausible_disk st"
    and "plausible_cpu (previous_cpu a) (read_cpu_sample (probe_cpu (system i)))"
    and "plausible_net (previous_net a) (read_net_sample (probe_net (system i)))"
    and "10 ^ 9 \<le> steady_now i - previous_tick a" and "steady_now i - previous_tick a \<le> 2 ^ 53"
    and "plain_text (agent_name config)"
  shows "\<exists>m'. parse_metrics (metrics_payload (next_report env config i a)) fallback now = Inr m' \<and>
    same_report (next_report env config i a) m'"
  by (rule parse_metrics_payload [OF next_report_wire_ok [OF assms]])

section \<open>Examples\<close>

lemma sample_report_wire_ok: "wire_ok (cpu_report ''web1'' 95)"
proof -
  have "wire_double (dbl_of_nat 95)" by (simp add: dbl_evals hundredths_def)
  moreover have "wire_double dbl_zero" by (simp add: hundredths_def rhe_div_def Let_def)
  ultimately show ?thesis
    by (simp add: wire_ok_def cpu_report_def default_MetricSnapshot_def plain_text_def plain_def wire_int_def)
qed

theorem report_round_trip_example:
  "\<exists>m'. parse_metrics (metrics_payload (cpu_report ''web1'' 95)) ''peer'' ''now'' = Inr m' \<and>
     ms_host m' = ''web1'' \<and> \<bar>val (cpu_percent m') - val (dbl_of_nat 95)\<bar> \<le> 1 / 100"
  using report_round_trip [OF sample_report_wire_ok, of "''peer''" "''now''"]
  by (auto simp: same_report_def cpu_report_def)

theorem report_relayed_example:
  "\<exists>m' s'. handle_line steady_env 0 (metrics_payload (cpu_report ''web1'' 95)) (sample_server Agent) = Inr s' \<and>
     map_of (latest_metrics s') ''web1'' = Some m' \<and>
     audience s' = ([], send_all steady_env (metric_event_to_json (cpu_report ''web1'' 95)) []
       (snd (read_clock steady_env initial_world)))"
proof -
  have s: "role (clients (sample_server Agent) ! 0) = Agent" "alert_rules (sample_server Agent) = []"
      "dashboards (clients (sample_server Agent)) = []" "net (sample_server Agent) = initial_world"
    by (simp_all add: sample_server_def sample_client_def dashboards_def)
  have host: "ms_host (cpu_report ''web1'' 95) = ''web1''" by (simp add: cpu_report_def)
  show ?thesis
    using report_relayed [OF sample_report_wire_ok s(1), of steady_env] unfolding s host by fastforce
qed

text \<open>An agent that connects on socket 7, and reports five seconds later.\<close>

definition web_config :: AgentConfig where
  "web_config = (default_AgentConfig (GetHostName None))\<lparr>agent_name := ''web1''\<rparr>"

definition connecting_input :: agent_input where
  "connecting_input = \<lparr>running = True, still_running = True,
     calls = \<lparr>client_socket_ret = 7, inet_addr = (\<lambda>_. Some 1), gethostbyname = (\<lambda>_. None), connect_ret = (\<lambda>_ _. 0)\<rparr>,
     steady_now = 0, system = sample_probe\<rparr>"

definition reporting_input :: agent_input where
  "reporting_input = connecting_input\<lparr>steady_now := 5 * 10 ^ 9\<rparr>"

lemma sample_samples: "read_cpu_sample (probe_cpu sample_probe) = no_cpu" "read_net_sample (probe_net sample_probe) = no_net"
  by (simp_all add: sample_probe_def open_file_def extract_word_def skip_ws_def extract_u64_def numeral_eq_Suc no_cpu_def)

lemma sample_input_plausible:
  assumes "previous_cpu a = no_cpu" and "previous_net a = no_net" and "previous_tick a = 0"
  shows "probe_mem (system reporting_input) = ProcMeminfo (Some (meminfo_text sample_meminfo @ []))"
    and "probe_disk (system reporting_input) = Statvfs (Some \<lparr>f_blocks = 1000, f_bavail = 250, f_frsize = 4096\<rparr>)"
    and "plausible_disk \<lparr>f_blocks = 1000, f_bavail = 250, f_frsize = 4096\<rparr>"
    and "plausible_cpu (previous_cpu a) (read_cpu_sample (probe_cpu (system reporting_input)))"
    and "plausible_net (previous_net a) (read_net_sample (probe_net (system reporting_input)))"
    and "10 ^ 9 \<le> steady_now reporting_input - previous_tick a"
    and "steady_now reporting_input - previous_tick a \<le> 2 ^ 53"
    and "plain_text (agent_name web_config)"
  using assms sample_samples
  by (simp_all add: reporting_input_def connecting_input_def sample_probe_def plausible_disk_def plausible_cpu_def
      plausible_net_def no_cpu_def no_net_def web_config_def plain_text_def plain_def)

lemma sample_memory: "(0::nat) < 4096" "(4096::nat) \<le> 16384" "100 * (16384::nat) \<le> 2 ^ 53"
  by simp_all

lemma initial_sample_agent:
  "previous_cpu (initial_agent sample_probe 0) = no_cpu" "previous_net (initial_agent sample_probe 0) = no_net"
  "previous_tick (initial_agent sample_probe 0) = 0"
  using sample_samples by (simp_all add: initial_agent_def)

lemma sample_connects:
  "\<exists>a1. agent_step steady_env web_config connecting_input (initial_agent sample_probe 0) = Inr a1 \<and> phase a1 = Inner 7 \<and>
     previous_cpu a1 = no_cpu \<and> previous_net a1 = no_net \<and> previous_tick a1 = 0"
proof -
  have "\<exists>w. connect_to_server steady_env (calls connecting_input) web_config initial_world = (Inr (True, 7), w)"
    by (simp add: connect_to_server_def connecting_input_def is_socket_valid_def server_address_def
        send_line_reliable Let_def)
  then show ?thesis
    using initial_sample_agent
    by (auto simp: agent_step_def connect_step_def initial_agent_def connecting_input_def)
qed

theorem measured_report_understood_example:
  "\<exists>m'. parse_metrics (metrics_payload (next_report steady_env web_config reporting_input (initial_agent sample_probe 0)))
      ''peer'' ''now'' = Inr m' \<and> ms_host m' = ''web1''"
proof -
  note sample = sample_input_plausible [OF initial_sample_agent]
  have "ms_host m' = ms_host m" if "same_report m m'" for m m' using that by (simp add: same_report_def)
  moreover have "agent_name web_config = ''web1''" by (simp add: web_config_def)
  ultimately show ?thesis
    using measured_report_understood [OF sample(1) sample_meminfo_facts sample_memory sample(2-8),
        of steady_env "''peer''" "''now''"]
    by (metis next_report_host)
qed

end
