(* ===== verification/Agent_Reconnect.thy ===== *)
theory Agent_Reconnect
  imports Agent_Server
begin

text \<open>
  An agent whose report is interrupted: what has gone out by then, and whether it reconnects. The kernel may
  take a line in parts; the call after some of them fails, takes nothing, or raises \<^verbatim>\<open>SIGPIPE\<close>.
\<close>

section \<open>A line that is not taken whole\<close>

text \<open>
  From the call \<open>k\<close> on, the kernel takes \<open>ns\<close> bytes of the \<open>len\<close> there are, in as many calls, and
  answers the next one with \<open>r\<close>.
\<close>

fun answers :: "env \<Rightarrow> socket_t \<Rightarrow> nat \<Rightarrow> nat \<Rightarrow> nat list \<Rightarrow> send_ret \<Rightarrow> bool" where
  "answers env f k len [] r \<longleftrightarrow> send_at env k f len = r"
| "answers env f k len (n # ns) r \<longleftrightarrow>
     0 < n \<and> n < len \<and> send_at env k f len = Accepted n \<and> answers env f (Suc k) (len - n) ns r"

definition interrupts :: "send_ret \<Rightarrow> bool" where
  "interrupts r \<longleftrightarrow> r \<in> {Failed, Accepted 0, Broken_pipe}"

lemma send_loop_interrupted:
  assumes "answers env f (send_calls w) (length data - sent) ns r" and "interrupts r" and "sent < length data"
  shows "\<exists>w'. send_loop env ign f data sent w =
      (if r = Broken_pipe \<and> \<not> ign then Inl Killed_by_SIGPIPE else Inr False, w') \<and>
    stream w' f = stream w f @ take (sum_list ns) (drop sent data) \<and> send_calls w' = send_calls w + Suc (length ns)"
  using assms
proof (induction ns arbitrary: sent w)
  case Nil
  then show ?case by (auto simp: send_loop.simps [of env ign f data sent] interrupts_def Let_def)
next
  case (Cons n ns)
  let ?w = "w\<lparr>send_calls := Suc (send_calls w), wire := wire w @ [(f, take n (drop sent data))]\<rparr>"
  have n: "0 < n" "sent + n < length data" "send_at env (send_calls w) f (length data - sent) = Accepted n"
    using Cons.prems by (auto simp: less_diff_conv)
  have step: "send_loop env ign f data sent w = send_loop env ign f data (sent + n) ?w"
    using n Cons.prems(3) by (simp add: send_loop.simps [of env ign f data sent] Let_def)
  have "stream ?w f = stream w f @ take n (drop sent data)" by (simp add: stream_def)
  moreover have "take (n + sum_list ns) (drop sent data) = take n (drop sent data) @ take (sum_list ns) (drop (sent + n) data)"
    by (simp add: take_add add.commute)
  ultimately show ?case using Cons.IH [of ?w "sent + n"] Cons.prems n by (simp add: step)
qed

lemma send_line_interrupted:
  assumes "answers env f (send_calls w) (Suc (length p)) ns r" and "interrupts r"
  shows "\<exists>w'. send_line env ign f p w =
      (if r = Broken_pipe \<and> \<not> ign then Inl Killed_by_SIGPIPE else Inr False, w') \<and>
    stream w' f = stream w f @ take (sum_list ns) (p @ [CHR_nl]) \<and> send_calls w' = send_calls w + Suc (length ns)"
  using send_loop_interrupted [of env f w "p @ [CHR_nl]" 0 ns r ign] assms by (simp add: send_line_def)

lemma send_line_at_once:
  assumes "send_at env (send_calls w) f (Suc (length p)) = Accepted (Suc (length p))"
  shows "\<exists>w'. send_line env ign f p w = (Inr True, w')"
proof -
  have "send_loop env ign f (p @ [CHR_nl]) (Suc (length p)) w' = (Inr True, w')" for w'
    by (simp add: send_loop.simps [of env ign f _ "Suc (length p)"])
  then show ?thesis using assms by (simp add: send_line_def send_loop.simps [of env ign f _ 0] Let_def)
qed

section \<open>Reconnecting\<close>

lemma connected_registered:
  assumes "connect_to_server env cs config w = (Inr (True, g), w')"
  shows "opened w' = opened w @ [g]" and "closed w' = closed w"
    and "stream w' g = stream w g @ register_message (agent_name config) @ [CHR_nl]"
proof -
  let ?w1 = "open_socket (client_socket_ret cs) w"
  obtain r w2 where send: "send_line env False (client_socket_ret cs) (register_message (agent_name config)) ?w1 = (r, w2)"
    by (metis surj_pair)
  have g: "g = client_socket_ret cs" "r = Inr True" "w' = w2"
    using assms send by (auto simp: connect_to_server_def Let_def split: if_splits option.splits sum.splits bool.splits)
  show "opened w' = opened w @ [g]" "closed w' = closed w"
    using send_line_sockets [OF send] by (simp_all add: g open_socket_def)
  obtain n where "stream w2 g = stream ?w1 g @ take n (register_message (agent_name config) @ [CHR_nl])"
      "length (register_message (agent_name config) @ [CHR_nl]) \<le> n"
    using send_line_effect [OF send] g by (auto simp: sent_effect_def)
  then show "stream w' g = stream w g @ register_message (agent_name config) @ [CHR_nl]"
    by (simp add: g(3) open_socket_def)
qed

text \<open>
  C39: A report that the network stops taking, after any number of calls that took parts of it. When the last
  call fails or takes nothing, the agent has sent the beginning of the report, closes the socket, waits,
  and is back where it connects; the next connection, if there is one, opens one new socket and registers
  on it anew. When the call raises \<^verbatim>\<open>SIGPIPE\<close>, which is what the kernel does on a
  connection the server has closed, the agent, unlike the server, does not ignore the signal: it ends, and
  nothing of this happens.
\<close>

theorem interrupted_report:
  assumes "phase a = Inner f" and "is_socket_valid Posix f" and "running i"
    and "answers env f (send_calls (agent_net a)) (Suc (length (metrics_payload (next_report env config i a)))) ns r"
    and "interrupts r"
  shows "if r = Broken_pipe then agent_step env config i a = Inl Killed_by_SIGPIPE
    else \<exists>a'. agent_step env config i a = Inr a' \<and> phase a' = Outer \<and>
      closed (agent_net a') = closed (agent_net a) @ [f] \<and> opened (agent_net a') = opened (agent_net a) \<and>
      stream (agent_net a') f =
        stream (agent_net a) f @ take (sum_list ns) (metrics_payload (next_report env config i a) @ [CHR_nl]) \<and>
      slept a' = slept a @ interval_seconds config # (if still_running i then [2] else []) \<and>
      previous_tick a' = steady_now i \<and> send_calls (agent_net a') = send_calls (agent_net a) + Suc (length ns) \<and>
      (\<forall>j g a''. agent_step env config j a' = Inr a'' \<and> phase a'' = Inner g \<longrightarrow>
         opened (agent_net a'') = opened (agent_net a) @ [g] \<and> closed (agent_net a'') = closed (agent_net a) @ [f] \<and>
         stream (agent_net a'') g = stream (agent_net a') g @ register_message (agent_name config) @ [CHR_nl])"
proof -
  let ?p = "metrics_payload (next_report env config i a)" and ?w = "snd (read_clock env (agent_net a))"
  obtain w' where send: "send_line env False f ?p ?w = (if r = Broken_pipe then Inl Killed_by_SIGPIPE else Inr False, w')"
      "stream w' f = stream (agent_net a) f @ take (sum_list ns) (?p @ [CHR_nl])"
      "send_calls w' = send_calls (agent_net a) + Suc (length ns)"
    using send_line_interrupted [of env f ?w ?p ns r False] assms(4,5) by (auto simp: read_clock_def)
  have frame: "opened w' = opened (agent_net a)" "closed w' = closed (agent_net a)"
    using send_line_sockets [OF send(1)] by (simp_all add: read_clock_def)
  have step: "agent_step env config i a = report_step env config i f a" using assms(1,3) by (simp add: agent_step_def)
  show ?thesis
  proof (cases "r = Broken_pipe")
    case True
    then have "report_step env config i f a = Inl Killed_by_SIGPIPE"
      using send(1) by (simp add: report_step_def next_report_def Let_def case_prod_unfold sleep_seconds_def)
    then show ?thesis using True step by simp
  next
    case False
    obtain a' where a': "report_step env config i f a = Inr a'" "phase a' = Outer" "agent_net a' = close_socket Posix f w'"
        "slept a' = slept a @ interval_seconds config # (if still_running i then [2] else [])" "previous_tick a' = steady_now i"
      using send(1) False
      by (simp add: report_step_def next_report_def Let_def case_prod_unfold sleep_seconds_def leave_inner_def)
    have net: "closed (agent_net a') = closed (agent_net a) @ [f]" "opened (agent_net a') = opened (agent_net a)"
        "stream (agent_net a') f = stream w' f" "send_calls (agent_net a') = send_calls w'"
      using assms(2) frame by (simp_all add: a'(3) close_socket_def)
    have again: "\<forall>j g a''. agent_step env config j a' = Inr a'' \<and> phase a'' = Inner g \<longrightarrow>
        opened (agent_net a'') = opened (agent_net a) @ [g] \<and> closed (agent_net a'') = closed (agent_net a) @ [f] \<and>
        stream (agent_net a'') g = stream (agent_net a') g @ register_message (agent_name config) @ [CHR_nl]"
    proof (intro allI impI)
      fix j g a''
      assume "agent_step env config j a' = Inr a'' \<and> phase a'' = Inner g"
      then have "connect_to_server env (calls j) config (agent_net a') = (Inr (True, g), agent_net a'')"
        using a'(2)
        by (auto simp: agent_step_def connect_step_def sleep_seconds_def split: if_splits sum.splits prod.splits)
      from connected_registered [OF this] show "opened (agent_net a'') = opened (agent_net a) @ [g] \<and>
          closed (agent_net a'') = closed (agent_net a) @ [f] \<and>
          stream (agent_net a'') g = stream (agent_net a') g @ register_message (agent_name config) @ [CHR_nl]"
        by (simp add: net(1,2))
    qed
    show ?thesis
      unfolding if_not_P [OF False] using step a'(1,2,4,5) net send(2,3) again
      by (intro exI [of _ a'] conjI) (simp_all only: )
  qed
qed

section \<open>Example\<close>

text \<open>The first ten bytes of the report go out, then a call fails; or it meets a connection that is closed.\<close>

definition failing_env :: "send_ret \<Rightarrow> env" where
  "failing_env r = \<lparr>clock_at = (\<lambda>_. 0),
     send_at = (\<lambda>k _ len. if k = 0 then Accepted 10 else if k = 1 then r else Accepted len)\<rparr>"

theorem interrupted_report_example:
  "(\<exists>a'' report. agent_run (failing_env Failed) web_config [reporting_input, connecting_input] connected_agent = Inr a'' \<and>
      phase a'' = Inner 7 \<and> closed (agent_net a'') = [7] \<and> opened (agent_net a'') = [7, 7] \<and>
      stream (agent_net a'') 7 = take 10 report @ register_message ''web1'' @ [CHR_nl]) \<and>
   agent_run (failing_env Broken_pipe) web_config [reporting_input, connecting_input] connected_agent = Inl Killed_by_SIGPIPE"
proof -
  let ?p = "\<lambda>env. metrics_payload (next_report env web_config reporting_input connected_agent)"
  have a: "phase connected_agent = Inner 7" "is_socket_valid Posix 7" "running reporting_input"
      "closed (agent_net connected_agent) = []" "opened (agent_net connected_agent) = [7]"
      "send_calls (agent_net connected_agent) = 0" "stream (agent_net connected_agent) 7 = []" "agent_name web_config = ''web1''"
    by (simp_all add: connected_agent_def is_socket_valid_def reporting_input_def connecting_input_def initial_world_def
        stream_def web_config_def)
  have "10 < Suc (length (?p env))" for env by (simp add: metrics_payload_def)
  then have ans: "answers (failing_env r) 7 (send_calls (agent_net connected_agent)) (Suc (length (?p (failing_env r)))) [10] r" for r
    by (simp add: failing_env_def a(6))
  have killed: "agent_step (failing_env Broken_pipe) web_config reporting_input connected_agent = Inl Killed_by_SIGPIPE"
    using interrupted_report [OF a(1-3) ans] by (simp add: interrupts_def)
  let ?env = "failing_env Failed"
  obtain a' where a': "agent_step ?env web_config reporting_input connected_agent = Inr a'" "phase a' = Outer"
      "stream (agent_net a') 7 = take 10 (?p ?env @ [CHR_nl])" "send_calls (agent_net a') = 2"
    and again: "\<forall>j g a''. agent_step ?env web_config j a' = Inr a'' \<and> phase a'' = Inner g \<longrightarrow>
         opened (agent_net a'') = [7, g] \<and> closed (agent_net a'') = [7] \<and>
         stream (agent_net a'') g = stream (agent_net a') g @ register_message ''web1'' @ [CHR_nl]"
    using interrupted_report [OF a(1-3) ans [of Failed]] by (auto simp: interrupts_def a simp del: take_append)
  have "send_calls (open_socket 7 (agent_net a')) = 2" using a'(4) by (simp add: open_socket_def)
  then obtain w where "send_line ?env False 7 (register_message ''web1'') (open_socket 7 (agent_net a')) = (Inr True, w)"
    using send_line_at_once [of ?env "open_socket 7 (agent_net a')" 7 "register_message ''web1''" False]
    by (auto simp: failing_env_def)
  then have "connect_to_server ?env (calls connecting_input) web_config (agent_net a') = (Inr (True, 7), w)"
    by (simp add: connect_to_server_def connecting_input_def is_socket_valid_def server_address_def Let_def a(8))
  then obtain a'' where "agent_step ?env web_config connecting_input a' = Inr a''" "phase a'' = Inner 7"
    using a'(2) by (simp add: agent_step_def connect_step_def connecting_input_def)
  then show ?thesis using killed a'(1,3) again
    by (intro conjI exI [of _ a''] exI [of _ "?p ?env @ [CHR_nl]"]) (simp_all del: take_append)
qed

end
