(* ===== verification/Line_Protocol.thy ===== *)
theory Line_Protocol
  imports Server_Invariant
begin

text \<open>
  A server of whole lines, as a specification of the event loop. It knows no buffers and no bytes: it is
  a transition system in which a client joins, says a line or leaves, one at a time. What
  connections deliver is turned into what they say by cutting it into lines.
\<close>

section \<open>The specification\<close>

datatype label = Joins socket_t cpp_string | Says socket_t cpp_string | Leaves socket_t

inductive line_step :: "env \<Rightarrow> MonitorServer \<Rightarrow> label \<Rightarrow> MonitorServer \<Rightarrow> bool" for env where
  joins: "f \<notin> set (watched s) \<Longrightarrow>
    line_step env s (Joins f peer)
      (s\<lparr>net := open_socket f (net s),
         clients := clients s @ [\<lparr>fd = f, role = Unknown, peer_label = peer, declared_host = [], buffer = []\<rparr>]\<rparr>)"
| says: "i < length (clients s) \<Longrightarrow> fd (clients s ! i) = f \<Longrightarrow> handle_line env i l s = Inr t \<Longrightarrow>
    line_step env s (Says f l) t"
| leaves: "i < length (clients s) \<Longrightarrow> fd (clients s ! i) = f \<Longrightarrow> line_step env s (Leaves f) (disconnect_client i s)"

inductive_cases joinsE: "line_step env s (Joins f peer) t"
inductive_cases saysE: "line_step env s (Says f l) t"
inductive_cases leavesE: "line_step env s (Leaves f) t"

inductive line_run :: "env \<Rightarrow> MonitorServer \<Rightarrow> label list \<Rightarrow> MonitorServer \<Rightarrow> bool" for env where
  stop: "line_run env s [] s"
| more: "line_step env s e t \<Longrightarrow> line_run env t es u \<Longrightarrow> line_run env s (e # es) u"

inductive_simps line_run_Nil [simp]: "line_run env s [] t"
inductive_simps line_run_Cons: "line_run env s (e # es) t"

lemma line_run_append: "line_run env s (es @ es') u \<longleftrightarrow> (\<exists>t. line_run env s es t \<and> line_run env t es' u)"
  by (induction es arbitrary: s) (auto simp: line_run_Cons)

section \<open>What the connections say\<close>

text \<open>
  What reaches the process in a run: connections, bytes, and the ends of connections. \<open>spoken\<close> turns
  them into the labels of the specification, with the bytes that wait for the end of their line.
\<close>

datatype input = Connects socket_t cpp_string | Receives socket_t cpp_string | Hangs_up socket_t

fun split_lines :: "cpp_string \<Rightarrow> cpp_string list \<times> cpp_string" where
  "split_lines [] = ([], [])"
| "split_lines (c # b) =
     (let (ls, r) = split_lines b in
      if c = CHR_nl then ([] # ls, r)
      else case ls of [] \<Rightarrow> ([], c # r) | l # ls' \<Rightarrow> ((c # l) # ls', r))"

text \<open>The lines the server handles: without the white space around them, and without empty ones.\<close>

definition messages :: "cpp_string \<Rightarrow> cpp_string list" where
  "messages b = filter (\<lambda>l. l \<noteq> []) (map trim (fst (split_lines b)))"

fun spoken :: "(socket_t \<Rightarrow> cpp_string) \<Rightarrow> input list \<Rightarrow> label list" where
  "spoken B [] = []"
| "spoken B (Connects f peer # ins) = Joins f peer # spoken (B(f := [])) ins"
| "spoken B (Receives f bs # ins) = map (Says f) (messages (B f @ bs)) @ spoken (B(f := snd (split_lines (B f @ bs)))) ins"
| "spoken B (Hangs_up f # ins) = Leaves f # spoken B ins"

text \<open>The bytes that wait afterwards.\<close>

fun waiting :: "(socket_t \<Rightarrow> cpp_string) \<Rightarrow> input list \<Rightarrow> socket_t \<Rightarrow> cpp_string" where
  "waiting B [] = B"
| "waiting B (Connects f peer # ins) = waiting (B(f := [])) ins"
| "waiting B (Receives f bs # ins) = waiting (B(f := snd (split_lines (B f @ bs)))) ins"
| "waiting B (Hangs_up f # ins) = waiting B ins"

lemma spoken_append: "spoken B (a @ b) = spoken B a @ spoken (waiting B a) b"
proof (induction a arbitrary: B)
  case (Cons e a)
  then show ?case by (cases e) (simp_all add: fun_upd_def)
qed simp

lemma waiting_append: "waiting B (a @ b) = waiting (waiting B a) b"
proof (induction a arbitrary: B)
  case (Cons e a)
  then show ?case by (cases e) (simp_all add: fun_upd_def)
qed simp

lemma split_lines_free: "nl_free r \<Longrightarrow> split_lines r = ([], r)"
  by (induction r) auto

lemma split_lines_line: "nl_free l \<Longrightarrow> split_lines (l @ CHR_nl # b) = (l # fst (split_lines b), snd (split_lines b))"
  by (induction l) (auto simp: case_prod_unfold Let_def)

lemma split_lines_unlines:
  "\<forall>l \<in> set ls. nl_free l \<Longrightarrow> nl_free r \<Longrightarrow> split_lines (unlines ls @ r) = (ls, r)"
  by (induction ls) (simp_all add: split_lines_free split_lines_line)

lemma split_lines_join: "unlines (fst (split_lines b)) @ snd (split_lines b) = b"
  by (induction b) (auto simp: case_prod_unfold Let_def split: list.split)

lemma split_lines_nl_free: "(\<forall>l \<in> set (fst (split_lines b)). nl_free l) \<and> nl_free (snd (split_lines b))"
  by (induction b) (auto simp: case_prod_unfold Let_def split: list.splits)

text \<open>Bytes split in two are spoken as the two parts are, one after the other.\<close>

lemma split_lines_append:
  "split_lines (a @ b) = (fst (split_lines a) @ fst (split_lines (snd (split_lines a) @ b)),
     snd (split_lines (snd (split_lines a) @ b)))"
proof -
  let ?la = "fst (split_lines a)" and ?lb = "fst (split_lines (snd (split_lines a) @ b))"
    and ?r = "snd (split_lines (snd (split_lines a) @ b))"
  have "a @ b = unlines ?la @ snd (split_lines a) @ b" using split_lines_join [of a] by (metis append_assoc)
  also have "\<dots> = unlines ?la @ unlines ?lb @ ?r" using split_lines_join [of "snd (split_lines a) @ b"] by simp
  also have "\<dots> = unlines (?la @ ?lb) @ ?r" by simp
  finally show ?thesis
    using split_lines_unlines [of "?la @ ?lb" ?r] split_lines_nl_free [of a] split_lines_nl_free [of "snd (split_lines a) @ b"]
    by (auto simp del: append_assoc)
qed

section \<open>What one connection says\<close>

definition said :: "socket_t \<Rightarrow> label list \<Rightarrow> cpp_string list" where
  "said f es = concat (map (\<lambda>e. case e of Says g l \<Rightarrow> if g = f then [l] else [] | _ \<Rightarrow> []) es)"

definition received :: "socket_t \<Rightarrow> input list \<Rightarrow> cpp_string" where
  "received f ins = concat (map (\<lambda>e. case e of Receives g bs \<Rightarrow> if g = f then bs else [] | _ \<Rightarrow> []) ins)"

fun concerns :: "input \<Rightarrow> socket_t option" where
  "concerns (Connects f peer) = Some f"
| "concerns (Hangs_up f) = Some f"
| "concerns (Receives f bs) = None"

definition stays :: "socket_t \<Rightarrow> input list \<Rightarrow> bool" where
  "stays f ins \<longleftrightarrow> (\<forall>e \<in> set ins. concerns e \<noteq> Some f)"

lemma said_simps [simp]:
  "said f [] = []" "said f (Joins g peer # es) = said f es" "said f (Leaves g # es) = said f es"
  "said f (Says g l # es) = (if g = f then l # said f es else said f es)" "said f (es @ es') = said f es @ said f es'"
  by (simp_all add: said_def)

lemma said_map [simp]: "said f (map (Says g) ls) = (if g = f then ls else [])"
  by (induction ls) auto

lemma said_spoken: "stays f ins \<Longrightarrow> nl_free (B f) \<Longrightarrow> said f (spoken B ins) = messages (B f @ received f ins)"
proof (induction ins arbitrary: B)
  case Nil
  then show ?case by (simp add: received_def messages_def split_lines_free)
next
  case (Cons e ins)
  have "stays f ins" using Cons.prems by (simp add: stays_def)
  note IH = Cons.IH [OF this]
  show ?case
  proof (cases e)
    case (Receives g bs)
    have "messages ((B f @ bs) @ b) = messages (B f @ bs) @ messages (snd (split_lines (B f @ bs)) @ b)" for b
      unfolding messages_def by (subst split_lines_append) simp
    then show ?thesis using Receives Cons.prems(2) split_lines_nl_free [of "B g @ bs"] by (auto simp: received_def IH)
  qed (use Cons.prems in \<open>auto simp: stays_def received_def IH\<close>)
qed

end
