(* ===== verification/Dashboard_Json.thy ===== *)
theory Dashboard_Json
  imports Common_Events "HOL-Library.AList"
begin

text \<open>
  What the dashboard of \<^verbatim>\<open>python/dashboard/services.py\<close> uses of Python's library to read
  a message: \<^verbatim>\<open>bytes.decode("utf-8")\<close> and \<^verbatim>\<open>json.loads\<close>. A Python string is the list of
  its code points. The JSON reader follows the scanner of the standard library: white space, the
  constants (with the non-standard \<^verbatim>\<open>NaN\<close> and \<^verbatim>\<open>Infinity\<close>), numbers, strings with all
  their escapes and without raw control characters, arrays, and objects in which the last of
  several values for a key wins. The result \<open>None\<close> is the exception \<^verbatim>\<open>JSONDecodeError\<close>.
\<close>

type_synonym py_str = "nat list"

definition py :: "string \<Rightarrow> py_str" where
  "py s = map of_char s"

lemma py_simps [simp]: "py [] = []" "py (c # s) = of_char c # py s" "py (s @ t) = py s @ py t"
  by (simp_all add: py_def)

lemma inj_py: "py s = py t \<longleftrightarrow> s = t"
  by (simp add: py_def inj_map_eq_map inj_of_char)

section \<open>UTF-8\<close>

definition continuation :: "nat \<Rightarrow> bool" where
  "continuation b \<longleftrightarrow> 128 \<le> b \<and> b < 192"

text \<open>The well-formed byte sequences: no overlong forms, no surrogates, nothing above \<open>0x10FFFF\<close>.\<close>

fun decode_bytes :: "nat list \<Rightarrow> py_str option" where
  "decode_bytes [] = Some []"
| "decode_bytes (a # bs) =
     (if a < 128 then map_option (Cons a) (decode_bytes bs)
      else if 194 \<le> a \<and> a < 224 then
        (case bs of b # r \<Rightarrow>
           if continuation b then map_option (Cons ((a - 192) * 64 + (b - 128))) (decode_bytes r) else None
         | [] \<Rightarrow> None)
      else if 224 \<le> a \<and> a < 240 then
        (case bs of b # c # r \<Rightarrow>
           if continuation b \<and> continuation c \<and> (a = 224 \<longrightarrow> 160 \<le> b) \<and> (a = 237 \<longrightarrow> b < 160)
           then map_option (Cons ((a - 224) * 4096 + (b - 128) * 64 + (c - 128))) (decode_bytes r) else None
         | _ \<Rightarrow> None)
      else if 240 \<le> a \<and> a < 245 then
        (case bs of b # c # d # r \<Rightarrow>
           if continuation b \<and> continuation c \<and> continuation d \<and> (a = 240 \<longrightarrow> 144 \<le> b) \<and> (a = 244 \<longrightarrow> b < 144)
           then map_option (Cons ((a - 240) * 262144 + (b - 128) * 4096 + (c - 128) * 64 + (d - 128)))
                  (decode_bytes r)
           else None
         | _ \<Rightarrow> None)
      else None)"

definition utf8_decode :: "cpp_string \<Rightarrow> py_str option" where
  "utf8_decode bytes = decode_bytes (map of_char bytes)"

definition ascii :: "cpp_string \<Rightarrow> bool" where
  "ascii s \<longleftrightarrow> (\<forall>c \<in> set s. (of_char c :: nat) < 128)"

section \<open>JSON values\<close>

datatype json =
    JNull
  | JBool bool
  | JInt int
  | JFloat double
  | JString py_str
  | JArray "json list"
  | JObject "(py_str \<times> json) list"

definition json_space :: "nat \<Rightarrow> bool" where
  "json_space c \<longleftrightarrow> c \<in> {32, 9, 10, 13}"

definition skip_space :: "py_str \<Rightarrow> py_str" where
  "skip_space s = dropWhile json_space s"

lemma length_skip_space: "length (skip_space s) \<le> length s"
  by (simp add: skip_space_def length_dropWhile_le)

lemma skip_space_measure: "length s < n \<Longrightarrow> Suc (2 * length (skip_space s)) \<le> 2 * n"
  using length_skip_space [of s] by linarith

subsection \<open>Strings\<close>

definition hex_value :: "nat \<Rightarrow> nat option" where
  "hex_value c =
     (if 48 \<le> c \<and> c \<le> 57 then Some (c - 48)
      else if 97 \<le> c \<and> c \<le> 102 then Some (c - 87)
      else if 65 \<le> c \<and> c \<le> 70 then Some (c - 55)
      else None)"

fun hex4 :: "py_str \<Rightarrow> nat option" where
  "hex4 (a # b # c # d # r) =
     (case (hex_value a, hex_value b, hex_value c, hex_value d) of
        (Some w, Some x, Some y, Some z) \<Rightarrow> Some (((w * 16 + x) * 16 + y) * 16 + z)
      | _ \<Rightarrow> None)"
| "hex4 _ = None"

definition simple_escape :: "nat \<Rightarrow> nat option" where
  "simple_escape e =
     map_of [(34, 34), (92, 92), (47, 47), (98, 8), (102, 12), (110, 10), (114, 13), (116, 9)] e"

text \<open>A high surrogate followed by the escape of a low one is one code point.\<close>

definition surrogate_pair :: "nat \<Rightarrow> py_str \<Rightarrow> nat option" where
  "surrogate_pair u r =
     (if 55296 \<le> u \<and> u < 56320 \<and> take 2 r = [92, 117] then
        (case hex4 (drop 2 r) of
           Some v \<Rightarrow> if 56320 \<le> v \<and> v < 57344 then Some (65536 + (u - 55296) * 1024 + (v - 56320)) else None
         | None \<Rightarrow> None)
      else None)"

function scan_string :: "py_str \<Rightarrow> (py_str \<times> py_str) option" where
  "scan_string [] = None"
| "scan_string (c # cs) =
     (if c = 34 then Some ([], cs)
      else if c = 92 then
        (case cs of
           [] \<Rightarrow> None
         | e # es \<Rightarrow>
             if e = 117 then
               (case hex4 es of
                  None \<Rightarrow> None
                | Some u \<Rightarrow>
                    (case surrogate_pair u (drop 4 es) of
                       Some p \<Rightarrow> map_option (apfst (Cons p)) (scan_string (drop 10 es))
                     | None \<Rightarrow> map_option (apfst (Cons u)) (scan_string (drop 4 es))))
             else (case simple_escape e of
                     Some d \<Rightarrow> map_option (apfst (Cons d)) (scan_string es)
                   | None \<Rightarrow> None))
      else if c < 32 then None
      else map_option (apfst (Cons c)) (scan_string cs))"
  by pat_completeness auto
termination by (relation "measure length") auto

lemma scan_string_shrinks: "scan_string s = Some (t, r) \<Longrightarrow> length r < length s"
proof (induction s arbitrary: t r rule: scan_string.induct)
  case (2 c cs)
  then show ?case
    by (force split: if_splits list.splits option.splits)
qed simp

subsection \<open>Numbers\<close>

definition py_digit :: "nat \<Rightarrow> bool" where
  "py_digit c \<longleftrightarrow> 48 \<le> c \<and> c \<le> 57"

definition decimal_value :: "py_str \<Rightarrow> nat" where
  "decimal_value ds = foldl (\<lambda>acc c. 10 * acc + (c - 48)) 0 ds"

definition integer_part :: "py_str \<Rightarrow> py_str" where
  "integer_part s = (if take 1 s = [48] then [48] else takeWhile py_digit s)"

definition fraction_part :: "py_str \<Rightarrow> py_str" where
  "fraction_part s = (if take 1 s = [46] then takeWhile py_digit (drop 1 s) else [])"

text \<open>The sign and the digits of an exponent, and its length in the text.\<close>

definition exponent_part :: "py_str \<Rightarrow> (int \<times> nat) option" where
  "exponent_part s =
     (if take 1 s = [101] \<or> take 1 s = [69] then
        (let t = drop 1 s;
             signed = (take 1 t = [43] \<or> take 1 t = [45]);
             ds = takeWhile py_digit (if signed then drop 1 t else t);
             value = int (decimal_value ds)
         in if ds = [] then None
            else Some (if take 1 t = [45] then - value else value, 1 + (if signed then 1 else 0) + length ds))
      else None)"

text \<open>The nearest \<^verbatim>\<open>float\<close> of \<open>n * 10^e\<close>.\<close>

definition decimal_float :: "bool \<Rightarrow> nat \<Rightarrow> int \<Rightarrow> double" where
  "decimal_float neg n e = round_double neg (n * 10 ^ nat e) (10 ^ nat (- e))"

definition parse_number :: "py_str \<Rightarrow> (json \<times> py_str) option" where
  "parse_number s =
     (let neg = (take 1 s = [45]);
          t = (if neg then drop 1 s else s);
          ip = integer_part t;
          t1 = drop (length ip) t;
          fp = fraction_part t1;
          t2 = (if fp = [] then t1 else drop (1 + length fp) t1);
          ep = exponent_part t2;
          t3 = (case ep of Some (x, n) \<Rightarrow> drop n t2 | None \<Rightarrow> t2)
      in if ip = [] then None
         else if fp = [] \<and> ep = None
         then Some (JInt (if neg then - int (decimal_value ip) else int (decimal_value ip)), t3)
         else Some (JFloat (decimal_float neg (decimal_value (ip @ fp))
                      ((case ep of Some (x, n) \<Rightarrow> x | None \<Rightarrow> 0) - int (length fp))), t3))"

subsection \<open>Values\<close>

definition json_constants :: "(py_str \<times> json) list" where
  "json_constants =
     [(py ''null'', JNull), (py ''true'', JBool True), (py ''false'', JBool False),
      (py ''NaN'', JFloat NaN), (py ''Infinity'', JFloat (Infinity False)),
      (py ''-Infinity'', JFloat (Infinity True))]"

definition parse_constant :: "py_str \<Rightarrow> (json \<times> py_str) option" where
  "parse_constant s =
     (case List.find (\<lambda>(name, v). take (length name) s = name) json_constants of
        Some (name, v) \<Rightarrow> Some (v, drop (length name) s)
      | None \<Rightarrow> None)"

definition parse_atom :: "py_str \<Rightarrow> (json \<times> py_str) option" where
  "parse_atom s = (case parse_constant s of Some r \<Rightarrow> Some r | None \<Rightarrow> parse_number s)"

definition dict_of :: "(py_str \<times> json) list \<Rightarrow> (py_str \<times> json) list" where
  "dict_of ms = fold (\<lambda>(k, v). AList.update k v) ms []"

text \<open>
  The loops over elements and members go on with what a value left over, which is shorter; the
  comparison of lengths only tells the termination proof so, and never fails.
\<close>

function parse_value :: "py_str \<Rightarrow> (json \<times> py_str) option"
  and parse_elements :: "py_str \<Rightarrow> (json list \<times> py_str) option"
  and parse_members :: "py_str \<Rightarrow> ((py_str \<times> json) list \<times> py_str) option" where
  "parse_value s =
     (case s of
        [] \<Rightarrow> None
      | c # cs \<Rightarrow>
          if c = 34 then map_option (apfst JString) (scan_string cs)
          else if c = 123 then
            (if take 1 (skip_space cs) = [125] then Some (JObject [], drop 1 (skip_space cs))
             else map_option (apfst (JObject \<circ> dict_of)) (parse_members (skip_space cs)))
          else if c = 91 then
            (if take 1 (skip_space cs) = [93] then Some (JArray [], drop 1 (skip_space cs))
             else map_option (apfst JArray) (parse_elements (skip_space cs)))
          else parse_atom s)"
| "parse_elements s =
     (case parse_value s of
        None \<Rightarrow> None
      | Some (v, r) \<Rightarrow>
          (case skip_space r of
             [] \<Rightarrow> None
           | c # r1 \<Rightarrow>
               if c = 93 then Some ([v], r1)
               else if c = 44 \<and> length r1 < length s
               then map_option (apfst (Cons v)) (parse_elements (skip_space r1))
               else None))"
| "parse_members s =
     (if take 1 s = [34] then
        (case scan_string (drop 1 s) of
           None \<Rightarrow> None
         | Some (k, r) \<Rightarrow>
             if take 1 (skip_space r) = [58] \<and> length (skip_space r) \<le> length s then
               (case parse_value (skip_space (drop 1 (skip_space r))) of
                  None \<Rightarrow> None
                | Some (v, r1) \<Rightarrow>
                    (case skip_space r1 of
                       [] \<Rightarrow> None
                     | c # r2 \<Rightarrow>
                         if c = 125 then Some ([(k, v)], r2)
                         else if c = 44 \<and> length r2 < length s
                         then map_option (apfst (Cons (k, v))) (parse_members (skip_space r2))
                         else None))
             else None)
      else None)"
  by pat_completeness auto
termination
proof (relation "measure (case_sum (\<lambda>s. 2 * length s) (case_sum (\<lambda>s. 2 * length s + 1) (\<lambda>s. 2 * length s + 1)))",
    goal_cases)
  case (6 s x k r)
  have "length (skip_space (drop 1 (skip_space r))) < length s"
    using length_skip_space [of "drop 1 (skip_space r)"] 6 by (cases "skip_space r") auto
  then show ?case by simp
qed (use length_skip_space in \<open>auto simp: less_Suc_eq_le skip_space_measure intro: le_less_trans\<close>)

declare parse_value.simps [simp del] parse_elements.simps [simp del] parse_members.simps [simp del]

definition loads :: "py_str \<Rightarrow> json option" where
  "loads s =
     (if take 1 s = [65279] then None
      else (case parse_value (skip_space s) of
              Some (v, r) \<Rightarrow> if skip_space r = [] then Some v else None
            | None \<Rightarrow> None))"

section \<open>The reader consumes its input\<close>

lemma parse_number_shrinks:
  assumes "parse_number s = Some (v, r)"
  shows "length r < length s"
proof -
  define t where "t = (if take 1 s = [45] then drop 1 s else s)"
  define ip where "ip = integer_part t"
  define t1 where "t1 = drop (length ip) t"
  define fp where "fp = fraction_part t1"
  define t2 where "t2 = (if fp = [] then t1 else drop (1 + length fp) t1)"
  have "ip \<noteq> []" and r: "r = (case exponent_part t2 of Some (x, n) \<Rightarrow> drop n t2 | None \<Rightarrow> t2)"
    using assms unfolding parse_number_def Let_def
    unfolding t_def [symmetric] unfolding ip_def [symmetric] unfolding t1_def [symmetric]
    unfolding fp_def [symmetric] unfolding t2_def [symmetric]
    by (auto split: if_splits)
  then have "t \<noteq> []" by (auto simp: ip_def integer_part_def)
  then have "length t1 < length s" using \<open>ip \<noteq> []\<close> by (auto simp: t1_def t_def)
  moreover have "length t2 \<le> length t1" by (simp add: t2_def)
  moreover have "length r \<le> length t2" unfolding r by (simp split: option.split)
  ultimately show ?thesis by linarith
qed

lemma parse_constant_shrinks:
  assumes "parse_constant s = Some (v, r)"
  shows "length r < length s"
proof -
  obtain name where "(name, v) \<in> set json_constants" "take (length name) s = name" "r = drop (length name) s"
    using assms by (auto simp: parse_constant_def find_Some_iff split: option.splits) (metis nth_mem)
  moreover from this(1) have "name \<noteq> []" by (auto simp: json_constants_def)
  ultimately show ?thesis by (cases s) auto
qed

lemma parse_atom_shrinks: "parse_atom s = Some (v, r) \<Longrightarrow> length r < length s"
  by (auto simp: parse_atom_def parse_number_shrinks parse_constant_shrinks split: option.splits)

lemma skip_space_Cons: "skip_space s = c # r \<Longrightarrow> length r < length s"
  unfolding skip_space_def by (rule length_dropWhile_Cons)

lemma parse_shrinks:
  "parse_value s = Some (v, r) \<Longrightarrow> length r < length s"
  "parse_elements s = Some (vs, r) \<Longrightarrow> length r < length s"
  "parse_members s = Some (ms, r) \<Longrightarrow> length r < length s"
proof (induction s and s and s arbitrary: v r and vs r and ms r
    rule: parse_value_parse_elements_parse_members.induct)
  case (1 s)
  show ?case
  proof (cases s)
    case Nil
    then show ?thesis using "1.prems" by (simp add: parse_value.simps)
  next
    case (Cons c cs)
    note le = length_skip_space [of cs]
    consider (string) t where "scan_string cs = Some (t, r)" | (empty) "r = drop 1 (skip_space cs)"
      | (object) ms where "c = 123" "c \<noteq> 34" "take 1 (skip_space cs) \<noteq> [125]" "parse_members (skip_space cs) = Some (ms, r)"
      | (array) vs where "c = 91" "c \<noteq> 34" "c \<noteq> 123" "take 1 (skip_space cs) \<noteq> [93]" "parse_elements (skip_space cs) = Some (vs, r)"
      | (atom) "parse_atom s = Some (v, r)"
      using "1.prems" Cons by (auto simp: parse_value.simps [of "c # cs"] split: if_splits)
    then show ?thesis
    proof cases
      case string
      then show ?thesis using scan_string_shrinks Cons by fastforce
    next
      case object
      then show ?thesis using "1.IH"(1) [OF Cons] le Cons by fastforce
    next
      case array
      then show ?thesis using "1.IH"(2) [OF Cons] le Cons by fastforce
    next
      case atom
      then show ?thesis by (rule parse_atom_shrinks)
    qed (use le Cons in auto)
  qed
next
  case (2 s)
  obtain v r1 c r2 where v: "parse_value s = Some (v, r1)" "skip_space r1 = c # r2"
    using "2.prems" by (auto simp: parse_elements.simps [of s] split: option.splits list.splits)
  have "length r2 < length s" using "2.IH"(1) [OF v(1)] skip_space_Cons [OF v(2)] by linarith
  moreover have "r = r2 \<or> (\<exists>ws. c \<noteq> 93 \<and> c = 44 \<and> parse_elements (skip_space r2) = Some (ws, r))"
    using "2.prems" v by (auto simp: parse_elements.simps [of s] split: if_splits)
  ultimately show ?case
    using "2.IH"(2) [OF v(1) refl v(2)] length_skip_space [of r2] by fastforce
next
  case (3 s)
  obtain k r1 v r2 c r3 where k: "take 1 s = [34]" "scan_string (drop 1 s) = Some (k, r1)"
      "take 1 (skip_space r1) = [58] \<and> length (skip_space r1) \<le> length s"
    and v: "parse_value (skip_space (drop 1 (skip_space r1))) = Some (v, r2)" "skip_space r2 = c # r3"
    using "3.prems" by (auto simp: parse_members.simps [of s] split: option.splits list.splits if_splits)
  have "length (skip_space (drop 1 (skip_space r1))) \<le> length s"
    using length_skip_space [of "drop 1 (skip_space r1)"] k(3) by (cases "skip_space r1") auto
  then have "length r3 < length s" using "3.IH"(1) [OF k(1,2) refl k(3) v(1)] skip_space_Cons [OF v(2)] by linarith
  moreover have "r = r3 \<or> (\<exists>ns. c \<noteq> 125 \<and> c = 44 \<and> parse_members (skip_space r3) = Some (ns, r))"
    using "3.prems" k v by (auto simp: parse_members.simps [of s] split: if_splits)
  ultimately show ?case
    using "3.IH"(2) [OF k(1,2) refl k(3) v(1) refl v(2)] length_skip_space [of r3] by fastforce
qed

text \<open>The comparisons of lengths in the loops always hold.\<close>

lemma parse_elements_unguarded:
  "parse_elements s =
     (case parse_value s of
        None \<Rightarrow> None
      | Some (v, r) \<Rightarrow>
          (case skip_space r of
             [] \<Rightarrow> None
           | c # r1 \<Rightarrow>
               if c = 93 then Some ([v], r1)
               else if c = 44 then map_option (apfst (Cons v)) (parse_elements (skip_space r1))
               else None))"
proof -
  have "length r1 < length s" if "parse_value s = Some (v, r)" "skip_space r = c # r1" for v r c r1
    using parse_shrinks(1) [OF that(1)] skip_space_Cons [OF that(2)] by linarith
  then show ?thesis
    by (subst parse_elements.simps) (simp split: option.split list.split)
qed

lemma parse_members_unguarded:
  "parse_members s =
     (if take 1 s = [34] then
        (case scan_string (drop 1 s) of
           None \<Rightarrow> None
         | Some (k, r) \<Rightarrow>
             if take 1 (skip_space r) = [58] then
               (case parse_value (skip_space (drop 1 (skip_space r))) of
                  None \<Rightarrow> None
                | Some (v, r1) \<Rightarrow>
                    (case skip_space r1 of
                       [] \<Rightarrow> None
                     | c # r2 \<Rightarrow>
                         if c = 125 then Some ([(k, v)], r2)
                         else if c = 44 then map_option (apfst (Cons (k, v))) (parse_members (skip_space r2))
                         else None))
             else None)
      else None)"
proof -
  have le: "length (skip_space r) \<le> length s" if "scan_string (drop 1 s) = Some (k, r)" for k r
    using scan_string_shrinks [OF that] length_skip_space [of r] by simp
  have "length r2 < length s" if "scan_string (drop 1 s) = Some (k, r)"
    "parse_value (skip_space (drop 1 (skip_space r))) = Some (v, r1)" "skip_space r1 = c # r2" for k r v r1 c r2
    using le [OF that(1)] parse_shrinks(1) [OF that(2)] skip_space_Cons [OF that(3)]
      length_skip_space [of "drop 1 (skip_space r)"] by simp
  then show ?thesis
    by (subst parse_members.simps) (simp add: le split: option.split list.split)
qed

end
