(* ===== verification/Dashboard_State.thy ===== *)
theory Dashboard_State
  imports Dashboard_Json
begin

text \<open>
  The web dashboard's connection to the server, \<^verbatim>\<open>python/dashboard/services.py\<close>: the upload of
  alerts, the state that \<^verbatim>\<open>_handle_event\<close> keeps, the loop \<^verbatim>\<open>_consume\<close> over received
  bytes and the reconnecting loop \<^verbatim>\<open>_run\<close>. A Python exception is a value of \<open>py_error\<close>; the
  state changes made before it was raised stay. The clock, the answers of the cloud client (a
  third-party package) and \<^verbatim>\<open>repr\<close> of values that are not strings are the record
  \<open>dash_env\<close>.
\<close>

section \<open>Environment and errors\<close>

datatype py_error =
    AttributeError | TypeError | KeyError | JSONDecodeError | UnicodeDecodeError | ConnectionResetError
  | Outside_model

record dash_env =
  time_at :: "nat \<Rightarrow> int"
  aws_raises :: "nat \<Rightarrow> py_str option"
  py_repr :: "json \<Rightarrow> py_str"

datatype aws_call = Put_object py_str py_str json | Publish py_str py_str json

text \<open>The dictionary that describes the last upload; \<open>s3_key\<close> is \<open>None\<close> where the key is absent.\<close>

record aws_status =
  aws_timestamp :: py_str
  uploaded :: bool
  aws_message :: py_str
  s3_key :: "py_str option option"

record chat_entry =
  entry_from :: json
  entry_text :: json
  entry_timestamp :: json

record dashboard =
  connected :: bool
  last_event :: "py_str option"
  state_metrics :: "(py_str \<times> json) list"
  state_alerts :: "json list"
  state_chat :: "chat_entry list"
  state_rules :: json
  state_aws :: aws_status
  boto3_installed :: bool
  bucket :: py_str
  topic_arn :: py_str
  s3_prefix :: py_str
  last_result :: aws_status
  clock_ticks :: nat
  aws_calls :: "aws_call list"

definition read_time :: "dash_env \<Rightarrow> dashboard \<Rightarrow> int \<times> dashboard" where
  "read_time env d = (time_at env (clock_ticks d), d\<lparr>clock_ticks := Suc (clock_ticks d)\<rparr>)"

definition utc_timestamp :: "dash_env \<Rightarrow> dashboard \<Rightarrow> py_str \<times> dashboard" where
  "utc_timestamp env d = (let (t, d') = read_time env d in (py (iso_timestamp t), d'))"

section \<open>Values\<close>

text \<open>\<^verbatim>\<open>dict.get\<close> with a default.\<close>

definition get_or :: "(py_str \<times> json) list \<Rightarrow> string \<Rightarrow> json \<Rightarrow> json" where
  "get_or m key fallback = (case map_of m (py key) of Some v \<Rightarrow> v | None \<Rightarrow> fallback)"

fun type_name :: "json \<Rightarrow> string" where
  "type_name JNull = ''NoneType''"
| "type_name (JBool b) = ''bool''"
| "type_name (JInt i) = ''int''"
| "type_name (JFloat x) = ''float''"
| "type_name (JString u) = ''str''"
| "type_name (JArray vs) = ''list''"
| "type_name (JObject m) = ''dict''"

text \<open>The message of the \<^verbatim>\<open>AttributeError\<close> for a \<^verbatim>\<open>get\<close> on a value without one.\<close>

definition no_attribute_get :: "json \<Rightarrow> py_str" where
  "no_attribute_get v = [39] @ py (type_name v) @ [39] @ py '' object has no attribute '' @ [39] @ py ''get'' @ [39]"

fun hashable :: "json \<Rightarrow> bool" where
  "hashable (JArray vs) = False"
| "hashable (JObject m) = False"
| "hashable _ = True"

fun truthy :: "json \<Rightarrow> bool" where
  "truthy JNull = False"
| "truthy (JBool b) = b"
| "truthy (JInt i) = (i \<noteq> 0)"
| "truthy (JFloat (Finite s m e)) = (m \<noteq> 0)"
| "truthy (JFloat x) = True"
| "truthy (JString u) = (u \<noteq> [])"
| "truthy (JArray vs) = (vs \<noteq> [])"
| "truthy (JObject m) = (m \<noteq> [])"

text \<open>\<^verbatim>\<open>str(value)\<close>, as an f-string formats a value.\<close>

definition str_of :: "dash_env \<Rightarrow> json \<Rightarrow> py_str" where
  "str_of env v = (case v of JString u \<Rightarrow> u | _ \<Rightarrow> py_repr env v)"

text \<open>The last \<open>n\<close> elements, \<^verbatim>\<open>xs[-n:]\<close> for positive \<open>n\<close>.\<close>

definition last_n :: "nat \<Rightarrow> 'a list \<Rightarrow> 'a list" where
  "last_n n xs = drop (length xs - n) xs"

section \<open>Uploading alerts\<close>

text \<open>One call of the cloud client: the exception text, if it raises.\<close>

definition aws_do :: "dash_env \<Rightarrow> aws_call \<Rightarrow> dashboard \<Rightarrow> py_str option \<times> dashboard" where
  "aws_do env c d = (aws_raises env (length (aws_calls d)), d\<lparr>aws_calls := aws_calls d @ [c]\<rparr>)"

definition set_result :: "aws_status \<Rightarrow> dashboard \<Rightarrow> aws_status \<times> dashboard" where
  "set_result r d = (r, d\<lparr>last_result := r\<rparr>)"

definition not_uploaded :: "dash_env \<Rightarrow> py_str \<Rightarrow> dashboard \<Rightarrow> aws_status \<times> dashboard" where
  "not_uploaded env message d =
     (let (now, d1) = utc_timestamp env d
      in set_result \<lparr>aws_timestamp = now, uploaded = False, aws_message = message, s3_key = None\<rparr> d1)"

definition alert_host :: "dash_env \<Rightarrow> (py_str \<times> json) list \<Rightarrow> py_str" where
  "alert_host env m = str_of env (get_or m ''host'' (JString (py ''unknown-host'')))"

text \<open>The two uploads of the \<^verbatim>\<open>try\<close> block: the first may have happened when the second raises.\<close>

definition put_alert ::
    "dash_env \<Rightarrow> json \<Rightarrow> (py_str \<times> json) list \<Rightarrow> dashboard \<Rightarrow> py_str option \<times> py_str option \<times> dashboard" where
  "put_alert env alert m d =
     (if bucket d \<noteq> [] then
        (let (t, d1) = read_time env d;
             key = s3_prefix d @ alert_host env m @ py ''-'' @ py (int_to_string t) @ py ''.json'';
             (failure, d2) = aws_do env (Put_object (bucket d) key alert) d1
         in (failure, Some key, d2))
      else (None, None, d))"

definition publish_alert ::
    "dash_env \<Rightarrow> json \<Rightarrow> (py_str \<times> json) list \<Rightarrow> dashboard \<Rightarrow> py_str option \<times> dashboard" where
  "publish_alert env alert m d =
     (if topic_arn d \<noteq> []
      then aws_do env (Publish (topic_arn d) (py ''SysNetMon alert for '' @ alert_host env m) alert) d
      else (None, d))"

definition upload_alert :: "dash_env \<Rightarrow> json \<Rightarrow> dashboard \<Rightarrow> aws_status \<times> dashboard" where
  "upload_alert env alert d =
     (if \<not> boto3_installed d then not_uploaded env (py ''boto3 not installed in dashboard environment'') d
      else if bucket d = [] \<and> topic_arn d = [] then
        not_uploaded env (py ''Set ALERT_S3_BUCKET or ALERT_SNS_TOPIC_ARN to enable AWS uploads'') d
      else
        (let (now, d1) = utc_timestamp env d in
         case alert of
           JObject m \<Rightarrow>
             (let (failure, key, d2) = put_alert env alert m d1 in
              case failure of
                Some message \<Rightarrow> not_uploaded env message d2
              | None \<Rightarrow>
                  (let (failure, d3) = publish_alert env alert m d2 in
                   case failure of
                     Some message \<Rightarrow> not_uploaded env message d3
                   | None \<Rightarrow>
                       set_result \<lparr>aws_timestamp = now, uploaded = True, aws_message = py ''Alert published'',
                                   s3_key = Some key\<rparr> d3))
         | _ \<Rightarrow> not_uploaded env (no_attribute_get alert) d1))"

section \<open>\_handle\_event\<close>

text \<open>
  \<open>{item["host"]: item for item in ...}\<close>: what iteration yields, and the key of an item. A host
  that is not a string but hashable is outside the model: the server sends strings.
\<close>

fun iterate :: "json \<Rightarrow> py_error + json list" where
  "iterate (JArray vs) = Inr vs"
| "iterate (JObject m) = Inr (map (JString \<circ> fst) m)"
| "iterate (JString u) = Inr (map (\<lambda>c. JString [c]) u)"
| "iterate _ = Inl TypeError"

definition host_key :: "json \<Rightarrow> py_error + py_str" where
  "host_key v =
     (case v of JString h \<Rightarrow> Inr h | _ \<Rightarrow> Inl (if hashable v then Outside_model else TypeError))"

definition item_host :: "json \<Rightarrow> py_error + py_str" where
  "item_host item =
     (case item of
        JObject m \<Rightarrow> (case map_of m (py ''host'') of Some v \<Rightarrow> host_key v | None \<Rightarrow> Inl KeyError)
      | _ \<Rightarrow> Inl TypeError)"

fun metrics_by_host :: "json list \<Rightarrow> (py_str \<times> json) list \<Rightarrow> py_error + (py_str \<times> json) list" where
  "metrics_by_host [] table = Inr table"
| "metrics_by_host (item # items) table =
     (case item_host item of
        Inl e \<Rightarrow> Inl e
      | Inr h \<Rightarrow> metrics_by_host items (AList.update h item table))"

type_synonym 's outcome = "py_error option \<times> 's"

definition handle_snapshot :: "(py_str \<times> json) list \<Rightarrow> dashboard \<Rightarrow> dashboard outcome" where
  "handle_snapshot event d =
     (case iterate (get_or event ''metrics'' (JArray [])) of
        Inl e \<Rightarrow> (Some e, d)
      | Inr items \<Rightarrow>
          (case metrics_by_host items [] of
             Inl e \<Rightarrow> (Some e, d)
           | Inr table \<Rightarrow> (None, d\<lparr>state_metrics := table\<rparr>)))"

definition handle_metric :: "(py_str \<times> json) list \<Rightarrow> dashboard \<Rightarrow> dashboard outcome" where
  "handle_metric event d =
     (case get_or event ''data'' (JObject []) of
        JObject metric \<Rightarrow>
          (let host = get_or metric ''host'' JNull in
           if truthy host then
             (case host_key host of
                Inl e \<Rightarrow> (Some e, d)
              | Inr h \<Rightarrow> (None, d\<lparr>state_metrics := AList.update h (JObject metric) (state_metrics d)\<rparr>))
           else (None, d))
      | _ \<Rightarrow> (Some AttributeError, d))"

definition handle_alert :: "dash_env \<Rightarrow> (py_str \<times> json) list \<Rightarrow> dashboard \<Rightarrow> dashboard outcome" where
  "handle_alert env event d =
     (let alert = get_or event ''data'' (JObject []);
          d1 = d\<lparr>state_alerts := last_n 50 (state_alerts d @ [alert])\<rparr>;
          (status, d2) = upload_alert env alert d1
      in (None, d2\<lparr>state_aws := status\<rparr>))"

definition append_chat :: "chat_entry \<Rightarrow> dashboard \<Rightarrow> dashboard" where
  "append_chat entry d = d\<lparr>state_chat := last_n 80 (state_chat d @ [entry])\<rparr>"

definition dash_event :: "dash_env \<Rightarrow> json \<Rightarrow> dashboard \<Rightarrow> dashboard outcome" where
  "dash_event env event d =
     (case event of
        JObject m \<Rightarrow>
          (let event_type = get_or m ''type'' JNull;
               (now, d0) = utc_timestamp env d;
               d1 = d0\<lparr>last_event := Some now\<rparr>
           in if event_type = JString (py ''snapshot'') then handle_snapshot m d1
              else if event_type = JString (py ''metric'') then handle_metric m d1
              else if event_type = JString (py ''alert'') then handle_alert env m d1
              else if event_type = JString (py ''chat'') then
                (None, append_chat \<lparr>entry_from = get_or m ''from'' (JString (py ''unknown'')),
                         entry_text = get_or m ''text'' (JString []),
                         entry_timestamp = get_or m ''timestamp'' (JString now)\<rparr> d1)
              else if event_type = JString (py ''rules'') then
                (None, d1\<lparr>state_rules := get_or m ''items'' (JArray [])\<rparr>)
              else if \<not> hashable event_type then (Some TypeError, d1)
              else if event_type = JString (py ''ack'') \<or> event_type = JString (py ''error'') then
                (None, append_chat \<lparr>entry_from = event_type, entry_text = get_or m ''message'' (JString []),
                         entry_timestamp = JString now\<rparr> d1)
              else (None, d1))
      | _ \<Rightarrow> (Some AttributeError, d))"

section \<open>\_consume and \_run\<close>

text \<open>The characters \<^verbatim>\<open>str.strip\<close> removes.\<close>

definition py_space :: "nat \<Rightarrow> bool" where
  "py_space c \<longleftrightarrow> 9 \<le> c \<and> c \<le> 13 \<or> 28 \<le> c \<and> c \<le> 32 \<or> c \<in> {133, 160, 5760, 8232, 8233, 8239, 8287, 12288} \<or>
     8192 \<le> c \<and> c \<le> 8202"

text \<open>One line: white space alone is skipped, everything else must be JSON.\<close>

definition consume_line :: "dash_env \<Rightarrow> py_str \<Rightarrow> dashboard \<Rightarrow> dashboard outcome" where
  "consume_line env line d =
     (if list_all py_space line then (None, d)
      else (case loads line of None \<Rightarrow> (Some JSONDecodeError, d) | Some event \<Rightarrow> dash_event env event d))"

text \<open>The inner loop of \<^verbatim>\<open>_consume\<close>: the buffer that is left, and the exception if one ended the loop.\<close>

function consume_lines :: "dash_env \<Rightarrow> py_str \<Rightarrow> dashboard \<Rightarrow> (py_str \<times> dashboard) outcome" where
  "consume_lines env buf d =
     (if 10 \<in> set buf then
        (let line = takeWhile (\<lambda>c. c \<noteq> 10) buf;
             rest = drop (Suc (length line)) buf
         in case consume_line env line d of
              (Some e, d1) \<Rightarrow> (Some e, rest, d1)
            | (None, d1) \<Rightarrow> consume_lines env rest d1)
      else (None, buf, d))"
  by pat_completeness auto
termination
  by (relation "measure (\<lambda>(env, buf, d). length buf)") (auto intro!: diff_less length_pos_if_in_set)

declare consume_lines.simps [simp del]

text \<open>
  The thread: \<open>receiving\<close> between a successful connection and the exception that ends it,
  with the local buffer of \<^verbatim>\<open>_consume\<close> and the bytes it sent to the server on this connection.
\<close>

record connector =
  receiving :: bool
  py_buffer :: py_str
  sent_bytes :: cpp_string
  dash :: dashboard

datatype recv_result = Timeout | Data cpp_string

datatype run_input = Connection_refused | Connection_made | Received recv_result

text \<open>The text of \<^verbatim>\<open>json.dumps\<close> for the registration, with the separators of the library.\<close>

definition dash_register :: cpp_string where
  "dash_register = ''{\"type\": \"register\", \"role\": \"dashboard\", \"host\": \"flask-dashboard\"}'' @ [CHR_nl]"

definition disconnect :: "dashboard \<Rightarrow> connector \<Rightarrow> connector" where
  "disconnect d c = c\<lparr>receiving := False, dash := d\<lparr>connected := False\<rparr>\<rparr>"

definition consume_chunk :: "dash_env \<Rightarrow> cpp_string \<Rightarrow> connector \<Rightarrow> connector" where
  "consume_chunk env chunk c =
     (if chunk = [] then disconnect (dash c) c
      else case utf8_decode chunk of
             None \<Rightarrow> disconnect (dash c) c
           | Some u \<Rightarrow>
               (case consume_lines env (py_buffer c @ u) (dash c) of
                  (Some e, rest, d) \<Rightarrow> disconnect d c
                | (None, rest, d) \<Rightarrow> c\<lparr>py_buffer := rest, dash := d\<rparr>))"

text \<open>
  One step of \<^verbatim>\<open>_run\<close>: a connection attempt, or a \<^verbatim>\<open>recv\<close> of at most 4096
  bytes. An input that does not fit the state of the thread does not occur.
\<close>

definition run_step :: "dash_env \<Rightarrow> run_input \<Rightarrow> connector \<Rightarrow> connector" where
  "run_step env i c =
     (case i of
        Connection_refused \<Rightarrow> if receiving c then c else disconnect (dash c) c
      | Connection_made \<Rightarrow>
          if receiving c then c
          else \<lparr>receiving = True, py_buffer = [], sent_bytes = dash_register, dash = (dash c)\<lparr>connected := True\<rparr>\<rparr>
      | Received Timeout \<Rightarrow> c
      | Received (Data chunk) \<Rightarrow> if receiving c then consume_chunk env (take 4096 chunk) c else c)"

section \<open>Messages from the dashboard\<close>

definition hex_digit :: "nat \<Rightarrow> char" where
  "hex_digit n = ''0123456789abcdef'' ! n"

definition unicode_escape :: "nat \<Rightarrow> cpp_string" where
  "unicode_escape c =
     CHR_backslash # ''u'' @ [hex_digit (c div 4096 mod 16), hex_digit (c div 256 mod 16),
       hex_digit (c div 16 mod 16), hex_digit (c mod 16)]"

definition dumps_char :: "nat \<Rightarrow> cpp_string" where
  "dumps_char c =
     (if c = 92 then [CHR_backslash, CHR_backslash]
      else if c = 34 then [CHR_backslash, CHR_quote]
      else if c = 10 then [CHR_backslash, CHR ''n'']
      else if c = 13 then [CHR_backslash, CHR ''r'']
      else if c = 9 then [CHR_backslash, CHR ''t'']
      else if c = 12 then [CHR_backslash, CHR ''f'']
      else if c = 8 then [CHR_backslash, CHR ''b'']
      else if 32 \<le> c \<and> c < 127 then [char_of c]
      else if c < 65536 then unicode_escape c
      else unicode_escape (55296 + (c - 65536) div 1024) @ unicode_escape (56320 + (c - 65536) mod 1024))"

definition dumps_string :: "py_str \<Rightarrow> cpp_string" where
  "dumps_string u = CHR_quote # concat (map dumps_char u) @ [CHR_quote]"

definition command_message :: "py_str \<Rightarrow> cpp_string" where
  "command_message t = ''{\"type\": \"command\", \"text\": '' @ dumps_string t @ ''}''"

definition chat_message :: "py_str \<Rightarrow> py_str \<Rightarrow> cpp_string" where
  "chat_message sender t =
     ''{\"type\": \"chat\", \"from\": '' @ dumps_string sender @ '', \"text\": '' @ dumps_string t @ ''}''"

text \<open>\<^verbatim>\<open>_send\<close> raises (\<open>None\<close>) when the dashboard is not connected.\<close>

definition send_message :: "cpp_string \<Rightarrow> connector \<Rightarrow> connector option" where
  "send_message message c =
     (if receiving c then Some (c\<lparr>sent_bytes := sent_bytes c @ message @ [CHR_nl]\<rparr>) else None)"

definition send_command :: "py_str \<Rightarrow> connector \<Rightarrow> connector option" where
  "send_command t = send_message (command_message t)"

definition send_chat :: "py_str \<Rightarrow> py_str \<Rightarrow> connector \<Rightarrow> connector option" where
  "send_chat sender t = send_message (chat_message sender t)"

text \<open>\<^verbatim>\<open>upload_latest_alert\<close>: the answer, and the state after it.\<close>

definition upload_latest_alert :: "dash_env \<Rightarrow> dashboard \<Rightarrow> aws_status \<times> dashboard" where
  "upload_latest_alert env d =
     (if state_alerts d = [] \<or> \<not> truthy (last (state_alerts d)) then
        (let (now, d1) = utc_timestamp env d
         in (\<lparr>aws_timestamp = now, uploaded = False, aws_message = py ''No alerts available to upload'',
              s3_key = None\<rparr>, d1))
      else
        (let (status, d1) = upload_alert env (last (state_alerts d)) d
         in (status, d1\<lparr>state_aws := status\<rparr>)))"

definition initial_dashboard :: "bool \<Rightarrow> py_str \<Rightarrow> py_str \<Rightarrow> py_str \<Rightarrow> py_str \<Rightarrow> dashboard" where
  "initial_dashboard has_boto3 bkt topic prefix now =
     (let idle = \<lparr>aws_timestamp = now, uploaded = False, aws_message = py ''AWS upload idle'', s3_key = None\<rparr>
      in \<lparr>connected = False, last_event = None, state_metrics = [], state_alerts = [], state_chat = [],
          state_rules = JArray [], state_aws = idle, boto3_installed = has_boto3, bucket = bkt, topic_arn = topic,
          s3_prefix = prefix, last_result = idle, clock_ticks = 0, aws_calls = []\<rparr>)"

definition initial_connector :: "dashboard \<Rightarrow> connector" where
  "initial_connector d = \<lparr>receiving = False, py_buffer = [], sent_bytes = [], dash = d\<rparr>"

section \<open>For examples\<close>

text \<open>An environment for examples: the clock stands still and every call of the cloud client succeeds.\<close>

definition calm_env :: dash_env where
  "calm_env = \<lparr>time_at = (\<lambda>_. 0), aws_raises = (\<lambda>_. None), py_repr = (\<lambda>_. [])\<rparr>"

definition registered_connector :: connector where
  "registered_connector =
     run_step calm_env Connection_made (initial_connector (initial_dashboard False [] [] [] []))"

lemma registered_connector_simps [simp]:
  "receiving registered_connector" "py_buffer registered_connector = []" "sent_bytes registered_connector = dash_register"
  by (simp_all add: registered_connector_def run_step_def initial_connector_def)

end
