(* ===== verification/Dashboard_Invariant.thy ===== *)
theory Dashboard_Invariant
  imports Dashboard_State
begin

text \<open>
  The invariant of the dashboard's connection over all it can receive: bounded histories, a table of
  reports whose keys are distinct and are the hosts of the reports, a buffer without complete lines,
  and agreement of the connection flag with the thread. What is received is arbitrary: any bytes, any
  JSON, any failure.
\<close>

definition hosts_ok :: "(py_str \<times> json) list \<Rightarrow> bool" where
  "hosts_ok table \<longleftrightarrow> distinct (map fst table) \<and>
     (\<forall>h v. map_of table h = Some v \<longrightarrow> (\<exists>m. v = JObject m \<and> map_of m (py ''host'') = Some (JString h)))"

definition dash_ok :: "dashboard \<Rightarrow> bool" where
  "dash_ok d \<longleftrightarrow> length (state_alerts d) \<le> 50 \<and> length (state_chat d) \<le> 80 \<and> hosts_ok (state_metrics d)"

lemma length_last_n [simp]: "length (last_n n xs) \<le> n"
  by (simp add: last_n_def)

lemma hosts_ok_update:
  assumes "hosts_ok table" and "map_of m (py ''host'') = Some (JString h)"
  shows "hosts_ok (AList.update h (JObject m) table)"
  using assms by (auto simp: hosts_ok_def distinct_update update_conv' split: if_splits)

lemma metrics_by_host_ok: "metrics_by_host items table = Inr t \<Longrightarrow> hosts_ok table \<Longrightarrow> hosts_ok t"
proof (induction items arbitrary: table)
  case (Cons item items)
  then obtain h where h: "item_host item = Inr h" by (auto split: sum.splits)
  then obtain m where "item = JObject m" "map_of m (py ''host'') = Some (JString h)"
    by (auto simp: item_host_def host_key_def split: json.splits option.splits)
  then show ?case using Cons h hosts_ok_update by auto
qed simp

section \<open>What an upload leaves alone\<close>

definition same_state :: "dashboard \<Rightarrow> dashboard \<Rightarrow> bool" where
  "same_state d d' \<longleftrightarrow> connected d' = connected d \<and> state_metrics d' = state_metrics d \<and>
     state_alerts d' = state_alerts d \<and> state_chat d' = state_chat d \<and> state_rules d' = state_rules d \<and>
     last_event d' = last_event d"

lemma same_state_trans [trans]: "same_state a b \<Longrightarrow> same_state b c \<Longrightarrow> same_state a c"
  by (simp add: same_state_def)

lemma same_state_refl [simp]: "same_state d d"
  by (simp add: same_state_def)

lemma same_state_time [simp]:
  "same_state d (snd (read_time env d))" "same_state d (snd (utc_timestamp env d))"
  by (simp_all add: same_state_def utc_timestamp_def read_time_def Let_def)

lemma same_state_not_uploaded [simp]: "same_state d (snd (not_uploaded env t d))"
  by (simp add: same_state_def not_uploaded_def set_result_def utc_timestamp_def read_time_def Let_def)

lemma same_state_put: "same_state d (snd (snd (put_alert env a m d)))"
  by (simp add: same_state_def put_alert_def aws_do_def read_time_def Let_def case_prod_unfold)

lemma same_state_publish: "same_state d (snd (publish_alert env a m d))"
  by (simp add: same_state_def publish_alert_def aws_do_def)

lemma same_state_result [simp]: "same_state d (snd (set_result r d))"
  by (simp add: same_state_def set_result_def)

lemma same_state_upload: "same_state d (snd (upload_alert env a d))"
proof (cases "\<exists>m. a = JObject m \<and> boto3_installed d \<and> \<not> (bucket d = [] \<and> topic_arn d = [])")
  case True
  then obtain m where m: "a = JObject m" "boto3_installed d" "\<not> (bucket d = [] \<and> topic_arn d = [])" by blast
  let ?d1 = "snd (utc_timestamp env d)"
  let ?d2 = "snd (snd (put_alert env a m ?d1))"
  let ?d3 = "snd (publish_alert env a m ?d2)"
  have d2: "same_state d ?d2"
    by (rule same_state_trans [OF same_state_time(2) same_state_put])
  have d3: "same_state d ?d3"
    by (rule same_state_trans [OF d2 same_state_publish])
  show ?thesis
    using m same_state_trans [OF d2 same_state_not_uploaded] same_state_trans [OF d3 same_state_not_uploaded]
      same_state_trans [OF d3 same_state_result]
    by (auto simp: upload_alert_def Let_def case_prod_unfold split: option.split)
next
  case False
  then show ?thesis
    using same_state_trans [OF same_state_time(2) same_state_not_uploaded]
    by (cases a) (auto simp: upload_alert_def Let_def case_prod_unfold)
qed

section \<open>Every event keeps the invariant\<close>

lemma dash_event_connected: "connected (snd (dash_event env v d)) = connected d"
  using same_state_upload
  by (auto simp: dash_event_def handle_snapshot_def handle_metric_def handle_alert_def append_chat_def
      utc_timestamp_def read_time_def Let_def case_prod_unfold same_state_def split: json.split sum.split)

lemma hosts_ok_Nil [simp]: "hosts_ok []"
  by (simp add: hosts_ok_def)

lemma hosts_ok_list:
  assumes "hosts_ok t"
  shows "distinct (map fst t) \<and>
    list_all (\<lambda>(h, v). case v of JObject m \<Rightarrow> map_of m (py ''host'') = Some (JString h) | _ \<Rightarrow> False) t"
proof -
  have d: "distinct (map fst t)" using assms by (simp add: hosts_ok_def)
  have "\<exists>m. v = JObject m \<and> map_of m (py ''host'') = Some (JString h)" if "(h, v) \<in> set t" for h v
    using assms map_of_is_SomeI [OF d that] unfolding hosts_ok_def by blast
  then show ?thesis using d by (force simp: list_all_iff simp del: py_simps)
qed

lemma handle_snapshot_ok:
  assumes "dash_ok d"
  shows "dash_ok (snd (handle_snapshot m d))"
proof (cases "\<exists>items t. iterate (get_or m ''metrics'' (JArray [])) = Inr items \<and> metrics_by_host items [] = Inr t")
  case True
  then obtain items t where t: "iterate (get_or m ''metrics'' (JArray [])) = Inr items" "metrics_by_host items [] = Inr t"
    by blast
  then have "hosts_ok t" using metrics_by_host_ok by simp
  then show ?thesis using assms t by (simp add: handle_snapshot_def dash_ok_def)
next
  case False
  then have "snd (handle_snapshot m d) = d" by (auto simp: handle_snapshot_def split: sum.split)
  then show ?thesis using assms by simp
qed

lemma handle_metric_ok:
  assumes "dash_ok d"
  shows "dash_ok (snd (handle_metric m d))"
proof (cases "\<exists>x h. get_or m ''data'' (JObject []) = JObject x \<and> get_or x ''host'' JNull = JString h")
  case True
  then obtain x h where x: "get_or m ''data'' (JObject []) = JObject x" "get_or x ''host'' JNull = JString h" by blast
  then have "map_of x (py ''host'') = Some (JString h)" by (simp add: get_or_def del: py_simps split: option.splits)
  then have "hosts_ok (AList.update h (JObject x) (state_metrics d))"
    using assms by (simp add: dash_ok_def hosts_ok_update)
  then show ?thesis using assms x by (simp add: handle_metric_def dash_ok_def host_key_def)
next
  case False
  then have "host_key (get_or x ''host'' JNull) = Inl (if hashable (get_or x ''host'' JNull) then Outside_model else TypeError)"
    if "get_or m ''data'' (JObject []) = JObject x" for x
    using that by (auto simp: host_key_def split: json.split)
  then have "snd (handle_metric m d) = d"
    by (cases "get_or m ''data'' (JObject [])") (simp_all add: handle_metric_def Let_def)
  then show ?thesis using assms by simp
qed

lemma dash_event_ok:
  assumes "dash_ok d"
  shows "dash_ok (snd (dash_event env v d))"
proof (cases v)
  case (JObject m)
  let ?d1 = "(snd (utc_timestamp env d))\<lparr>last_event := Some (fst (utc_timestamp env d))\<rparr>"
  have d1: "dash_ok ?d1" using assms by (simp add: dash_ok_def utc_timestamp_def read_time_def Let_def)
  have "dash_ok (snd (handle_snapshot m ?d1))"
    by (rule handle_snapshot_ok [OF d1])
  moreover have "dash_ok (snd (handle_metric m ?d1))" by (rule handle_metric_ok [OF d1])
  moreover have "dash_ok (snd (handle_alert env m ?d1))"
    using d1 same_state_upload [of "?d1\<lparr>state_alerts := last_n 50 (state_alerts ?d1 @ [get_or m ''data'' (JObject [])])\<rparr>"]
    by (simp add: handle_alert_def dash_ok_def same_state_def Let_def case_prod_unfold)
  moreover have "dash_ok (append_chat e ?d1)" for e using d1 by (simp add: append_chat_def dash_ok_def)
  moreover have "dash_ok (?d1\<lparr>state_rules := r\<rparr>)" for r using d1 by (simp add: dash_ok_def)
  ultimately show ?thesis using d1 by (simp add: JObject dash_event_def Let_def case_prod_unfold)
qed (use assms in \<open>simp_all add: dash_event_def\<close>)

lemma consume_line_ok:
  "dash_ok d \<Longrightarrow> dash_ok (snd (consume_line env line d)) \<and> connected (snd (consume_line env line d)) = connected d"
  by (auto simp: consume_line_def dash_event_ok dash_event_connected split: option.split)

lemma consume_lines_ok:
  "consume_lines env b d = (r, rest, d') \<Longrightarrow> dash_ok d \<Longrightarrow>
     dash_ok d' \<and> connected d' = connected d \<and> (r = None \<longrightarrow> 10 \<notin> set rest)"
proof (induction env b d arbitrary: r rest d' rule: consume_lines.induct)
  case (1 env b d)
  show ?case
  proof (cases "10 \<in> set b")
    case True
    obtain q d1 where q: "consume_line env (takeWhile (\<lambda>c. c \<noteq> 10) b) d = (q, d1)" by fastforce
    then have d1: "dash_ok d1" "connected d1 = connected d"
      using consume_line_ok [OF "1.prems"(2), of env "takeWhile (\<lambda>c. c \<noteq> 10) b"] by simp_all
    show ?thesis
    proof (cases q)
      case None
      then have "consume_lines env (drop (Suc (length (takeWhile (\<lambda>c. c \<noteq> 10) b))) b) d1 = (r, rest, d')"
        using "1.prems"(1) True q by (simp add: consume_lines.simps [of env b d])
      then show ?thesis using "1.IH" [OF True refl refl] q None d1 by auto
    next
      case (Some e)
      then show ?thesis using "1.prems"(1) True q d1 by (auto simp: consume_lines.simps [of env b d])
    qed
  next
    case False
    then show ?thesis using "1.prems" by (auto simp: consume_lines.simps [of env b d])
  qed
qed

definition connector_ok :: "connector \<Rightarrow> bool" where
  "connector_ok c \<longleftrightarrow> dash_ok (dash c) \<and> connected (dash c) = receiving c \<and> (receiving c \<longrightarrow> 10 \<notin> set (py_buffer c))"

lemma consume_chunk_ok: "connector_ok c \<Longrightarrow> receiving c \<Longrightarrow> connector_ok (consume_chunk env chunk c)"
proof -
  assume c: "connector_ok c" "receiving c"
  have "dash_ok d \<Longrightarrow> connector_ok (disconnect d c)" for d
    by (simp add: connector_ok_def disconnect_def dash_ok_def)
  then show ?thesis
    using c consume_lines_ok [of env _ "dash c"]
    by (auto simp: consume_chunk_def connector_ok_def split: option.split prod.split)
qed

lemma run_step_ok: "connector_ok c \<Longrightarrow> connector_ok (run_step env i c)"
  using consume_chunk_ok
  by (cases i) (auto simp: run_step_def connector_ok_def disconnect_def dash_ok_def split: recv_result.split)

lemma initial_connector_ok: "connector_ok (initial_connector (initial_dashboard b bk tp px now))"
  by (simp add: connector_ok_def initial_connector_def initial_dashboard_def dash_ok_def hosts_ok_def Let_def)

end
