(* ===== verification/Dashboard_Encoding.thy ===== *)
theory Dashboard_Encoding
  imports Dashboard_Json
begin

text \<open>
  The messages of the server as the dashboard decodes them. A \<open>jtext\<close> is the structure the
  server's encoders print: objects, arrays, strings, integers and numbers with two decimals.
  \<open>loads\<close> reads a printed structure back as its meaning, and every encoder of
  \<open>Common_Events\<close> prints one.
\<close>

section \<open>Printed structures\<close>

datatype jtext =
    TStr py_str
  | TInt int
  | TFix bool nat
  | TArr "jtext list"
  | TObj "(py_str \<times> jtext) list"

definition escape_code :: "nat \<Rightarrow> py_str" where
  "escape_code c =
     (if c = 92 then [92, 92] else if c = 34 then [92, 34] else if c = 10 then [92, 110]
      else if c = 13 then [92, 114] else if c = 9 then [92, 116] else [c])"

definition escape_codes :: "py_str \<Rightarrow> py_str" where
  "escape_codes u = concat (map escape_code u)"

lemma escape_codes_simps [simp]:
  "escape_codes [] = []" "escape_codes (c # u) = escape_code c @ escape_codes u"
  "escape_codes (u @ v) = escape_codes u @ escape_codes v"
  by (simp_all add: escape_codes_def)

fun sep_by :: "py_str list \<Rightarrow> py_str" where
  "sep_by [] = []"
| "sep_by [x] = x"
| "sep_by (x # y # xs) = x @ 44 # sep_by (y # xs)"

fun render :: "jtext \<Rightarrow> py_str" where
  "render (TStr u) = 34 # escape_codes u @ [34]"
| "render (TInt i) = py (int_to_string i)"
| "render (TFix s h) = py ((if s then ''-'' else []) @ fixed2 h)"
| "render (TArr ts) = 91 # sep_by (map render ts) @ [93]"
| "render (TObj ms) = 123 # sep_by (map (\<lambda>(k, t). 34 # k @ 34 # 58 # render t) ms) @ [125]"

fun meaning :: "jtext \<Rightarrow> json" where
  "meaning (TStr u) = JString u"
| "meaning (TInt i) = JInt i"
| "meaning (TFix s h) = JFloat (decimal_float s h (- 2))"
| "meaning (TArr ts) = JArray (map meaning ts)"
| "meaning (TObj ms) = JObject (dict_of (map (\<lambda>(k, t). (k, meaning t)) ms))"

text \<open>Texts that survive: the encoder escapes three control characters, the reader accepts no other.\<close>

definition clean_code :: "nat \<Rightarrow> bool" where
  "clean_code c \<longleftrightarrow> 32 \<le> c \<or> c \<in> {9, 10, 13}"

definition plain_code :: "nat \<Rightarrow> bool" where
  "plain_code c \<longleftrightarrow> 32 \<le> c \<and> c \<noteq> 34 \<and> c \<noteq> 92"

fun clean :: "jtext \<Rightarrow> bool" where
  "clean (TStr u) \<longleftrightarrow> (\<forall>c \<in> set u. clean_code c)"
| "clean (TInt i) \<longleftrightarrow> True"
| "clean (TFix s h) \<longleftrightarrow> True"
| "clean (TArr ts) \<longleftrightarrow> (\<forall>t \<in> set ts. clean t)"
| "clean (TObj ms) \<longleftrightarrow> (\<forall>m \<in> set ms. (\<forall>c \<in> set (fst m). plain_code c) \<and> clean (snd m))"

section \<open>Reading them back\<close>

subsection \<open>Strings and numbers\<close>

lemma scan_escape_code:
  "clean_code c \<Longrightarrow> scan_string (escape_code c @ s) = map_option (apfst (Cons c)) (scan_string s)"
  by (auto simp: escape_code_def clean_code_def simple_escape_def)

lemma scan_string_escaped:
  "\<forall>c \<in> set u. clean_code c \<Longrightarrow> scan_string (escape_codes u @ 34 # s) = Some (u, s)"
  by (induction u) (simp_all add: scan_escape_code)

lemma scan_string_plain: "\<forall>c \<in> set k. plain_code c \<Longrightarrow> scan_string (k @ 34 # s) = Some (k, s)"
  by (induction k) (auto simp: plain_code_def)

text \<open>A text after which a number has ended.\<close>

definition number_end :: "py_str \<Rightarrow> bool" where
  "number_end s \<longleftrightarrow> (s = [] \<or> hd s \<in> {44, 93, 125})"

lemma number_end_facts:
  assumes "number_end s"
  shows "takeWhile py_digit (ds @ s) = takeWhile py_digit ds" "take 1 s \<noteq> [46]" "exponent_part s = None"
proof -
  show "takeWhile py_digit (ds @ s) = takeWhile py_digit ds"
    using assms by (induction ds; cases s) (auto simp: number_end_def py_digit_def)
  show "take 1 s \<noteq> [46]" "exponent_part s = None"
    using assms by (cases s; auto simp: number_end_def exponent_part_def)+
qed

lemma of_char_digit: "isdigit c \<Longrightarrow> py_digit (of_char c) \<and> of_char c - 48 = digit_value c"
  by (auto simp: isdigit_def digit_chars_def py_digit_def digit_value_def)

lemma py_digits: "\<forall>c \<in> set s. isdigit c \<Longrightarrow> \<forall>d \<in> set (py s). py_digit d"
  using of_char_digit by (auto simp: py_def)

lemma decimal_value_py: "\<forall>c \<in> set s. isdigit c \<Longrightarrow> decimal_value (py s) = digits_value 0 s"
proof -
  have "foldl (\<lambda>acc c. 10 * acc + (c - 48)) n (py s) = digits_value n s" if "\<forall>c \<in> set s. isdigit c" for n
    using that by (induction s arbitrary: n) (simp_all add: of_char_digit)
  then show "\<forall>c \<in> set s. isdigit c \<Longrightarrow> decimal_value (py s) = digits_value 0 s"
    by (simp add: decimal_value_def)
qed

lemma nat_to_string_zero: "hd (nat_to_string n) = CHR ''0'' \<Longrightarrow> nat_to_string n = ''0''"
proof (induction n rule: nat_to_string.induct)
  case (1 n)
  show ?case
  proof (cases "n < 10")
    case True
    then have "n \<in> {0..<10}" by simp
    then show ?thesis using "1.prems" True
      by (auto simp: nat_to_string.simps [of n] digit_char_def digit_chars_def less_Suc_eq numeral_eq_Suc)
  next
    case False
    then have "hd (nat_to_string (n div 10)) = CHR ''0''"
      using "1.prems" by (simp add: nat_to_string.simps [of n])
    then have "nat_to_string (n div 10) = ''0''" using "1.IH" False by simp
    then have "n div 10 = 0" using digits_value_nat_to_string [of "n div 10"] by (simp add: digit_value_def)
    then show ?thesis using False by simp
  qed
qed

definition not_digit :: "py_str \<Rightarrow> bool" where
  "not_digit s \<longleftrightarrow> s = [] \<or> \<not> py_digit (hd s)"

lemma integer_part_digits:
  assumes "not_digit r"
  shows "integer_part (py (nat_to_string n) @ r) = py (nat_to_string n)"
proof (cases "take 1 (py (nat_to_string n) @ r) = [48]")
  case True
  obtain c cs where n: "nat_to_string n = c # cs" by (cases "nat_to_string n") auto
  then have "of_char c = (48::nat)" using True by simp
  then have "c = CHR ''0''" using of_char_eq_iff [of c "CHR ''0''", where 'a = nat] by simp
  then have "nat_to_string n = ''0''" using nat_to_string_zero [of n] n by simp
  then show ?thesis by (simp add: integer_part_def)
next
  case False
  have "takeWhile py_digit (py (nat_to_string n) @ r) = py (nat_to_string n) @ takeWhile py_digit r"
    using py_digits [OF nat_to_string_all_digits] by (simp add: takeWhile_append)
  moreover have "takeWhile py_digit r = []" using assms by (cases r) (auto simp: not_digit_def)
  ultimately show ?thesis using False by (simp add: integer_part_def)
qed

definition sign_text :: "bool \<Rightarrow> py_str" where
  "sign_text neg = (if neg then [45] else [])"

lemma sign_facts:
  assumes "\<not> take 1 t = [45]"
  shows "(take 1 (sign_text neg @ t) = [45]) = neg"
    "(if take 1 (sign_text neg @ t) = [45] then drop 1 (sign_text neg @ t) else sign_text neg @ t) = t"
  using assms by (simp_all add: sign_text_def)

lemma digits_not_sign: "\<not> take 1 (py (nat_to_string n) @ r) = [45]"
proof -
  obtain c cs where n: "nat_to_string n = c # cs" by (cases "nat_to_string n") auto
  then have "py_digit (of_char c)" using of_char_digit nat_to_string_digits [of c n] by simp
  then show ?thesis by (simp add: n py_digit_def)
qed

lemma parse_number_integer:
  assumes "number_end r"
  shows "parse_number (sign_text neg @ py (nat_to_string n) @ r) = Some (JInt (if neg then - int n else int n), r)"
proof -
  have ip: "integer_part (py (nat_to_string n) @ r) = py (nat_to_string n)"
    using assms by (intro integer_part_digits) (auto simp: not_digit_def number_end_def py_digit_def)
  have fp: "fraction_part r = []" using number_end_facts(2) [OF assms] by (simp add: fraction_part_def)
  have nonempty: "py (nat_to_string n) \<noteq> []" by (simp add: py_def)
  have val: "decimal_value (py (nat_to_string n)) = n" by (simp add: decimal_value_py nat_to_string_digits)
  show ?thesis
    unfolding parse_number_def Let_def
    unfolding sign_facts(2) [OF digits_not_sign] unfolding sign_facts(1) [OF digits_not_sign] ip
    using fp nonempty val number_end_facts(3) [OF assms] by simp
qed

lemma parse_number_fixed:
  assumes "number_end r"
  shows "parse_number (sign_text neg @ py (fixed2 h) @ r) = Some (JFloat (decimal_float neg h (- 2)), r)"
proof -
  let ?w = "nat_to_string (h div 100)" and ?f = "[digit_char (h mod 100 div 10), digit_char (h mod 10)]"
  have f: "\<forall>c \<in> set ?f. isdigit c" by simp
  have shape: "py (fixed2 h) @ r = py ?w @ 46 # py ?f @ r" by (simp add: fixed2_def)
  have ip: "integer_part (py ?w @ 46 # py ?f @ r) = py ?w"
    by (intro integer_part_digits) (simp add: not_digit_def py_digit_def)
  have "takeWhile py_digit (py ?f) = py ?f" using py_digits [OF f] by (simp add: takeWhile_eq_all_conv)
  then have "takeWhile py_digit (py ?f @ r) = py ?f" unfolding number_end_facts(1) [OF assms] .
  then have fp: "fraction_part (46 # py ?f @ r) = py ?f" by (simp only: fraction_part_def) simp
  have ws: "\<forall>c \<in> set (?w @ ?f). isdigit c" using nat_to_string_digits f by (auto simp del: isdigit_digit_char)
  have val: "decimal_value (py ?w @ py ?f) = h"
    using decimal_value_py [OF ws] fixed2_digits_value [of h] by (simp only: py_simps(3))
  have nonempty: "py ?w \<noteq> []" "py ?f \<noteq> []" by (simp_all add: py_def)
  have len: "drop (1 + length (py ?f)) (46 # py ?f @ r) = r" "length (py ?f) = 2" by simp_all
  have drop: "drop (length (py ?w)) (py ?w @ 46 # py ?f @ r) = 46 # py ?f @ r" by simp
  show ?thesis
    unfolding shape parse_number_def Let_def
    unfolding sign_facts(2) [OF digits_not_sign] unfolding sign_facts(1) [OF digits_not_sign] ip drop fp
    using nonempty val len number_end_facts(3) [OF assms] by simp
qed

lemma parse_constant_number:
  assumes "py_digit d"
  shows "parse_constant (sign_text neg @ d # r) = None"
  using assms by (auto simp: parse_constant_def json_constants_def sign_text_def py_digit_def)

lemma parse_value_atom:
  assumes "py_digit d"
  shows "parse_value (sign_text neg @ d # r) = parse_number (sign_text neg @ d # r)"
  using parse_constant_number [OF assms, of neg r] assms
  by (cases neg) (auto simp: sign_text_def parse_value.simps [of "_ # _"] parse_atom_def py_digit_def)

lemma parse_value_digits:
  "parse_value (sign_text neg @ py (nat_to_string n) @ r) = parse_number (sign_text neg @ py (nat_to_string n) @ r)"
proof -
  obtain c cs where n: "nat_to_string n = c # cs" by (cases "nat_to_string n") auto
  then have "py_digit (of_char c)" using of_char_digit nat_to_string_digits [of c n] by simp
  then show ?thesis using parse_value_atom [of "of_char c" neg] by (simp add: n)
qed

subsection \<open>Arrays and objects\<close>

lemma render_head: "\<exists>c cs. render t = c # cs \<and> \<not> json_space c \<and> c \<noteq> 93 \<and> c \<noteq> 125"
proof -
  have digits: "\<exists>c cs. sign_text neg @ py (nat_to_string n) @ r = c # cs \<and> \<not> json_space c \<and> c \<noteq> 93 \<and> c \<noteq> 125" for neg n r
  proof -
    obtain c cs where n: "nat_to_string n = c # cs" by (cases "nat_to_string n") auto
    then have "py_digit (of_char c)" using of_char_digit nat_to_string_digits [of c n] by simp
    then show ?thesis by (auto simp: n sign_text_def py_digit_def json_space_def)
  qed
  show ?thesis
  proof (cases t)
    case (TInt i)
    then show ?thesis using digits [of "i < 0" "nat \<bar>i\<bar>" "[]"] by (auto simp: sign_text_def int_to_string_def)
  next
    case (TFix s h)
    then show ?thesis using digits [of s "h div 100"] by (auto simp: sign_text_def fixed2_def)
  qed (auto simp: json_space_def)
qed

lemma skip_space_render [simp]: "skip_space (render t @ s) = render t @ s"
proof -
  obtain c cs where "render t = c # cs" "\<not> json_space c" using render_head by blast
  then show ?thesis by (simp add: skip_space_def)
qed

lemma skip_space_nonspace [simp]: "\<not> json_space c \<Longrightarrow> skip_space (c # s) = c # s"
  by (simp add: skip_space_def)

lemma json_space_marks [simp]:
  "\<not> json_space 34" "\<not> json_space 44" "\<not> json_space 58" "\<not> json_space 91" "\<not> json_space 93"
  "\<not> json_space 123" "\<not> json_space 125"
  by (simp_all add: json_space_def)

lemma number_end_marks [simp]: "number_end []" "number_end (44 # s)" "number_end (93 # s)" "number_end (125 # s)"
  by (simp_all add: number_end_def)

lemma parse_elements_render:
  assumes "\<forall>t \<in> set ts. \<forall>r. number_end r \<longrightarrow> parse_value (render t @ r) = Some (meaning t, r)" and "ts \<noteq> []"
  shows "parse_elements (sep_by (map render ts) @ 93 # r) = Some (map meaning ts, r)"
  using assms(2,1)
proof (induction ts rule: list_nonempty_induct)
  case (single t)
  then show ?case by (subst parse_elements_unguarded) simp
next
  case (cons t ts)
  then obtain u us where ts: "ts = u # us" by (cases ts) auto
  have "parse_elements (sep_by (map render ts) @ 93 # r) = Some (map meaning ts, r)" using cons by simp
  moreover have "skip_space (sep_by (map render ts) @ 93 # r) = sep_by (map render ts) @ 93 # r"
    using skip_space_render by (cases us) (simp_all add: ts)
  moreover have "sep_by (map render (t # ts)) = render t @ 44 # sep_by (map render ts)" by (simp add: ts)
  ultimately show ?case using cons.prems by (subst parse_elements_unguarded) simp
qed

abbreviation render_member :: "py_str \<times> jtext \<Rightarrow> py_str" where
  "render_member \<equiv> \<lambda>(k, t). 34 # k @ 34 # 58 # render t"

abbreviation meaning_member :: "py_str \<times> jtext \<Rightarrow> py_str \<times> json" where
  "meaning_member \<equiv> \<lambda>(k, t). (k, meaning t)"

lemma parse_members_render:
  assumes "\<forall>m \<in> set ms. (\<forall>c \<in> set (fst m). plain_code c) \<and>
      (\<forall>r. number_end r \<longrightarrow> parse_value (render (snd m) @ r) = Some (meaning (snd m), r))"
    and "ms \<noteq> []"
  shows "parse_members (sep_by (map render_member ms) @ 125 # r) = Some (map meaning_member ms, r)"
  using assms(2,1)
proof (induction ms rule: list_nonempty_induct)
  case (single m)
  then show ?case
    by (subst parse_members_unguarded) (simp add: case_prod_unfold scan_string_plain)
next
  case (cons m ms)
  then obtain n ns where ms: "ms = n # ns" by (cases ms) auto
  have "parse_members (sep_by (map render_member ms) @ 125 # r) = Some (map meaning_member ms, r)" using cons by simp
  moreover have "skip_space (sep_by (map render_member ms) @ 125 # r) = sep_by (map render_member ms) @ 125 # r"
    by (cases ns) (simp_all add: ms case_prod_unfold)
  moreover have "sep_by (map render_member (m # ms)) = render_member m @ 44 # sep_by (map render_member ms)"
    by (simp add: ms)
  ultimately show ?case using cons.prems
    by (subst parse_members_unguarded) (simp add: case_prod_unfold scan_string_plain)
qed

lemma sep_by_head: "xs \<noteq> [] \<Longrightarrow> hd xs = c # cs \<Longrightarrow> \<exists>ds. sep_by xs = c # ds"
  by (cases xs rule: sep_by.cases) auto

lemma parse_render: "clean t \<Longrightarrow> number_end r \<Longrightarrow> parse_value (render t @ r) = Some (meaning t, r)"
proof (induction t arbitrary: r)
  case (TStr u)
  then show ?case by (simp add: parse_value.simps [of "_ # _"] scan_string_escaped)
next
  case (TInt i)
  have "render (TInt i) = sign_text (i < 0) @ py (nat_to_string (nat \<bar>i\<bar>))"
    by (simp add: sign_text_def int_to_string_def)
  then show ?case using parse_number_integer [OF TInt(2)] by (simp add: parse_value_digits)
next
  case (TFix s h)
  have shape: "render (TFix s h) @ r = sign_text s @ py (fixed2 h) @ r" by (simp add: sign_text_def)
  have "parse_value (sign_text s @ py (fixed2 h) @ r) = parse_number (sign_text s @ py (fixed2 h) @ r)"
    unfolding fixed2_def py_simps append_assoc by (rule parse_value_digits)
  then show ?case unfolding shape by (simp add: parse_number_fixed [OF TFix(2)])
next
  case (TArr ts)
  show ?case
  proof (cases "ts = []")
    case False
    then obtain c cs where c: "hd (map render ts) = c # cs" "\<not> json_space c" "c \<noteq> 93"
      using render_head [of "hd ts"] by (auto simp: hd_map)
    then obtain ds where ds: "sep_by (map render ts) = c # ds" using sep_by_head False by (metis map_is_Nil_conv)
    have "parse_elements (sep_by (map render ts) @ 93 # r) = Some (map meaning ts, r)"
      using TArr False by (intro parse_elements_render) auto
    then show ?thesis using c(2,3) by (simp add: parse_value.simps [of "91 # _"] ds)
  qed (simp add: parse_value.simps [of "_ # _"])
next
  case (TObj ms)
  show ?case
  proof (cases "ms = []")
    case False
    then have "hd (map render_member ms) = 34 # fst (hd ms) @ 34 # 58 # render (snd (hd ms))"
      by (cases ms) (simp_all add: case_prod_unfold)
    then obtain ds where ds: "sep_by (map render_member ms) = 34 # ds"
      using sep_by_head [of "map render_member ms"] False by blast
    have "parse_members (sep_by (map render_member ms) @ 125 # r) = Some (map meaning_member ms, r)"
      using TObj False by (intro parse_members_render) (auto simp: snds.simps)
    then show ?thesis by (simp add: parse_value.simps [of "123 # _"] ds)
  qed (simp add: parse_value.simps [of "_ # _"] dict_of_def)
qed

lemma loads_render: "clean (TObj ms) \<Longrightarrow> loads (render (TObj ms)) = Some (meaning (TObj ms))"
  using parse_render [of "TObj ms" "[]"] skip_space_render [of "TObj ms" "[]"]
  by (simp add: loads_def del: meaning.simps) (simp add: skip_space_def)

section \<open>Decoding what the server sends\<close>

text \<open>Decoding takes one character at a time: an ASCII byte, or a sequence of larger bytes.\<close>

lemma decode_step:
  assumes "decode_bytes (a # bs) = Some u"
  obtains (char) h t c v where "a # bs = h @ t" "h \<noteq> []" "u = c # v" "decode_bytes t = Some v"
    "\<And>x. decode_bytes (h @ x) = map_option (Cons c) (decode_bytes x)"
    "h = [c] \<and> c < 128 \<or> (\<forall>y \<in> set h. 128 \<le> y) \<and> 128 \<le> c"
proof -
  consider (one) "a < 128" | (two) "194 \<le> a" "a < 224" | (three) "224 \<le> a" "a < 240" | (four) "240 \<le> a" "a < 245"
    using assms by (cases "a < 128"; cases "a < 194"; cases "a < 224"; cases "a < 240"; cases "a < 245") simp_all
  then show ?thesis
  proof cases
    case one
    then show ?thesis using assms char [of "[a]" bs a] by auto
  next
    case two
    then obtain b r v where "bs = b # r" "continuation b" "u = ((a - 192) * 64 + (b - 128)) # v" "decode_bytes r = Some v"
      using assms by (cases bs) (auto split: if_splits)
    then show ?thesis using two char [of "[a, b]" r "(a - 192) * 64 + (b - 128)" v] by (auto simp: continuation_def)
  next
    case three
    then obtain b c r v where bs: "bs = b # c # r" "continuation b" "continuation c" "a = 224 \<longrightarrow> 160 \<le> b" "a = 237 \<longrightarrow> b < 160"
        "u = ((a - 224) * 4096 + (b - 128) * 64 + (c - 128)) # v" "decode_bytes r = Some v"
      using assms by (cases bs rule: hex4.cases) (auto split: if_splits list.splits)
    have "128 \<le> (a - 224) * 4096 + (b - 128) * 64 + (c - 128)"
      using three bs(4) by (cases "a = 224") auto
    then show ?thesis
      using three bs char [of "[a, b, c]" r "(a - 224) * 4096 + (b - 128) * 64 + (c - 128)" v]
      by (auto simp: continuation_def)
  next
    case four
    then obtain b c d r v where bs: "bs = b # c # d # r" "continuation b" "continuation c" "continuation d"
        "a = 240 \<longrightarrow> 144 \<le> b" "a = 244 \<longrightarrow> b < 144"
        "u = ((a - 240) * 262144 + (b - 128) * 4096 + (c - 128) * 64 + (d - 128)) # v" "decode_bytes r = Some v"
      using assms by (cases bs rule: hex4.cases) (auto split: if_splits list.splits)
    have "128 \<le> (a - 240) * 262144 + (b - 128) * 4096 + (c - 128) * 64 + (d - 128)"
      using four bs(5) by (cases "a = 240") auto
    then show ?thesis
      using four bs
        char [of "[a, b, c, d]" r "(a - 240) * 262144 + (b - 128) * 4096 + (c - 128) * 64 + (d - 128)" v]
      by (auto simp: continuation_def)
  qed
qed

lemma decode_induct [consumes 1, case_names Nil char]:
  assumes "decode_bytes s = Some u" and "P [] []"
    and "\<And>h t c v. decode_bytes t = Some v \<Longrightarrow> P t v \<Longrightarrow>
      (\<And>x. decode_bytes (h @ x) = map_option (Cons c) (decode_bytes x)) \<Longrightarrow>
      h = [c] \<and> c < 128 \<or> (\<forall>y \<in> set h. 128 \<le> y) \<and> 128 \<le> c \<Longrightarrow> P (h @ t) (c # v)"
  shows "P s u"
  using assms(1)
proof (induction s arbitrary: u rule: length_induct)
  case (1 s)
  show ?case
  proof (cases s)
    case Nil
    then show ?thesis using "1.prems" assms(2) by simp
  next
    case (Cons a bs)
    with "1.prems" have "decode_bytes (a # bs) = Some u" by simp
    then show ?thesis
    proof (cases rule: decode_step)
      case (char h t c v)
      have "length t < length s" using Cons char(1,2) by (metis length_append length_greater_0_conv less_add_same_cancel2)
      then have "P t v" using "1.IH" char(4) by blast
      then show ?thesis unfolding Cons char(1,3) by (rule assms(3) [OF char(4) _ char(5,6)])
    qed
  qed
qed

lemma decode_append: "decode_bytes a = Some u \<Longrightarrow> decode_bytes (a @ b) = map_option (append u) (decode_bytes b)"
proof (induction rule: decode_induct)
  case Nil
  then show ?case by (cases "decode_bytes b") simp_all
next
  case (char h t c v)
  then show ?case by (cases "decode_bytes b") simp_all
qed

lemma utf8_append:
  "utf8_decode a = Some u \<Longrightarrow> utf8_decode (a @ b) = map_option (append u) (utf8_decode b)"
  by (simp add: utf8_decode_def decode_append)

lemma utf8_Cons:
  "(of_char c :: nat) < 128 \<Longrightarrow> utf8_decode (c # s) = map_option (Cons (of_char c)) (utf8_decode s)"
  by (simp add: utf8_decode_def)

lemma utf8_Nil: "utf8_decode [] = Some []"
  by (simp add: utf8_decode_def)

lemma utf8_ascii: "ascii s \<Longrightarrow> utf8_decode s = Some (py s)"
  by (induction s) (simp_all add: utf8_Nil utf8_Cons ascii_def)

lemma escape_json_codes: "map of_char (escape_json b) = escape_codes (map of_char b)"
proof -
  have "map of_char (escape_char c) = escape_code (of_char c)" for c
  proof -
    have "of_char c = (of_char d :: nat) \<longleftrightarrow> c = d" for d by simp
    from this [of CHR_backslash] this [of CHR_quote] this [of CHR_nl] this [of CHR_cr] this [of CHR_tab]
    show ?thesis by (simp add: escape_char_def escape_code_def)
  qed
  then show ?thesis by (simp add: escape_json_def escape_codes_def map_concat comp_def)
qed

lemma decode_escape_code:
  "a < 128 \<Longrightarrow> decode_bytes (escape_code a @ s) = map_option (append (escape_code a)) (decode_bytes s)"
  by (cases "decode_bytes s") (simp_all add: escape_code_def)

lemma escape_codes_high: "\<forall>y \<in> set h. 128 \<le> y \<Longrightarrow> escape_codes h = h"
  by (induction h) (simp_all add: escape_code_def)

lemma decode_escaped: "decode_bytes bs = Some u \<Longrightarrow> decode_bytes (escape_codes bs) = Some (escape_codes u)"
proof (induction rule: decode_induct)
  case (char h t c v)
  from char(3) show ?case
  proof
    assume "h = [c] \<and> c < 128"
    then show ?thesis using char(4) by (simp add: decode_escape_code)
  next
    assume "(\<forall>y \<in> set h. 128 \<le> y) \<and> 128 \<le> c"
    then show ?thesis using char(2,4) by (simp add: escape_codes_high) (simp add: escape_code_def)
  qed
qed simp

lemma utf8_escape_json: "utf8_decode b = Some u \<Longrightarrow> utf8_decode (escape_json b) = Some (escape_codes u)"
  by (simp add: utf8_decode_def escape_json_codes decode_escaped)

section \<open>The structure of each message\<close>

definition text_of :: "cpp_string \<Rightarrow> py_str" where
  "text_of b = the (utf8_decode b)"

text \<open>Texts that reach the dashboard: UTF-8 with no control characters but the three the encoder escapes.\<close>

definition valid_text :: "cpp_string \<Rightarrow> bool" where
  "valid_text b \<longleftrightarrow> (case utf8_decode b of Some u \<Rightarrow> list_all clean_code u | None \<Rightarrow> False)"

lemma valid_text_clean: "valid_text b \<Longrightarrow> \<forall>c \<in> set (text_of b). clean_code c"
  by (auto simp: valid_text_def text_of_def list_all_iff split: option.splits)

lemma valid_text_decode: "valid_text b \<Longrightarrow> utf8_decode (escape_json b) = Some (escape_codes (text_of b))"
  by (auto simp: valid_text_def text_of_def utf8_escape_json split: option.splits)

lemma valid_text_append: "valid_text a \<Longrightarrow> valid_text b \<Longrightarrow> valid_text (a @ b)"
  by (auto simp: valid_text_def utf8_append split: option.splits)

definition printable :: "cpp_string \<Rightarrow> bool" where
  "printable s \<longleftrightarrow> (\<forall>c \<in> set s. 32 \<le> (of_char c :: nat) \<and> (of_char c :: nat) < 127)"

lemma printable_text:
  assumes "printable s"
  shows "utf8_decode s = Some (py s) \<and> text_of s = py s \<and> valid_text s"
proof -
  have "ascii s" using assms by (force simp: printable_def ascii_def)
  then have decode: "utf8_decode s = Some (py s)" by (rule utf8_ascii)
  moreover have "list_all clean_code (py s)" using assms by (auto simp: printable_def py_def list_all_iff clean_code_def)
  ultimately show ?thesis by (simp add: text_of_def valid_text_def)
qed

lemma printable_append [simp]: "printable (s @ t) \<longleftrightarrow> printable s \<and> printable t"
  by (auto simp: printable_def)

lemma printable_digits [simp]: "printable (nat_to_string n)" "k < 10 \<Longrightarrow> printable [digit_char k]"
proof -
  have digit: "32 \<le> (of_char c :: nat) \<and> (of_char c :: nat) < 127" if "isdigit c" for c
    using of_char_digit [OF that] by (simp add: py_digit_def)
  show "printable (nat_to_string n)" using digit nat_to_string_digits by (simp add: printable_def)
  show "k < 10 \<Longrightarrow> printable [digit_char k]" using digit isdigit_digit_char by (simp add: printable_def)
qed

lemma printable_fixed2: "printable (fixed2 h)"
proof -
  have "printable [digit_char (h mod 100 div 10), digit_char (h mod 10)]"
    using printable_digits(2) [of "h mod 100 div 10"] printable_digits(2) [of "h mod 10"]
    by (simp add: printable_def)
  moreover have "printable ''.''" by (simp add: printable_def)
  ultimately show ?thesis unfolding fixed2_def printable_append using printable_digits(1) by blast
qed

lemma printable_numbers: "printable (int_to_string i)" "is_finite x \<Longrightarrow> printable (format_double x)"
proof -
  show "printable (int_to_string i)"
    using printable_digits(1) by (simp add: int_to_string_def printable_def)
  show "is_finite x \<Longrightarrow> printable (format_double x)"
    using printable_fixed2
    by (cases x) (auto simp: is_finite_def printable_def)
qed

lemma printable_iso_timestamp: "printable (iso_timestamp now)"
proof -
  have "printable (pad2 n)" for n
    using printable_digits(2) [of "nat n div 10 mod 10"] printable_digits(2) [of "nat n mod 10"]
    by (simp add: pad2_def printable_def)
  moreover have "printable ''-''" "printable '':''" "printable ''T''" "printable ''Z''"
    by (simp_all add: printable_def)
  ultimately show ?thesis
    unfolding iso_timestamp_def Let_def case_prod_unfold printable_append using printable_numbers(1) by blast
qed

fun number_text :: "double \<Rightarrow> jtext" where
  "number_text (Finite s m e) = TFix s (hundredths m e)"
| "number_text _ = TInt 0"

lemma number_text_decode: "is_finite x \<Longrightarrow> utf8_decode (format_double x) = Some (render (number_text x))"
  using printable_text [OF printable_numbers(2), of x] by (cases x) (simp_all add: is_finite_def)

lemma int_text_decode: "utf8_decode (int_to_string i) = Some (render (TInt i))"
  using printable_text [OF printable_numbers(1)] by simp

lemma clean_number_text: "clean (number_text x)"
  by (cases x) simp_all

definition metric_text :: "MetricSnapshot \<Rightarrow> jtext" where
  "metric_text m = TObj
     [(py ''host'', TStr (text_of (ms_host m))), (py ''timestamp'', TStr (text_of (ms_timestamp m))),
      (py ''cpu_percent'', number_text (cpu_percent m)), (py ''memory_percent'', number_text (memory_percent m)),
      (py ''disk_percent'', number_text (disk_percent m)),
      (py ''network_rx_kbps'', number_text (network_rx_kbps m)),
      (py ''network_tx_kbps'', number_text (network_tx_kbps m)),
      (py ''memory_used_mb'', TInt (memory_used_mb m)), (py ''memory_total_mb'', TInt (memory_total_mb m)),
      (py ''disk_used_mb'', TInt (disk_used_mb m)), (py ''disk_total_mb'', TInt (disk_total_mb m))]"

definition metric_event_text :: "MetricSnapshot \<Rightarrow> jtext" where
  "metric_event_text m = TObj [(py ''type'', TStr (py ''metric'')), (py ''data'', metric_text m)]"

definition snapshot_event_text :: "metric_table \<Rightarrow> int \<Rightarrow> jtext" where
  "snapshot_event_text metrics now = TObj
     [(py ''type'', TStr (py ''snapshot'')), (py ''timestamp'', TStr (py (iso_timestamp now))),
      (py ''metrics'', TArr (map (metric_text \<circ> snd) (ordered metrics)))]"

definition chat_event_text :: "ChatMessage \<Rightarrow> jtext" where
  "chat_event_text chat = TObj
     [(py ''type'', TStr (py ''chat'')), (py ''from'', TStr (text_of (chat_sender chat))),
      (py ''text'', TStr (text_of (chat_text chat))), (py ''timestamp'', TStr (text_of (chat_timestamp chat)))]"

definition ack_event_text :: "cpp_string \<Rightarrow> jtext" where
  "ack_event_text message = TObj [(py ''type'', TStr (py ''ack'')), (py ''message'', TStr (text_of message))]"

definition error_event_text :: "cpp_string \<Rightarrow> jtext" where
  "error_event_text message = TObj [(py ''type'', TStr (py ''error'')), (py ''message'', TStr (text_of message))]"

definition alert_text :: "AlertEvent \<Rightarrow> jtext" where
  "alert_text alert = TObj
     [(py ''host'', TStr (text_of (ae_host alert))), (py ''timestamp'', TStr (text_of (ae_timestamp alert))),
      (py ''metric_key'', TStr (text_of (ae_metric_key alert))),
      (py ''display_metric'', TStr (text_of (ae_display_metric alert))),
      (py ''metric_value'', number_text (ae_metric_value alert)), (py ''threshold'', number_text (ae_threshold alert)),
      (py ''rule'', TStr (text_of (ae_rule alert))), (py ''message'', TStr (text_of (ae_message alert)))]"

definition alert_event_text :: "AlertEvent \<Rightarrow> jtext" where
  "alert_event_text alert = TObj [(py ''type'', TStr (py ''alert'')), (py ''data'', alert_text alert)]"

definition rule_item_text :: "AlertRule \<Rightarrow> jtext" where
  "rule_item_text rule = TObj
     [(py ''command'', TStr (text_of (raw_command rule))), (py ''metric_key'', TStr (text_of (rule_metric_key rule))),
      (py ''threshold'', number_text (rule_threshold rule))]"

definition rules_event_text :: "AlertRule list \<Rightarrow> jtext" where
  "rules_event_text rules = TObj
     [(py ''type'', TStr (py ''rules'')), (py ''items'', TArr (map rule_item_text rules))]"

section \<open>Every encoder prints its structure\<close>

lemmas utf8_simps = utf8_Nil utf8_Cons utf8_append valid_text_decode

definition valid_metric :: "MetricSnapshot \<Rightarrow> bool" where
  "valid_metric m \<longleftrightarrow> valid_text (ms_host m) \<and> valid_text (ms_timestamp m) \<and>
     (\<forall>x \<in> {cpu_percent m, memory_percent m, disk_percent m, network_rx_kbps m, network_tx_kbps m}. is_finite x)"

lemma metric_data_decode: "valid_metric m \<Longrightarrow> utf8_decode (metric_data_to_json m) = Some (render (metric_text m))"
  by (simp add: metric_data_to_json_def metric_text_def valid_metric_def utf8_simps number_text_decode int_text_decode
      del: render.simps(1-3)) simp

text \<open>The bytes are the printed form of a clean structure.\<close>

definition prints :: "cpp_string \<Rightarrow> jtext \<Rightarrow> bool" where
  "prints b t \<longleftrightarrow> utf8_decode b = Some (render t) \<and> clean t"

lemma plain_keys [simp]:
  "\<forall>c \<in> set (py ''type''). plain_code c" "\<forall>c \<in> set (py ''data''). plain_code c"
  "\<forall>c \<in> set (py ''host''). plain_code c" "\<forall>c \<in> set (py ''timestamp''). plain_code c"
  "\<forall>c \<in> set (py ''cpu_percent''). plain_code c" "\<forall>c \<in> set (py ''memory_percent''). plain_code c"
  "\<forall>c \<in> set (py ''disk_percent''). plain_code c" "\<forall>c \<in> set (py ''network_rx_kbps''). plain_code c"
  "\<forall>c \<in> set (py ''network_tx_kbps''). plain_code c" "\<forall>c \<in> set (py ''memory_used_mb''). plain_code c"
  "\<forall>c \<in> set (py ''memory_total_mb''). plain_code c" "\<forall>c \<in> set (py ''disk_used_mb''). plain_code c"
  "\<forall>c \<in> set (py ''disk_total_mb''). plain_code c" "\<forall>c \<in> set (py ''metrics''). plain_code c"
  "\<forall>c \<in> set (py ''from''). plain_code c" "\<forall>c \<in> set (py ''text''). plain_code c"
  "\<forall>c \<in> set (py ''message''). plain_code c" "\<forall>c \<in> set (py ''metric_key''). plain_code c"
  "\<forall>c \<in> set (py ''display_metric''). plain_code c" "\<forall>c \<in> set (py ''metric_value''). plain_code c"
  "\<forall>c \<in> set (py ''threshold''). plain_code c" "\<forall>c \<in> set (py ''rule''). plain_code c"
  "\<forall>c \<in> set (py ''items''). plain_code c" "\<forall>c \<in> set (py ''command''). plain_code c"
  by (simp_all add: plain_code_def)

lemma clean_names [simp]:
  "clean (TStr (py ''metric''))" "clean (TStr (py ''snapshot''))" "clean (TStr (py ''chat''))"
  "clean (TStr (py ''ack''))" "clean (TStr (py ''error''))" "clean (TStr (py ''alert''))" "clean (TStr (py ''rules''))"
  by (simp_all add: clean_code_def)

lemma clean_text: "valid_text b \<Longrightarrow> clean (TStr (text_of b))"
  using valid_text_clean by simp

lemmas code_defs = clean_code_def plain_code_def escape_code_def

lemmas clean_rules = clean_text clean_number_text

lemma metric_prints: "valid_metric m \<Longrightarrow> prints (metric_data_to_json m) (metric_text m)"
  using metric_data_decode [of m]
  by (simp add: prints_def metric_text_def valid_metric_def clean_rules del: render.simps clean.simps(1) py_simps)

lemma metric_event_prints: "valid_metric m \<Longrightarrow> prints (metric_event_to_json m) (metric_event_text m)"
  using metric_prints [of m]
  by (simp add: prints_def metric_event_to_json_def metric_event_text_def utf8_simps) (auto simp: code_defs)

lemma comma_separated_decode:
  "\<forall>x \<in> set xs. utf8_decode (f x) = Some (g x) \<Longrightarrow> utf8_decode (comma_separated (map f xs)) = Some (sep_by (map g xs))"
  by (induction xs rule: induct_list012) (simp_all add: utf8_simps)

lemma snapshot_event_prints:
  assumes "\<forall>m \<in> set (map snd metrics). valid_metric m"
  shows "prints (snapshot_event_to_json metrics now) (snapshot_event_text metrics now)"
proof -
  have valid: "\<forall>e \<in> set (ordered metrics). valid_metric (snd e)" using assms by (auto simp: ordered_def)
  then have "utf8_decode (comma_separated (map (metric_data_to_json \<circ> snd) (ordered metrics))) =
      Some (sep_by (map (\<lambda>e. render (metric_text (snd e))) (ordered metrics)))"
    using metric_prints by (intro comma_separated_decode) (auto simp: prints_def)
  moreover have "utf8_decode (escape_json (iso_timestamp now)) = Some (escape_codes (py (iso_timestamp now)))"
      "clean (TStr (py (iso_timestamp now)))"
    using printable_text [OF printable_iso_timestamp, of now] valid_text_decode clean_text by metis+
  moreover have "clean (TArr (map (metric_text \<circ> snd) (ordered metrics)))"
    using valid metric_prints by (simp add: prints_def)
  ultimately show ?thesis
    by (simp add: prints_def snapshot_event_to_json_def snapshot_event_text_def utf8_simps comp_def)
      (auto simp: code_defs)
qed

definition valid_chat :: "ChatMessage \<Rightarrow> bool" where
  "valid_chat chat \<longleftrightarrow> valid_text (chat_sender chat) \<and> valid_text (chat_text chat) \<and> valid_text (chat_timestamp chat)"

lemma chat_event_prints: "valid_chat chat \<Longrightarrow> prints (chat_event_to_json chat) (chat_event_text chat)"
  using clean_text
  by (simp add: prints_def chat_event_to_json_def chat_event_text_def valid_chat_def utf8_simps)
    (auto simp: code_defs)

lemma ack_event_prints: "valid_text m \<Longrightarrow> prints (ack_event_to_json m) (ack_event_text m)"
  using clean_text
  by (simp add: prints_def ack_event_to_json_def ack_event_text_def utf8_simps)
    (auto simp: code_defs)

lemma error_event_prints: "valid_text m \<Longrightarrow> prints (error_event_to_json m) (error_event_text m)"
  using clean_text
  by (simp add: prints_def error_event_to_json_def error_event_text_def utf8_simps)
    (auto simp: code_defs)

definition valid_alert :: "AlertEvent \<Rightarrow> bool" where
  "valid_alert alert \<longleftrightarrow>
     (\<forall>b \<in> {ae_host alert, ae_timestamp alert, ae_metric_key alert, ae_display_metric alert, ae_rule alert,
             ae_message alert}. valid_text b) \<and>
     is_finite (ae_metric_value alert) \<and> is_finite (ae_threshold alert)"

lemma alert_event_prints: "valid_alert alert \<Longrightarrow> prints (alert_event_to_json alert) (alert_event_text alert)"
  using clean_rules
  by (simp add: prints_def alert_event_to_json_def alert_event_text_def alert_text_def valid_alert_def utf8_simps
      number_text_decode)
    (auto simp: code_defs)

definition valid_rule :: "AlertRule \<Rightarrow> bool" where
  "valid_rule rule \<longleftrightarrow> valid_text (raw_command rule) \<and> valid_text (rule_metric_key rule) \<and> is_finite (rule_threshold rule)"

lemma rule_item_prints: "valid_rule rule \<Longrightarrow> prints (rule_item_to_json rule) (rule_item_text rule)"
  using clean_rules
  by (simp add: prints_def rule_item_to_json_def rule_item_text_def valid_rule_def utf8_simps number_text_decode)
    (auto simp: code_defs)

lemma rules_event_prints:
  assumes "\<forall>r \<in> set rules. valid_rule r"
  shows "prints (rules_event_to_json rules) (rules_event_text rules)"
proof -
  have "utf8_decode (comma_separated (map rule_item_to_json rules)) = Some (sep_by (map (\<lambda>r. render (rule_item_text r)) rules))"
    using assms rule_item_prints by (intro comma_separated_decode) (auto simp: prints_def)
  moreover have "clean (TArr (map rule_item_text rules))" using assms rule_item_prints by (simp add: prints_def)
  ultimately show ?thesis
    by (simp add: prints_def rules_event_to_json_def rules_event_text_def utf8_simps comp_def)
      (auto simp: code_defs)
qed

end
