(* ===== verification/Dashboard_Feed.thy ===== *)
theory Dashboard_Feed
  imports Dashboard_Invariant Dashboard_Encoding
begin

text \<open>
  What the messages of the server do to the dashboard: each is decoded to its structure and has its
  effect on the state, and a stream of them is handled message by message, however it is cut into
  chunks.
\<close>

section \<open>The messages of the server\<close>

datatype server_event =
    Metric MetricSnapshot | Snapshot metric_table int | Chat ChatMessage | Ack cpp_string | Error cpp_string
  | Alert AlertEvent | Rules "AlertRule list"

fun event_line :: "server_event \<Rightarrow> cpp_string" where
  "event_line (Metric m) = metric_event_to_json m"
| "event_line (Snapshot t now) = snapshot_event_to_json t now"
| "event_line (Chat c) = chat_event_to_json c"
| "event_line (Ack t) = ack_event_to_json t"
| "event_line (Error t) = error_event_to_json t"
| "event_line (Alert a) = alert_event_to_json a"
| "event_line (Rules rs) = rules_event_to_json rs"

fun event_text :: "server_event \<Rightarrow> jtext" where
  "event_text (Metric m) = metric_event_text m"
| "event_text (Snapshot t now) = snapshot_event_text t now"
| "event_text (Chat c) = chat_event_text c"
| "event_text (Ack t) = ack_event_text t"
| "event_text (Error t) = error_event_text t"
| "event_text (Alert a) = alert_event_text a"
| "event_text (Rules rs) = rules_event_text rs"

fun valid_event :: "server_event \<Rightarrow> bool" where
  "valid_event (Metric m) \<longleftrightarrow> valid_metric m"
| "valid_event (Snapshot t now) \<longleftrightarrow> (\<forall>m \<in> set (map snd t). valid_metric m)"
| "valid_event (Chat c) \<longleftrightarrow> valid_chat c"
| "valid_event (Ack t) \<longleftrightarrow> valid_text t"
| "valid_event (Error t) \<longleftrightarrow> valid_text t"
| "valid_event (Alert a) \<longleftrightarrow> valid_alert a"
| "valid_event (Rules rs) \<longleftrightarrow> (\<forall>r \<in> set rs. valid_rule r)"

lemma event_prints: "valid_event e \<Longrightarrow> prints (event_line e) (event_text e)"
  by (cases e) (simp_all add: metric_event_prints snapshot_event_prints chat_event_prints ack_event_prints
      error_event_prints alert_event_prints rules_event_prints)

lemma event_object: "\<exists>ms. event_text e = TObj ms"
  by (cases e) (simp_all add: metric_event_text_def snapshot_event_text_def chat_event_text_def
      ack_event_text_def error_event_text_def alert_event_text_def rules_event_text_def)

lemma event_loads: "valid_event e \<Longrightarrow> loads (render (event_text e)) = Some (meaning (event_text e))"
  using event_prints [of e] event_object [of e] loads_render by (auto simp: prints_def simp del: render.simps meaning.simps)

text \<open>
  C14: Every message of the server arrives: when its texts are UTF-8 without control characters other
  than tab, newline and carriage return, and its numbers are finite, decoding the bytes and reading
  the JSON gives the message, texts and integers exactly and numbers to two decimals.
\<close>

theorem server_messages_decoded:
  assumes "valid_event e"
  shows "\<exists>u. utf8_decode (event_line e) = Some u \<and> loads u = Some (meaning (event_text e))"
  using event_prints [OF assms] event_loads [OF assms] by (auto simp: prints_def)

text \<open>A chat line with a letter of two bytes.\<close>

lemma sample_event_valid: "valid_event (Chat \<lparr>chat_sender = ''ops'', chat_text = [CHR 0xC3, CHR 0xA9], chat_timestamp = []\<rparr>)"
  by (simp add: valid_chat_def valid_text_def utf8_decode_def continuation_def clean_code_def)

theorem server_messages_decoded_example:
  "\<exists>u. utf8_decode (event_line (Chat \<lparr>chat_sender = ''ops'', chat_text = [CHR 0xC3, CHR 0xA9], chat_timestamp = []\<rparr>)) = Some u \<and>
     loads u = Some (JObject [(py ''type'', JString (py ''chat'')), (py ''from'', JString (py ''ops'')),
       (py ''text'', JString [233]), (py ''timestamp'', JString [])])"
proof -
  have "text_of ''ops'' = py ''ops''" "text_of [CHR 0xC3, CHR 0xA9] = [233]" "text_of [] = []"
    by (simp_all add: text_of_def utf8_decode_def continuation_def)
  then show ?thesis
    using server_messages_decoded [OF sample_event_valid] by (simp add: chat_event_text_def dict_of_def)
qed

section \<open>Dictionaries\<close>

lemma fold_update_distinct:
  "distinct (map fst ms) \<Longrightarrow> fst ` set ms \<inter> fst ` set acc = {} \<Longrightarrow>
     fold (\<lambda>(k, v). AList.update k v) ms acc = acc @ ms"
proof (induction ms arbitrary: acc)
  case (Cons m ms)
  have "AList.update k v acc = acc @ [(k, v)]" if "k \<notin> fst ` set acc" for k and v :: 'b
    using that by (induction acc) auto
  then show ?case using Cons by (cases m) (auto simp: image_iff)
qed simp

lemma dict_of_distinct: "distinct (map fst ms) \<Longrightarrow> dict_of ms = ms"
  using fold_update_distinct [of ms "[]"] by (simp add: dict_of_def)

lemma meaning_metric: "\<exists>m'. meaning (metric_text m) = JObject m' \<and> map_of m' (py ''host'') = Some (JString (text_of (ms_host m)))"
  by (simp add: metric_text_def dict_of_distinct)

section \<open>Effects\<close>

text \<open>The table of reports after a message.\<close>

definition put_report :: "MetricSnapshot \<Rightarrow> (py_str \<times> json) list \<Rightarrow> (py_str \<times> json) list" where
  "put_report m table = AList.update (text_of (ms_host m)) (meaning (metric_text m)) table"

fun table_after :: "server_event \<Rightarrow> (py_str \<times> json) list \<Rightarrow> (py_str \<times> json) list" where
  "table_after (Metric m) table = (if text_of (ms_host m) = [] then table else put_report m table)"
| "table_after (Snapshot t now) table = fold put_report (map snd (ordered t)) []"
| "table_after e table = table"

lemma metrics_by_host_reports:
  "metrics_by_host (map (\<lambda>m. meaning (metric_text m)) ms) table = Inr (fold put_report ms table)"
proof (induction ms arbitrary: table)
  case (Cons m ms)
  obtain m' where "meaning (metric_text m) = JObject m'" "map_of m' (py ''host'') = Some (JString (text_of (ms_host m)))"
    using meaning_metric by blast
  then have "item_host (meaning (metric_text m)) = Inr (text_of (ms_host m))"
    by (simp add: item_host_def host_key_def)
  then show ?case using Cons by (simp add: put_report_def)
qed simp

text \<open>The dashboard when it has noted the arrival of a message.\<close>

definition noted :: "dash_env \<Rightarrow> dashboard \<Rightarrow> dashboard" where
  "noted env d = (snd (utc_timestamp env d))\<lparr>last_event := Some (fst (utc_timestamp env d))\<rparr>"

lemma noted_keeps [simp]:
  "state_metrics (noted env d) = state_metrics d" "connected (noted env d) = connected d"
  by (simp_all add: noted_def utc_timestamp_def read_time_def Let_def)

lemma dash_event_types:
  assumes "get_or m ''type'' JNull = JString t"
  shows "dash_event env (JObject m) d =
    (if t = py ''snapshot'' then handle_snapshot m (noted env d)
     else if t = py ''metric'' then handle_metric m (noted env d)
     else if t = py ''alert'' then handle_alert env m (noted env d)
     else if t = py ''chat'' then
       (None, append_chat \<lparr>entry_from = get_or m ''from'' (JString (py ''unknown'')),
                entry_text = get_or m ''text'' (JString []),
                entry_timestamp = get_or m ''timestamp'' (JString (fst (utc_timestamp env d)))\<rparr> (noted env d))
     else if t = py ''rules'' then (None, (noted env d)\<lparr>state_rules := get_or m ''items'' (JArray [])\<rparr>)
     else if t = py ''ack'' \<or> t = py ''error'' then
       (None, append_chat \<lparr>entry_from = JString t, entry_text = get_or m ''message'' (JString []),
                entry_timestamp = JString (fst (utc_timestamp env d))\<rparr> (noted env d))
     else (None, noted env d))"
  using assms by (simp add: dash_event_def noted_def Let_def case_prod_unfold del: py_simps)

lemma type_names_distinct [simp]:
  "py s = py t \<longleftrightarrow> s = t"
  by (rule inj_py)

lemma event_effect:
  "\<exists>d'. dash_event env (meaning (event_text e)) d = (None, d') \<and>
     state_metrics d' = table_after e (state_metrics d) \<and> connected d' = connected d"
proof -
  have "fst (dash_event env (meaning (event_text e)) d) = None \<and>
     state_metrics (snd (dash_event env (meaning (event_text e)) d)) = table_after e (state_metrics d)"
  proof (cases e)
    case (Metric m)
    obtain m' where m': "meaning (metric_text m) = JObject m'" "map_of m' (py ''host'') = Some (JString (text_of (ms_host m)))"
      using meaning_metric by blast
    have "meaning (event_text e) = JObject [(py ''type'', JString (py ''metric'')), (py ''data'', JObject m')]"
      using m'(1) by (simp add: Metric metric_event_text_def dict_of_distinct del: py_simps)
    then show ?thesis using m'
      by (simp add: dash_event_types get_or_def handle_metric_def host_key_def Metric put_report_def Let_def del: py_simps)
  next
    case (Snapshot t now)
    have "meaning (event_text e) = JObject [(py ''type'', JString (py ''snapshot'')),
        (py ''timestamp'', JString (py (iso_timestamp now))),
        (py ''metrics'', JArray (map (\<lambda>m. meaning (metric_text m)) (map snd (ordered t))))]"
      by (simp add: Snapshot snapshot_event_text_def dict_of_distinct comp_def del: py_simps)
    then show ?thesis
      using metrics_by_host_reports [of "map snd (ordered t)" "[]"]
      by (simp add: dash_event_types get_or_def handle_snapshot_def Snapshot comp_def del: py_simps)
  next
    case (Alert a)
    have "meaning (event_text e) = JObject [(py ''type'', JString (py ''alert'')), (py ''data'', meaning (alert_text a))]"
      by (simp add: Alert alert_event_text_def dict_of_distinct del: py_simps)
    moreover have "state_metrics (snd (upload_alert env v x)) = state_metrics x" for v x
      using same_state_upload [of x env v] by (simp add: same_state_def)
    ultimately show ?thesis
      by (simp add: dash_event_types get_or_def handle_alert_def Alert Let_def case_prod_unfold del: py_simps)
  qed (simp_all add: chat_event_text_def ack_event_text_def error_event_text_def rules_event_text_def
      dict_of_distinct dash_event_types get_or_def append_chat_def del: py_simps)
  then show ?thesis using dash_event_connected [of env "meaning (event_text e)" d]
    by (cases "dash_event env (meaning (event_text e)) d") simp
qed

section \<open>Streams of messages\<close>

lemma printable_no_newline: "printable s \<Longrightarrow> 10 \<notin> set (py s)"
  by (force simp: printable_def py_def)

lemma newline_free: "clean t \<Longrightarrow> 10 \<notin> set (render t)"
proof (induction t)
  case (TStr u)
  then show ?case by (auto simp: escape_codes_def escape_code_def split: if_splits)
next
  case (TInt i)
  show ?case using printable_no_newline [OF printable_numbers(1) [of i]] by simp
next
  case (TFix s h)
  show ?case using printable_no_newline [OF printable_fixed2 [of h]] by simp
next
  case (TArr ts)
  have "set (sep_by xs) \<subseteq> insert 44 (\<Union> (set ` set xs))" for xs by (induction xs rule: sep_by.induct) auto
  then show ?case using TArr by fastforce
next
  case (TObj ms)
  have "set (sep_by xs) \<subseteq> insert 44 (\<Union> (set ` set xs))" for xs by (induction xs rule: sep_by.induct) auto
  moreover have "10 \<notin> set (render_member m)" if "m \<in> set ms" for m
    using TObj that by (cases m) (fastforce simp: plain_code_def snds.simps)
  ultimately show ?case by fastforce
qed

lemma consume_event_line:
  assumes "valid_event e"
  shows "consume_line env (render (event_text e)) d = dash_event env (meaning (event_text e)) d"
proof -
  obtain ms where "event_text e = TObj ms" using event_object by blast
  then have "\<not> list_all py_space (render (event_text e))" by (simp add: py_space_def)
  then show ?thesis using event_loads [OF assms] by (simp add: consume_line_def)
qed

fun feed :: "dash_env \<Rightarrow> server_event list \<Rightarrow> dashboard \<Rightarrow> dashboard" where
  "feed env [] d = d"
| "feed env (e # es) d = feed env es (snd (dash_event env (meaning (event_text e)) d))"

lemma feed_effect:
  "state_metrics (feed env es d) = fold table_after es (state_metrics d) \<and> connected (feed env es d) = connected d"
proof (induction es arbitrary: d)
  case (Cons e es)
  obtain d' where "dash_event env (meaning (event_text e)) d = (None, d')"
      "state_metrics d' = table_after e (state_metrics d)" "connected d' = connected d"
    using event_effect by blast
  then show ?case using Cons.IH [of d'] by simp
qed simp

definition event_codes :: "server_event list \<Rightarrow> py_str" where
  "event_codes es = concat (map (\<lambda>e. render (event_text e) @ [10]) es)"

text \<open>The loop of \<open>consume_lines\<close>, line by line.\<close>

lemma consume_lines_stop: "10 \<notin> set b \<Longrightarrow> consume_lines env b d = (None, b, d)"
  by (simp add: consume_lines.simps [of env b])

lemma consume_lines_line:
  assumes "10 \<notin> set l"
  shows "consume_lines env (l @ 10 # r) d =
    (case consume_line env l d of (Some e, d1) \<Rightarrow> (Some e, r, d1) | (None, d1) \<Rightarrow> consume_lines env r d1)"
proof -
  have "takeWhile (\<lambda>c. c \<noteq> 10) (l @ 10 # r) = l" using assms by simp
  moreover have "drop (Suc (length l)) (l @ 10 # r) = r" by simp
  ultimately show ?thesis by (subst consume_lines.simps) (simp only: Let_def, simp)
qed

lemma newline_induct [case_names stop line]:
  assumes "\<And>b. 10 \<notin> set b \<Longrightarrow> P b" and "\<And>l r. (10::nat) \<notin> set l \<Longrightarrow> P r \<Longrightarrow> P (l @ 10 # r)"
  shows "P b"
proof (induction b rule: length_induct)
  case (1 b)
  show ?case
  proof (cases "10 \<in> set b")
    case True
    then obtain l r where b: "b = l @ 10 # r" "10 \<notin> set l" by (metis split_list_first)
    then show ?thesis using assms(2) [of l r] 1 by simp
  qed (rule assms(1))
qed

lemma consume_events:
  "\<forall>e \<in> set es. valid_event e \<Longrightarrow> consume_lines env (event_codes es) d = (None, [], feed env es d)"
proof (induction es arbitrary: d)
  case Nil
  then show ?case by (simp add: consume_lines_stop event_codes_def)
next
  case (Cons e es)
  have nl: "10 \<notin> set (render (event_text e))" using Cons.prems event_prints [of e] newline_free by (simp add: prints_def)
  obtain d' where d': "dash_event env (meaning (event_text e)) d = (None, d')" using event_effect by blast
  have codes: "event_codes (e # es) = render (event_text e) @ 10 # event_codes es" by (simp add: event_codes_def)
  have "consume_line env (render (event_text e)) d = (None, d')"
    using consume_event_line [of e env d] Cons.prems d' by simp
  then show ?case unfolding codes consume_lines_line [OF nl] using Cons d' by simp
qed

section \<open>Chunks\<close>

lemma consume_lines_append:
  "consume_lines env a d = (r, rest, d1) \<Longrightarrow>
   consume_lines env (a @ b) d = (case r of None \<Rightarrow> consume_lines env (rest @ b) d1 | Some e \<Rightarrow> (Some e, rest @ b, d1))"
proof (induction a arbitrary: d rule: newline_induct)
  case (stop a)
  then show ?case by (auto simp: consume_lines_stop)
next
  case (line l a)
  then show ?case by (auto simp: consume_lines_line split: prod.splits option.splits)
qed

lemma consume_rest_no_newline: "consume_lines env a d = (None, rest, d1) \<Longrightarrow> 10 \<notin> set rest"
proof (induction a arbitrary: d rule: newline_induct)
  case (stop a)
  then show ?case by (auto simp: consume_lines_stop)
next
  case (line l a)
  then show ?case by (auto simp: consume_lines_line split: prod.splits option.splits)
qed

definition chunks_of :: "cpp_string list \<Rightarrow> cpp_string \<Rightarrow> bool" where
  "chunks_of chunks s \<longleftrightarrow> (\<forall>c \<in> set chunks. c \<noteq> [] \<and> length c \<le> 4096) \<and> concat chunks = s"

lemma receive_chunks:
  assumes "receiving c" and "ascii s" and "chunks_of chunks s"
    and "consume_lines env (py_buffer c @ py s) (dash c) = (None, rest, d)"
    and "10 \<notin> set (py_buffer c)"
  shows "fold (run_step env) (map (\<lambda>ch. Received (Data ch)) chunks) c = c\<lparr>py_buffer := rest, dash := d\<rparr>"
  using assms
proof (induction chunks arbitrary: c s)
  case Nil
  then show ?case by (simp add: chunks_of_def consume_lines_stop)
next
  case (Cons ch chunks)
  let ?s = "concat chunks"
  have ch: "ch \<noteq> []" "take 4096 ch = ch" "s = ch @ ?s" using Cons.prems(3) by (auto simp: chunks_of_def)
  then have asc: "ascii ch" "ascii ?s" using Cons.prems(2) by (auto simp: ascii_def)
  obtain r rest1 d1 where first: "consume_lines env (py_buffer c @ py ch) (dash c) = (r, rest1, d1)"
    by (metis prod_cases3)
  have all: "consume_lines env ((py_buffer c @ py ch) @ py ?s) (dash c) = (None, rest, d)"
    using Cons.prems(4) ch(3) by simp
  then have r: "r = None" "consume_lines env (rest1 @ py ?s) d1 = (None, rest, d)"
    using consume_lines_append [OF first, of "py ?s"] by (cases r; simp)+
  have nl: "10 \<notin> set rest1"
    using consume_rest_no_newline first r(1) by blast
  let ?c1 = "c\<lparr>py_buffer := rest1, dash := d1\<rparr>"
  have "run_step env (Received (Data ch)) c = ?c1"
    using Cons.prems(1) ch first r(1) utf8_ascii [OF asc(1)] by (simp add: run_step_def consume_chunk_def)
  moreover have "fold (run_step env) (map (\<lambda>ch. Received (Data ch)) chunks) ?c1 = ?c1\<lparr>py_buffer := rest, dash := d\<rparr>"
    using Cons.prems(1,3) asc(2) r(2) nl by (intro Cons.IH [of _ ?s]) (auto simp: chunks_of_def)
  ultimately show ?case by simp
qed

end
