(* ===== verification/Server_Replies.thy ===== *)
theory Server_Replies
  imports Server_Invariant
begin

text \<open>
  What clients of the server receive: broadcasts, the messages a dashboard gets when it registers, the
  replies to commands.
\<close>

section \<open>Streams\<close>

lemma send_all_reliable:
  assumes "reliable env" and "distinct fds"
  shows "stream (send_all env p fds w) f = stream w f @ (if f \<in> set fds then p @ [CHR_nl] else [])"
  using assms(2)
proof (induction fds arbitrary: w)
  case (Cons g fds)
  have "stream (snd (send_line env True g p w)) f = stream w f @ (if f = g then p @ [CHR_nl] else [])"
    by (simp add: send_line_reliable [OF assms(1)] stream_def)
  then show ?case using Cons by (simp add: send_all_def)
qed (simp add: send_all_def)

lemma server_send_stream:
  assumes "reliable env"
  shows "stream (net (server_send env g p s)) f = stream (net s) f @ (if f = g then p @ [CHR_nl] else [])"
  by (simp add: server_send_def send_line_reliable [OF assms] stream_def)

lemma server_clock_stream: "stream (net (snd (server_clock env s))) f = stream (net s) f"
  by (simp add: server_clock_def read_clock_def)

text \<open>
  On a network that loses nothing, a broadcast reaches every dashboard exactly once, as one line after
  what it was sent before, and no other client.
\<close>

lemma broadcast_reaches_dashboards:
  assumes "reliable env" and "sockets_ok s"
  shows "stream (net (broadcast_to_dashboards env p s)) f =
    stream (net s) f @
      (if \<exists>c \<in> set (clients s). role c = Dashboard \<and> fd c = f then p @ [CHR_nl] else [])"
proof -
  have "distinct (dashboards (clients s))"
    using assms(2) by (simp add: sockets_ok_def watched_def dashboards_def distinct_map inj_on_def)
  moreover have "f \<in> set (dashboards (clients s)) \<longleftrightarrow> (\<exists>c \<in> set (clients s). role c = Dashboard \<and> fd c = f)"
    by (auto simp: dashboards_def)
  ultimately show ?thesis by (simp add: broadcast_net send_all_reliable [OF assms(1)])
qed

section \<open>Registration of a dashboard\<close>

text \<open>
  A client that registers as a dashboard is sent, in this order and nothing else, the acknowledgement, the
  latest report of every host and the list of rules; from then on it has the role of a dashboard and the host
  it declared, and nothing is sent to any other client.
\<close>

lemma dashboard_registration:
  assumes "reliable env" and "i < length (clients s)"
    and "str_field line ''type'' [] = ''register''" and "lower_copy (str_field line ''role'' []) = ''dashboard''"
  shows "\<exists>s'. handle_line env i line s = Inr s' \<and>
    role (clients s' ! i) = Dashboard \<and>
    declared_host (clients s' ! i) = str_field line ''host'' (peer_label (clients s ! i)) \<and>
    (\<forall>f. stream (net s') f = stream (net s) f @
       (if f = fd (clients s ! i)
        then unlines [ack_event_to_json ''registered as dashboard'',
               snapshot_event_to_json (latest_metrics s) (clock_at env (clock_reads (net s))),
               rules_event_to_json (alert_rules s)]
        else []))"
proof -
  let ?s' = "handle_register env i line s"
  have "handle_line env i line s = Inr ?s'" using assms(3) by (simp add: handle_line_def)
  moreover have "role (clients ?s' ! i) = Dashboard"
      "declared_host (clients ?s' ! i) = str_field line ''host'' (peer_label (clients s ! i))"
    using assms(2,4) by (simp_all add: handle_register_clients new_role_def)
  moreover have "clock_reads (net (server_send env g p t)) = clock_reads (net t)" for g p and t :: MonitorServer
    by (simp add: server_send_def keeps)
  then have "stream (net ?s') f = stream (net s) f @
       (if f = fd (clients s ! i)
        then unlines [ack_event_to_json ''registered as dashboard'',
               snapshot_event_to_json (latest_metrics s) (clock_at env (clock_reads (net s))),
               rules_event_to_json (alert_rules s)]
        else [])" for f
    using assms(4)
    by (simp add: handle_register_def Let_def case_prod_unfold server_send_stream [OF assms(1)] server_clock_stream
        new_role_def set_client_def)
  ultimately show ?thesis by blast
qed

section \<open>Commands\<close>

text \<open>
  The reply to \<^verbatim>\<open>/clients\<close> names the number of hosts that have ever reported: one per key of the
  table of latest reports, whether their agents are still connected or not.
\<close>

lemma clients_command_counts_hosts:
  assumes "lower_copy (trim t) = ''/clients''" and "tables_ok s"
  shows "handle_command env f t s =
    Inr (server_send env f (ack_event_to_json
      (''connected agents: '' @ nat_to_string (card (dom (map_of (latest_metrics s)))))) s)"
proof -
  have "length (latest_metrics s) = card (dom (map_of (latest_metrics s)))"
    using umap.count_dom [of "latest_metrics s"] assms(2) by (simp add: tables_ok_def dom_def)
  then show ?thesis using assms(1) by (simp add: handle_command_def starts_with_def)
qed

text \<open>
  After the only agent has disconnected, \<^verbatim>\<open>/clients\<close> still answers that one agent is connected.
\<close>

lemma clients_command_after_disconnect:
  "let s = (sample_server Agent)\<lparr>latest_metrics := [(''web1'', cpu_report ''web1'' 95)]\<rparr>;
       s' = disconnect_client 0 s
   in clients s' = [] \<and>
      handle_command env f ''/clients'' s' = Inr (server_send env f (ack_event_to_json ''connected agents: 1'') s')"
proof -
  have low: "lower_copy (trim ''/clients'') = ''/clients''" by code_simp
  have one: "nat_to_string 1 = ''1''" by code_simp
  show ?thesis
    using low one by (simp add: Let_def handle_command_def starts_with_def disconnect_client_def sample_server_def)
qed

text \<open>
  A text that begins like an alert command and is none is answered with an error, and changes nothing but
  the output.
\<close>

lemma bad_alert_command_rejected:
  assumes "starts_with ''/alert'' (lower_copy (trim t))" and "parse_alert_command t = Inr None"
  shows "handle_command env f t s = Inr (server_send env f
    (error_event_to_json ''expected /alert CPU>80% or /alert MEMORY>70%'') s)"
  using assms by (simp add: handle_command_def)

section \<open>Examples\<close>

lemma sample_server_sockets: "sockets_ok (sample_server r)"
  by (simp add: sockets_ok_def watched_def sample_server_def sample_client_def is_socket_valid_def)

lemma sample_server_stream: "stream (net (sample_server r)) f = []"
  by (simp add: sample_server_def stream_def initial_world_def)

lemma broadcast_reaches_dashboards_example:
  "stream (net (broadcast_to_dashboards steady_env ''{}'' (sample_server Dashboard))) 5 = ''{}'' @ [CHR_nl] \<and>
   stream (net (broadcast_to_dashboards steady_env ''{}'' (sample_server Agent))) 5 = []"
  using broadcast_reaches_dashboards [OF reliable_steady_env sample_server_sockets, of "''{}''" _ 5]
  by (simp add: sample_server_stream) (simp add: sample_server_def sample_client_def)

lemma dashboard_registration_example:
  "\<exists>s'. handle_line steady_env 0 ''{\"type\":\"register\",\"role\":\"Dashboard\"}'' (sample_server Unknown) = Inr s' \<and>
     role (clients s' ! 0) = Dashboard \<and> stream (net s') 5 \<noteq> []"
proof -
  let ?line = "''{\"type\":\"register\",\"role\":\"Dashboard\"}''"
  have f: "str_field ?line ''type'' [] = ''register''" "lower_copy (str_field ?line ''role'' []) = ''dashboard''"
    by code_simp+
  have i: "0 < length (clients (sample_server Unknown))" "fd (clients (sample_server Unknown) ! 0) = 5"
    by (simp_all add: sample_server_def sample_client_def)
  show ?thesis using dashboard_registration [OF reliable_steady_env i(1) f] by (auto simp: i(2))
qed

lemma clients_command_counts_hosts_example:
  "handle_command steady_env 5 '' /Clients '' (sample_server Dashboard) =
     Inr (server_send steady_env 5 (ack_event_to_json (''connected agents: '' @ nat_to_string (card {}))) (sample_server Dashboard))"
proof -
  have low: "lower_copy (trim '' /Clients '') = ''/clients''" by code_simp
  have ok: "tables_ok (sample_server Dashboard)" "latest_metrics (sample_server Dashboard) = []"
    by (simp_all add: tables_ok_def sample_server_def distinct_keys_def)
  show ?thesis using clients_command_counts_hosts [OF low ok(1), of steady_env 5] by (simp add: ok(2))
qed

lemma bad_alert_command_rejected_example:
  "handle_command steady_env 5 ''/alert cpu'' (sample_server Dashboard) =
     Inr (server_send steady_env 5 (error_event_to_json ''expected /alert CPU>80% or /alert MEMORY>70%'')
       (sample_server Dashboard))"
proof (rule bad_alert_command_rejected)
  show "starts_with ''/alert'' (lower_copy (trim ''/alert cpu''))" by code_simp
  show "parse_alert_command ''/alert cpu'' = Inr None" by code_simp
qed

end
