(* ===== verification/Server_Feed.thy ===== *)
theory Server_Feed
  imports Dashboard_Feed Server_Replies
begin

text \<open>
  What the server sends to one client. Whatever line it handles, it adds messages to the client's
  stream, and a client that is a dashboard is told of every change of the table of reports and of
  the rules. The texts are those of input in printable ASCII.
\<close>

section \<open>Printable messages\<close>

definition printable_metric :: "MetricSnapshot \<Rightarrow> bool" where
  "printable_metric m \<longleftrightarrow> printable (ms_host m) \<and> printable (ms_timestamp m) \<and>
     (\<forall>x \<in> {cpu_percent m, memory_percent m, disk_percent m, network_rx_kbps m, network_tx_kbps m}. is_finite x)"

definition printable_rule :: "AlertRule \<Rightarrow> bool" where
  "printable_rule r \<longleftrightarrow> printable (raw_command r) \<and> printable (rule_metric_key r) \<and>
     printable (rule_display_metric r) \<and> is_finite (rule_threshold r)"

fun printable_event :: "server_event \<Rightarrow> bool" where
  "printable_event (Metric m) \<longleftrightarrow> printable_metric m"
| "printable_event (Snapshot t now) \<longleftrightarrow> (\<forall>m \<in> snd ` set t. printable_metric m)"
| "printable_event (Chat c) \<longleftrightarrow> printable (chat_sender c) \<and> printable (chat_text c) \<and> printable (chat_timestamp c)"
| "printable_event (Ack t) \<longleftrightarrow> printable t"
| "printable_event (Error t) \<longleftrightarrow> printable t"
| "printable_event (Alert a) \<longleftrightarrow>
     (\<forall>b \<in> {ae_host a, ae_timestamp a, ae_metric_key a, ae_display_metric a, ae_rule a, ae_message a}. printable b) \<and>
     is_finite (ae_metric_value a) \<and> is_finite (ae_threshold a)"
| "printable_event (Rules rs) \<longleftrightarrow> (\<forall>r \<in> set rs. printable_rule r)"

lemma printable_valid: "printable s \<Longrightarrow> valid_text s" "printable s \<Longrightarrow> text_of s = py s"
  using printable_text by blast+

lemma printable_valid_metric: "printable_metric m \<Longrightarrow> valid_metric m"
  by (simp add: printable_metric_def valid_metric_def printable_valid)

lemma printable_valid_event: "printable_event e \<Longrightarrow> valid_event e"
  by (cases e) (simp_all add: printable_valid_metric valid_chat_def printable_valid valid_alert_def
      printable_rule_def valid_rule_def)

lemma printable_Cons: "printable (c # s) \<longleftrightarrow> 32 \<le> (of_char c :: nat) \<and> (of_char c :: nat) < 127 \<and> printable s"
  by (simp add: printable_def)

lemma printable_Nil [simp]: "printable []"
  by (simp add: printable_def)

lemma printable_escape [simp]: "printable s \<Longrightarrow> printable (escape_json s)"
proof (induction s)
  case (Cons c s)
  have "printable (escape_char c)"
    using Cons.prems by (auto simp: escape_char_def printable_Cons)
  then show ?case using Cons by (simp add: printable_Cons)
qed simp

lemma printable_comma: "\<forall>x \<in> set xs. printable x \<Longrightarrow> printable (comma_separated xs)"
  by (induction xs rule: comma_separated.induct) (simp_all add: printable_Cons)

lemmas printable_simps = printable_Cons printable_numbers printable_iso_timestamp

lemma printable_metric_data: "printable_metric m \<Longrightarrow> printable (metric_data_to_json m)"
  by (simp add: printable_metric_def metric_data_to_json_def printable_simps)

lemma printable_rule_item: "printable_rule r \<Longrightarrow> printable (rule_item_to_json r)"
  by (simp add: printable_rule_def rule_item_to_json_def printable_simps)

lemma printable_event_line: "printable_event e \<Longrightarrow> printable (event_line e)"
proof (cases e)
  case (Snapshot t now)
  assume "printable_event e"
  then have "printable (comma_separated (map (metric_data_to_json \<circ> snd) (ordered t)))"
    using printable_metric_data by (intro printable_comma) (auto simp: Snapshot ordered_def)
  then show ?thesis by (simp add: Snapshot snapshot_event_to_json_def printable_simps)
next
  case (Rules rs)
  assume "printable_event e"
  then have "printable (comma_separated (map rule_item_to_json rs))"
    using printable_rule_item by (intro printable_comma) (auto simp: Rules)
  then show ?thesis by (simp add: Rules rules_event_to_json_def printable_simps)
qed (simp_all add: metric_event_to_json_def printable_metric_data chat_event_to_json_def ack_event_to_json_def
    error_event_to_json_def alert_event_to_json_def printable_simps)

section \<open>Lines\<close>

text \<open>What a field reader returns was in the line.\<close>

lemma string_token_set: "string_token s = Some v \<Longrightarrow> set v \<subseteq> set s"
  by (auto simp: string_token_def Let_def split: list.splits if_splits dest: set_takeWhileD)

lemma field_value_set: "field_value key s = Some t \<Longrightarrow> set t \<subseteq> set s"
proof -
  assume "field_value key s = Some t"
  then obtain r where r: "dropWhile isspace (drop (length (quoted_key key)) s) = CHR '':'' # r" "t = dropWhile isspace r"
    by (auto simp: field_value_def Let_def split: list.splits if_splits)
  have "set t \<subseteq> set (CHR '':'' # r)" unfolding r(2) by (auto dest: set_dropWhileD)
  also have "\<dots> \<subseteq> set s" unfolding r(1) [symmetric] by (auto dest!: set_dropWhileD in_set_dropD)
  finally show "set t \<subseteq> set s" .
qed

lemma json_get_string_set: "json_get_string s key = Some v \<Longrightarrow> set v \<subseteq> set s"
proof (induction s)
  case Nil
  then show ?case by (simp add: str.get_empty)
next
  case (Cons c s)
  show ?case
  proof (cases "Option.bind (field_value key (c # s)) string_token")
    case None
    then show ?thesis using Cons by (auto simp: str.get_Cons)
  next
    case (Some w)
    then obtain t where "field_value key (c # s) = Some t" "string_token t = Some w" by (auto simp: bind_eq_Some_conv)
    then show ?thesis using Cons.prems Some field_value_set string_token_set by (fastforce simp: str.get_Cons)
  qed
qed

lemma printable_subset: "set v \<subseteq> set s \<Longrightarrow> printable s \<Longrightarrow> printable v"
  by (auto simp: printable_def)

lemma printable_field: "printable line \<Longrightarrow> printable fallback \<Longrightarrow> printable (str_field line key fallback)"
  using printable_subset [OF json_get_string_set [of line key]]
  by (auto simp: str_field_def value_or_def split: option.splits)

lemma printable_trim: "printable s \<Longrightarrow> printable (trim s)"
proof -
  obtain pre post where "s = pre @ trim s @ post" by (rule trim_decomp)
  then show "printable s \<Longrightarrow> printable (trim s)" by (metis printable_append)
qed

lemma printable_lower: "printable s \<Longrightarrow> printable (lower_copy s)"
proof -
  have "printable [tolower c]" if "printable [c]" for c
    using that by (auto simp: printable_Cons tolower_def split: if_splits)
  then show "printable s \<Longrightarrow> printable (lower_copy s)"
    by (induction s) (auto simp: lower_copy_def printable_Cons)
qed

lemma num_field_finite: "num_field line key = Inr x \<Longrightarrow> is_finite x"
  using stod_finite
  by (auto simp: num_field_def json_get_number_def value_or_def is_finite_def elim!: and_then_InrE split: option.splits)

lemma parsed_rule_printable:
  assumes "parse_alert_command t = Inr (Some r)" and "printable t"
  shows "printable_rule r"
  using assms(1)
proof (rule parse_alert_commandE)
  fix name cmp num key display thr
  assume r: "stod num = Inr thr" "metric_for_token (lower_copy name) = Some (key, display)"
    "r = \<lparr>raw_command = trim t, rule_metric_key = key, rule_display_metric = display, rule_threshold = thr, comparison = cmp\<rparr>"
  have "printable key \<and> printable display"
    using r(2) by (auto simp: metric_for_token_def printable_Cons split: if_splits)
  then show "printable_rule r" using r stod_finite printable_trim [OF assms(2)] by (simp add: printable_rule_def)
qed

section \<open>What the server sends to one client\<close>

text \<open>The server's table of reports after a message.\<close>

fun latest_after :: "server_event \<Rightarrow> metric_table \<Rightarrow> metric_table" where
  "latest_after (Metric m) t = AList.update (ms_host m) m t"
| "latest_after e t = t"

text \<open>The rules a client was last told.\<close>

fun told_rules :: "server_event \<Rightarrow> AlertRule list option \<Rightarrow> AlertRule list option" where
  "told_rules (Rules rs) t = Some rs"
| "told_rules e t = t"

fun is_snapshot :: "server_event \<Rightarrow> bool" where
  "is_snapshot (Snapshot t now) = True"
| "is_snapshot e = False"

definition ordinary :: "server_event \<Rightarrow> bool" where
  "ordinary e \<longleftrightarrow> printable_event e \<and> \<not> is_snapshot e"

text \<open>
  Between two states the server sent these messages to a client; if it is a dashboard, they tell how the
  table and the rules changed.
\<close>

definition emits :: "socket_t \<Rightarrow> server_event list \<Rightarrow> MonitorServer \<Rightarrow> MonitorServer \<Rightarrow> bool" where
  "emits f es s s' \<longleftrightarrow>
     stream (net s') f = stream (net s) f @ unlines (map event_line es) \<and> (\<forall>e \<in> set es. ordinary e) \<and>
     (f \<in> set (dashboards (clients s)) \<longrightarrow> latest_metrics s' = fold latest_after es (latest_metrics s) \<and>
        fold told_rules es (Some (alert_rules s)) = Some (alert_rules s'))"

definition talks :: "socket_t \<Rightarrow> MonitorServer \<Rightarrow> MonitorServer \<Rightarrow> bool" where
  "talks f s s' \<longleftrightarrow> clients s' = clients s \<and> (\<exists>es. emits f es s s')"

lemma talksI: "emits f es s s' \<Longrightarrow> clients s' = clients s \<Longrightarrow> talks f s s'"
  by (auto simp: talks_def)

lemma talks_refl:
  "stream (net s') f = stream (net s) f \<Longrightarrow> latest_metrics s' = latest_metrics s \<Longrightarrow> alert_rules s' = alert_rules s \<Longrightarrow>
    clients s' = clients s \<Longrightarrow> talks f s s'"
  by (rule talksI [of f "[]"]) (simp_all add: emits_def)

lemma talks_trans [trans]: "talks f s t \<Longrightarrow> talks f t u \<Longrightarrow> talks f s u"
proof -
  assume t: "talks f s t" "talks f t u"
  then obtain es es' where "emits f es s t" "emits f es' t u" by (auto simp: talks_def)
  then have "emits f (es @ es') s u" using t by (auto simp: emits_def talks_def)
  then show ?thesis using t by (auto simp: talks_def)
qed

text \<open>Messages that tell nothing new.\<close>

definition no_news :: "MonitorServer \<Rightarrow> server_event \<Rightarrow> bool" where
  "no_news s e \<longleftrightarrow> ordinary e \<and> latest_after e (latest_metrics s) = latest_metrics s \<and>
     told_rules e (Some (alert_rules s)) = Some (alert_rules s)"

lemma talks_send:
  assumes "reliable env" and "no_news s e"
  shows "talks f s (server_send env g (event_line e) s)"
  by (rule talksI [of f "if f = g then [e] else []"])
    (use assms(2) in \<open>simp_all add: emits_def server_send_stream [OF assms(1)] no_news_def\<close>)

definition distinct_fds :: "MonitorServer \<Rightarrow> bool" where
  "distinct_fds s \<longleftrightarrow> distinct (map fd (clients s))"

lemma broadcast_stream:
  assumes "reliable env" and "distinct_fds s"
  shows "stream (net (broadcast_to_dashboards env p s)) f =
    stream (net s) f @ (if f \<in> set (dashboards (clients s)) then p @ [CHR_nl] else [])"
proof -
  have "distinct (dashboards (clients s))"
    using assms(2) by (simp add: distinct_fds_def dashboards_def distinct_map inj_on_def)
  then show ?thesis by (simp add: broadcast_net send_all_reliable [OF assms(1)])
qed

lemma talks_broadcast:
  assumes "reliable env" and "distinct_fds s" and "no_news s e"
  shows "talks f s (broadcast_to_dashboards env (event_line e) s)"
  by (rule talksI [of f "if f \<in> set (dashboards (clients s)) then [e] else []"])
    (use assms(3) in \<open>simp_all add: emits_def broadcast_stream [OF assms(1,2)] no_news_def\<close>)

lemma talks_clock: "talks f s (snd (server_clock env s))"
  by (rule talks_refl) (simp_all add: server_clock_stream)

lemma make_alert_no_news:
  assumes "printable_metric m" and "printable_rule r"
  shows "no_news s (Alert (make_alert m r now))"
proof -
  have "is_finite (metric_value_for_key m k)" for k
    using assms(1) by (simp add: metric_value_for_key_def printable_metric_def is_finite_def)
  then show ?thesis using assms
    by (simp add: no_news_def ordinary_def make_alert_def printable_metric_def printable_rule_def printable_simps Let_def)
qed

lemma talks_evaluate_rule:
  assumes "reliable env" and "distinct_fds s" and "printable_metric m" and "printable_rule r"
  shows "talks f s (evaluate_rule env m r s)"
proof -
  let ?now = "fst (server_clock env s)" and ?s0 = "snd (server_clock env s)"
  let ?s1 = "broadcast_to_dashboards env (alert_event_to_json (make_alert m r ?now)) ?s0"
  have "talks f s ?s0" by (rule talks_clock)
  also have "talks f ?s0 ?s1"
    using talks_broadcast [OF assms(1) _ make_alert_no_news [OF assms(3,4)], where s = ?s0 and f = f] assms(2)
    by (simp add: distinct_fds_def)
  finally have sent: "talks f s ?s1" .
  have up: "talks f s t \<Longrightarrow> talks f s (t\<lparr>active_alerts := x\<rparr>)" for t x by (simp add: talks_def emits_def)
  have "talks f s s" by (rule talks_refl) simp_all
  then show ?thesis using sent by (simp add: evaluate_rule_def Let_def case_prod_unfold up)
qed

lemma talks_evaluate_rules:
  assumes "reliable env" and "distinct_fds s" and "printable_metric m" and "\<forall>r \<in> set rs. printable_rule r"
  shows "talks f s (fold (evaluate_rule env m) rs s)"
  using assms(2,4)
proof (induction rs arbitrary: s)
  case Nil
  then show ?case by (simp add: talks_refl)
next
  case (Cons r rs)
  have "talks f s (evaluate_rule env m r s)" using Cons.prems assms(1,3) by (intro talks_evaluate_rule) simp_all
  also have "talks f \<dots> (fold (evaluate_rule env m) rs \<dots>)" using Cons by (simp add: distinct_fds_def)
  finally show ?case by simp
qed

lemma talks_store_metric:
  assumes "reliable env" and "distinct_fds s" and "printable_metric m" and "\<forall>r \<in> set (alert_rules s). printable_rule r"
  shows "talks f s (store_metric env m s)"
proof -
  let ?s1 = "s\<lparr>latest_metrics := AList.update (ms_host m) m (latest_metrics s)\<rparr>"
  let ?s2 = "broadcast_to_dashboards env (metric_event_to_json m) ?s1"
  have "distinct_fds ?s1" using assms(2) by (simp add: distinct_fds_def)
  note sent = broadcast_stream [OF assms(1) this]
  have "emits f (if f \<in> set (dashboards (clients s)) then [Metric m] else []) s ?s2"
    using assms(3) by (simp add: emits_def ordinary_def sent)
  then have "talks f s ?s2" by (rule talksI) simp
  also have "talks f ?s2 (evaluate_rules env m ?s2)"
    unfolding evaluate_rules_def using assms by (intro talks_evaluate_rules) (simp_all add: distinct_fds_def)
  finally show ?thesis by (simp add: store_metric_def)
qed

section \<open>A line of input\<close>

text \<open>Lines of printable characters.\<close>

definition plain_bytes :: "cpp_string \<Rightarrow> bool" where
  "plain_bytes bs \<longleftrightarrow> printable (filter (\<lambda>c. c \<noteq> CHR_nl) bs)"

definition clean_server :: "MonitorServer \<Rightarrow> bool" where
  "clean_server s \<longleftrightarrow>
     (\<forall>m \<in> snd ` set (latest_metrics s). printable_metric m) \<and> (\<forall>r \<in> set (alert_rules s). printable_rule r) \<and>
     (\<forall>c \<in> set (clients s). printable (peer_label c) \<and> printable (declared_host c) \<and> plain_bytes (buffer c))"

lemma parsed_metric_printable:
  assumes "parse_metrics line fb now = Inr m" and "printable line" and "printable fb" and "printable now"
  shows "printable_metric m"
  using assms(1) num_field_finite printable_field [OF assms(2)] assms(3,4)
  by (auto simp: parse_metrics_def printable_metric_def elim!: and_then_InrE)

lemma clean_client: "clean_server s \<Longrightarrow> i < length (clients s) \<Longrightarrow> printable (peer_label (clients s ! i)) \<and> printable (declared_host (clients s ! i))"
  by (simp add: clean_server_def)

lemma update_values: "snd ` set (AList.update k v t) \<subseteq> insert v (snd ` set t)"
  by (induction t) auto

lemma clean_store:
  assumes "clean_server s" and "printable_metric m"
  shows "clean_server (store_metric env m s)"
proof -
  have "printable_metric x" if "x \<in> snd ` set (AList.update (ms_host m) m (latest_metrics s))" for x
    using subsetD [OF update_values that] assms by (auto simp: clean_server_def)
  then show ?thesis using assms(1) by (simp add: clean_server_def)
qed

lemma talks_register_rule:
  assumes "reliable env" and "distinct_fds s" and "clean_server s" and "printable_rule r"
  shows "talks f s (register_rule env g r s) \<and> clean_server (register_rule env g r s)"
proof -
  let ?s1 = "s\<lparr>alert_rules := alert_rules s @ [r]\<rparr>"
  let ?s2 = "snd (server_clock env ?s1)" and ?now = "fst (server_clock env ?s1)"
  let ?chat = "\<lparr>chat_sender = ''system'', chat_text = ''Registered alert rule: '' @ raw_command r, chat_timestamp = iso_timestamp ?now\<rparr>"
  let ?s3 = "broadcast_to_dashboards env (chat_event_to_json ?chat) ?s2"
  let ?s4 = "broadcast_to_dashboards env (rules_event_to_json (alert_rules ?s3)) ?s3"
  let ?ack = "''rule added: '' @ raw_command r" and ?dash = "f \<in> set (dashboards (clients s))"
  have rules: "\<forall>r' \<in> set (alert_rules ?s3). printable_rule r'" using assms(3,4) by (auto simp: clean_server_def)
  have w: "distinct_fds ?s2" "distinct_fds ?s3" using assms(2) by (simp_all add: distinct_fds_def)
  have "emits f (if ?dash then [Chat ?chat, Rules (alert_rules ?s3)] else []) s ?s4"
  proof -
    have "stream (net ?s4) f = stream (net s) f @ unlines (map event_line (if ?dash then [Chat ?chat, Rules (alert_rules ?s3)] else []))"
      unfolding broadcast_stream [OF assms(1) w(2)] broadcast_stream [OF assms(1) w(1)]
      by (cases ?dash) (simp_all del: append.simps append_Cons add: server_clock_stream)
    moreover have "ordinary (Chat ?chat)" "ordinary (Rules (alert_rules ?s3))"
      using rules assms(4) by (simp_all add: ordinary_def printable_rule_def printable_simps)
    ultimately show ?thesis by (auto simp: emits_def)
  qed
  then have "talks f s ?s4" by (rule talksI) simp
  also have "talks f ?s4 (server_send env g (ack_event_to_json ?ack) ?s4)"
    using talks_send [OF assms(1), where e = "Ack ?ack" and f = f and g = g and s = ?s4] assms(4)
    by (simp add: no_news_def ordinary_def printable_rule_def printable_simps)
  finally have "talks f s (register_rule env g r s)"
    by (simp add: register_rule_def Let_def case_prod_unfold)
  then show ?thesis using assms(3,4) by (simp add: clean_server_def)
qed

lemma talks_reply:
  assumes "reliable env" and "clean_server s" and "no_news s e"
  shows "talks f s (server_send env g (event_line e) s) \<and> clean_server (server_send env g (event_line e) s)"
  using talks_send [OF assms(1,3), where f = f and g = g] assms(2) by (simp add: clean_server_def)

lemma talks_command:
  assumes "reliable env" and "distinct_fds s" and "clean_server s" and "printable t"
    and "handle_command env g t s = Inr s'"
  shows "talks f s s' \<and> clean_server s'"
proof -
  let ?send = "\<lambda>e. server_send env g (event_line e) s"
  let ?bad = "Error ''expected /alert CPU>80% or /alert MEMORY>70%''"
  let ?count = "Ack (''connected agents: '' @ nat_to_string (length (latest_metrics s)))"
  have "s' = ?send ?bad \<or> (\<exists>r. parse_alert_command t = Inr (Some r) \<and> s' = register_rule env g r s) \<or>
      s' = ?send (Rules (alert_rules s)) \<or> s' = ?send ?count \<or> s' = ?send (Error ''unknown command'')"
    using assms(5) by (auto simp: handle_command_def Let_def elim!: and_then_InrE split: if_splits option.splits)
  moreover have "no_news s ?bad" "no_news s (Rules (alert_rules s))" "no_news s ?count" "no_news s (Error ''unknown command'')"
    using assms(3) by (auto simp: no_news_def ordinary_def clean_server_def printable_Cons)
  ultimately show ?thesis
    using talks_reply [OF assms(1,3)] talks_register_rule [OF assms(1-3)] parsed_rule_printable assms(4)
    by (elim disjE exE conjE) (simp_all del: event_line.simps)
qed

lemma talks_chat:
  assumes "reliable env" and "distinct_fds s" and "clean_server s" and "printable line" and "i < length (clients s)"
  shows "talks f s (handle_chat env i line s) \<and> clean_server (handle_chat env i line s)"
proof -
  let ?c = "clients s ! i" and ?s1 = "snd (server_clock env s)"
  let ?chat = "\<lparr>chat_sender = str_field line ''from'' (if declared_host ?c = [] then peer_label ?c else declared_host ?c),
    chat_text = str_field line ''text'' [], chat_timestamp = iso_timestamp (fst (server_clock env s))\<rparr>"
  have "no_news ?s1 (Chat ?chat)"
    using printable_field [OF assms(4)] clean_client [OF assms(3,5)]
    by (simp add: no_news_def ordinary_def printable_iso_timestamp)
  then have "talks f ?s1 (broadcast_to_dashboards env (chat_event_to_json ?chat) ?s1)"
    using talks_broadcast [OF assms(1), where f = f and s = ?s1 and e = "Chat ?chat"] assms(2) by (simp add: distinct_fds_def)
  with talks_clock have "talks f s (broadcast_to_dashboards env (chat_event_to_json ?chat) ?s1)" by (rule talks_trans)
  then have "talks f s (handle_chat env i line s)" by (simp add: handle_chat_def Let_def case_prod_unfold)
  then show ?thesis using assms(3) by (simp add: clean_server_def)
qed

lemma talks_metrics:
  assumes "reliable env" and "distinct_fds s" and "clean_server s" and "printable line" and "i < length (clients s)"
    and "handle_metrics env i line s = Inr s'"
  shows "talks f s s' \<and> clean_server s'"
proof -
  let ?s1 = "snd (server_clock env s)"
  obtain m where m: "parse_metrics line (declared_host (clients s ! i)) (iso_timestamp (fst (server_clock env s))) = Inr m"
      "s' = store_metric env m ?s1"
    using assms(6) by (auto simp: handle_metrics_def case_prod_unfold elim!: and_then_InrE)
  have pm: "printable_metric m"
    using parsed_metric_printable [OF m(1) assms(4)] clean_client [OF assms(3,5)] printable_iso_timestamp by simp
  have s1: "distinct_fds ?s1" "clean_server ?s1" using assms(2,3) by (simp_all add: distinct_fds_def clean_server_def)
  have "talks f s ?s1" by (rule talks_clock)
  also have "talks f ?s1 s'"
    unfolding m(2) using s1 pm by (intro talks_store_metric assms(1)) (simp_all add: clean_server_def)
  finally show ?thesis unfolding m(2) using clean_store [OF s1(2) pm] by simp
qed

section \<open>Copies of the table\<close>

text \<open>The table of a dashboard agrees with the server's on every host that has a name.\<close>

definition copied :: "metric_table \<Rightarrow> (py_str \<times> json) list" where
  "copied t = map (\<lambda>(h, m). (py h, meaning (metric_text m))) t"

definition mirrors :: "(py_str \<times> json) list \<Rightarrow> metric_table \<Rightarrow> bool" where
  "mirrors T t \<longleftrightarrow> (\<forall>k. k \<noteq> [] \<longrightarrow> map_of T k = map_of (copied t) k)"

lemma copied_update: "copied (AList.update h m t) = AList.update (py h) (meaning (metric_text m)) (copied t)"
  by (induction t) (auto simp: copied_def)

lemma mirrors_ordinary:
  assumes "ordinary e" and "mirrors T t"
  shows "mirrors (table_after e T) (latest_after e t)"
proof (cases e)
  case (Metric m)
  have "text_of (ms_host m) = py (ms_host m)"
    using assms(1) by (simp add: Metric ordinary_def printable_metric_def printable_valid)
  then show ?thesis using assms(2) by (simp add: Metric mirrors_def put_report_def copied_update update_conv')
qed (use assms in \<open>simp_all add: ordinary_def\<close>)

lemma mirrors_fold:
  "\<forall>e \<in> set es. ordinary e \<Longrightarrow> mirrors T t \<Longrightarrow> mirrors (fold table_after es T) (fold latest_after es t)"
  by (induction es arbitrary: T t) (simp_all add: mirrors_ordinary)

lemma copied_distinct: "distinct_keys t \<Longrightarrow> distinct (map fst (copied t))"
proof -
  have "map fst (copied t) = map py (map fst t)" by (simp add: copied_def case_prod_unfold)
  moreover have "inj_on py A" for A by (rule inj_onI) simp
  ultimately show "distinct_keys t \<Longrightarrow> distinct (map fst (copied t))"
    by (simp add: distinct_keys_def distinct_map [of py "map fst t"] del: map_map)
qed

lemma mirrors_snapshot:
  assumes "tables_ok s" and "clean_server s"
  shows "mirrors (table_after (Snapshot (latest_metrics s) now) T) (latest_metrics s)"
proof -
  let ?t = "latest_metrics s"
  have keys: "distinct_keys ?t" "distinct_keys (ordered ?t)" "set (ordered ?t) = set ?t"
    using assms(1) by (simp_all add: tables_ok_def distinct_keys_def ordered_def distinct_map)
  have key: "text_of (ms_host m) = py h" if "(h, m) \<in> set (ordered ?t)" for h m
  proof -
    have "ms_host m = h" "printable_metric m" using assms that by (auto simp: keys(3) tables_ok_def clean_server_def)
    then show ?thesis by (auto simp: printable_metric_def printable_valid)
  qed
  have "fold put_report (map snd xs) acc = fold (\<lambda>(k, v). AList.update k v) (copied xs) acc"
    if "set xs \<subseteq> set (ordered ?t)" for xs acc
    using that key by (induction xs arbitrary: acc) (auto simp: copied_def put_report_def)
  then have "table_after (Snapshot ?t now) T = copied (ordered ?t)"
    using fold_update_distinct [of "copied (ordered ?t)" "[]"] copied_distinct [OF keys(2)] by simp
  moreover have "set (copied (ordered ?t)) = set (copied ?t)" using keys(3) by (simp add: copied_def)
  then have "map_of (copied (ordered ?t)) = map_of (copied ?t)"
    by (metis copied_distinct keys(1,2) map_of_inject_set)
  ultimately show ?thesis by (simp add: mirrors_def)
qed

text \<open>
  Since a point of its stream, a client was sent messages, and whatever table a dashboard had at that point,
  it has the server's table afterwards.
\<close>

definition follows :: "socket_t \<Rightarrow> cpp_string \<Rightarrow> MonitorServer \<Rightarrow> bool" where
  "follows f base s \<longleftrightarrow>
     (\<exists>es. stream (net s) f = base @ unlines (map event_line es) \<and> (\<forall>e \<in> set es. printable_event e) \<and>
        (f \<in> set (dashboards (clients s)) \<longrightarrow> (\<forall>T. mirrors (fold table_after es T) (latest_metrics s)) \<and>
           (\<forall>t. fold told_rules es t = Some (alert_rules s))))"

lemma follows_talks:
  assumes "follows f base s" and "talks f s s'"
  shows "follows f base s'"
proof -
  obtain es es' where e: "stream (net s) f = base @ unlines (map event_line es)" "\<forall>e \<in> set es. printable_event e"
      "f \<in> set (dashboards (clients s)) \<longrightarrow> (\<forall>T. mirrors (fold table_after es T) (latest_metrics s)) \<and>
         (\<forall>t. fold told_rules es t = Some (alert_rules s))"
      "emits f es' s s'" "clients s' = clients s"
    using assms by (auto simp: follows_def talks_def)
  then show ?thesis
    unfolding follows_def
    by (intro exI [of _ "es @ es'"]) (auto simp: emits_def ordinary_def intro: mirrors_fold)
qed

section \<open>Registration\<close>

lemma dashboards_split:
  "f \<in> set (dashboards (A @ c # B)) \<longleftrightarrow>
     f \<in> set (dashboards A) \<or> role c = Dashboard \<and> f = fd c \<or> f \<in> set (dashboards B)"
  by (auto simp: dashboards_def)

lemma dashboards_update_other:
  assumes "i < length cs" and "f \<noteq> fd (cs ! i)" and "fd c = fd (cs ! i)"
  shows "f \<in> set (dashboards (cs[i := c])) \<longleftrightarrow> f \<in> set (dashboards cs)"
proof -
  have "f \<in> set (dashboards (cs[i := c])) \<longleftrightarrow> f \<in> set (dashboards (take i cs @ cs ! i # drop (Suc i) cs))"
    using assms(2,3) by (simp add: upd_conv_take_nth_drop [OF assms(1)] dashboards_split)
  then show ?thesis using id_take_nth_drop [OF assms(1)] by simp
qed

lemma dashboards_update_same:
  assumes "i < length cs" and "distinct (map fd cs)" and "fd c = fd (cs ! i)"
  shows "fd (cs ! i) \<in> set (dashboards (cs[i := c])) \<longleftrightarrow> role c = Dashboard"
proof -
  have "distinct (map fd (take i cs @ cs ! i # drop (Suc i) cs))"
    using assms(2) id_take_nth_drop [OF assms(1)] by simp
  then have "fd (cs ! i) \<notin> set (map fd (take i cs))" "fd (cs ! i) \<notin> set (map fd (drop (Suc i) cs))"
    unfolding map_append list.map distinct_append distinct.simps by auto
  then have "fd (cs ! i) \<notin> set (dashboards (take i cs))" "fd (cs ! i) \<notin> set (dashboards (drop (Suc i) cs))"
    by (auto simp: dashboards_def)
  then show ?thesis using assms(3) by (simp add: upd_conv_take_nth_drop [OF assms(1)] dashboards_split)
qed

lemma handle_register_stream:
  assumes "reliable env"
  shows "stream (net (handle_register env i line s)) f = stream (net s) f @
    (if f = fd (clients s ! i)
     then unlines (map event_line
       (Ack (''registered as '' @ lower_copy (str_field line ''role'' [])) #
        (if new_role (lower_copy (str_field line ''role'' [])) (role (clients s ! i)) = Dashboard
         then [Snapshot (latest_metrics s) (clock_at env (clock_reads (net s))), Rules (alert_rules s)] else [])))
     else [])"
proof -
  have "clock_reads (net (server_send env g p t)) = clock_reads (net t)" for g p and t :: MonitorServer
    by (simp add: server_send_def keeps)
  then show ?thesis
    by (simp add: handle_register_def Let_def case_prod_unfold server_send_stream [OF assms] server_clock_stream
        set_client_def)
qed

lemma follows_register:
  assumes "reliable env" and "follows f base s" and "clean_server s" and "tables_ok s" and "distinct_fds s"
    and "printable line" and "i < length (clients s)"
  shows "follows f base (handle_register env i line s)"
proof (cases "f = fd (clients s ! i)")
  case False
  then have "f \<in> set (dashboards (clients (handle_register env i line s))) \<longleftrightarrow> f \<in> set (dashboards (clients s))"
    unfolding handle_register_clients using assms(7) by (intro dashboards_update_other) simp_all
  then show ?thesis using assms(2) False by (simp add: follows_def handle_register_stream [OF assms(1)])
next
  case True
  let ?name = "lower_copy (str_field line ''role'' [])" and ?now = "clock_at env (clock_reads (net s))"
  let ?dash = "new_role ?name (role (clients s ! i)) = Dashboard"
  let ?es = "Ack (''registered as '' @ ?name) #
    (if ?dash then [Snapshot (latest_metrics s) ?now, Rules (alert_rules s)] else [])"
  obtain es where es: "stream (net s) f = base @ unlines (map event_line es)" "\<forall>e \<in> set es. printable_event e"
    using assms(2) by (auto simp: follows_def)
  have "\<forall>e \<in> set ?es. printable_event e"
    using assms(3) printable_lower [OF printable_field [OF assms(6)]]
    by (auto simp: clean_server_def printable_Cons)
  then have "\<forall>e \<in> set (es @ ?es). printable_event e" using es(2) by (simp only: set_append ball_Un)
  moreover have "stream (net (handle_register env i line s)) f = base @ unlines (map event_line (es @ ?es))"
    by (simp add: handle_register_stream [OF assms(1)] True es(1) [unfolded True])
  moreover have "?dash" if "f \<in> set (dashboards (clients (handle_register env i line s)))"
    using that dashboards_update_same [OF assms(7)] assms(5)
    unfolding handle_register_clients True by (simp add: distinct_fds_def)
  moreover have "mirrors (fold table_after (es @ ?es) T) (latest_metrics s)" if ?dash for T
    using mirrors_snapshot [OF assms(4,3)] that by simp
  moreover have "fold told_rules (es @ ?es) t = Some (alert_rules s)" if ?dash for t using that by simp
  ultimately show ?thesis unfolding follows_def handle_register_frame by blast
qed

section \<open>The invariant of the feed\<close>

definition feeding :: "socket_t \<Rightarrow> cpp_string \<Rightarrow> MonitorServer \<Rightarrow> bool" where
  "feeding f base s \<longleftrightarrow> follows f base s \<and> clean_server s \<and> tables_ok s \<and> distinct_fds s"

lemma clean_register:
  assumes "clean_server s" and "printable line" and "i < length (clients s)"
  shows "clean_server (handle_register env i line s)"
  using assms(1,3) printable_field [OF assms(2)] clean_client [OF assms(1,3)]
  by (auto simp: clean_server_def handle_register_clients dest!: subsetD [OF set_update_subset_insert])

lemma talks_unsupported:
  assumes "reliable env" and "clean_server s"
  shows "talks f s (server_send env g (error_event_to_json ''unsupported message'') s) \<and>
    clean_server (server_send env g (error_event_to_json ''unsupported message'') s)"
  using talks_reply [OF assms, of "Error ''unsupported message''" f g] by (simp add: no_news_def ordinary_def printable_Cons)

lemma talks_line:
  assumes "reliable env" and "distinct_fds s" and "clean_server s" and "printable line" and "i < length (clients s)"
    and "str_field line ''type'' [] \<noteq> ''register''" and "handle_line env i line s = Inr s'"
  shows "talks f s s' \<and> clean_server s'"
  using assms(6,7) talks_metrics [OF assms(1-5)] talks_chat [OF assms(1-5)] talks_unsupported [OF assms(1,3)]
    talks_command [OF assms(1-3) printable_field [OF assms(4) printable_Nil, of "''text''"]]
  by (simp add: handle_line_def Let_def split: if_splits) blast+

lemma feeding_line:
  assumes "reliable env" and "feeding f base s" and "printable line" and "i < length (clients s)"
    and "handle_line env i line s = Inr s'"
  shows "feeding f base s'"
proof -
  have s: "follows f base s" "clean_server s" "tables_ok s" "distinct_fds s" using assms(2) by (simp_all add: feeding_def)
  have "map fd (clients s') = map fd (clients s)" by (rule handle_line_clients [OF assms(5)]) simp
  then have "distinct_fds s'" "tables_ok s'" using s(3,4) handle_line_tables [OF assms(5)] by (simp_all add: distinct_fds_def)
  moreover have "follows f base s' \<and> clean_server s'"
  proof (cases "str_field line ''type'' [] = ''register''")
    case True
    then have "s' = handle_register env i line s" using assms(5) by (simp add: handle_line_def)
    then show ?thesis
      using follows_register [OF assms(1) s assms(3,4)] clean_register [OF s(2) assms(3,4)] by simp
  next
    case False
    then show ?thesis using talks_line [OF assms(1) s(4,2) assms(3,4) _ assms(5)] follows_talks [OF s(1)] by blast
  qed
  ultimately show ?thesis by (simp add: feeding_def)
qed

lemma dashboards_map: "map fd cs = map fd cs' \<Longrightarrow> map role cs = map role cs' \<Longrightarrow> dashboards cs = dashboards cs'"
proof -
  have "dashboards cs = map fst (filter (\<lambda>p. snd p = Dashboard) (zip (map fd cs) (map role cs)))" for cs
    by (induction cs) (simp_all add: dashboards_def)
  then show "map fd cs = map fd cs' \<Longrightarrow> map role cs = map role cs' \<Longrightarrow> dashboards cs = dashboards cs'" by metis
qed

lemma feeding_buffer:
  assumes "feeding f base s" and "plain_bytes b"
  shows "feeding f base (set_buffer i b s)"
proof -
  have fds: "map fd (clients (set_buffer i b s)) = map fd (clients s)"
      "dashboards (clients (set_buffer i b s)) = dashboards (clients s)"
    by (auto intro!: dashboards_map simp: map_list_update_same)
  have rest: "net (set_buffer i b s) = net s" "latest_metrics (set_buffer i b s) = latest_metrics s"
      "alert_rules (set_buffer i b s) = alert_rules s" "active_alerts (set_buffer i b s) = active_alerts s"
    by (simp_all add: set_buffer_def set_client_def)
  have "clean_server (set_buffer i b s)"
  proof (cases "i < length (clients s)")
    case True
    then show ?thesis using assms clean_client [of s i]
      by (auto simp: clean_server_def feeding_def rest dest!: subsetD [OF set_update_subset_insert])
  next
    case False
    then show ?thesis using assms(1) by (simp add: clean_server_def feeding_def rest list_update_beyond)
  qed
  then show ?thesis
    using assms(1) by (simp add: feeding_def follows_def distinct_fds_def tables_ok_def fds rest del: set_buffer_clients)
qed

lemma plain_bytes_printable: "printable s \<Longrightarrow> plain_bytes s"
  by (simp add: plain_bytes_def printable_def)

lemma plain_bytes_append: "plain_bytes (a @ b) \<longleftrightarrow> plain_bytes a \<and> plain_bytes b"
  by (simp add: plain_bytes_def)

lemma plain_bytes_take: "plain_bytes b \<Longrightarrow> plain_bytes (take n b)"
  by (metis append_take_drop_id plain_bytes_append)

lemma plain_line:
  assumes "plain_bytes b"
  shows "printable (before_newline b)" and "plain_bytes (after_newline b)"
proof -
  have b: "b = before_newline b @ dropWhile (\<lambda>c. c \<noteq> CHR_nl) b" by (simp add: before_newline_def)
  have "filter (\<lambda>c. c \<noteq> CHR_nl) (before_newline b) = before_newline b"
    unfolding before_newline_def by (intro filter_True) (auto dest: set_takeWhileD)
  then show "printable (before_newline b)" using assms b unfolding plain_bytes_def by (metis filter_append printable_append)
  show "plain_bytes (after_newline b)"
    using assms by (metis after_newline_def append_take_drop_id b plain_bytes_append)
qed

lemma feeding_process_lines:
  assumes "reliable env" and "feeding f base s" and "process_lines env i s = Inr s'"
  shows "feeding f base s'"
  using assms
proof (induction env i s rule: process_lines.induct)
  case (1 env i s)
  let ?b = "buffer (clients s ! i)"
  let ?line = "trim (before_newline ?b)" and ?s1 = "set_buffer i (after_newline ?b) s"
  show ?case
  proof (cases "i < length (clients s) \<and> CHR_nl \<in> set ?b")
    case True
    then obtain t where t: "handle_if_nonempty env i ?line ?s1 = Inr t" "process_lines env i t = Inr s'"
      using 1(4) by (subst (asm) process_lines.simps) (auto simp: Let_def elim!: and_then_InrE)
    have "plain_bytes ?b" using 1(3) True by (simp add: feeding_def clean_server_def)
    note line = plain_line [OF this]
    have "feeding f base ?s1" using feeding_buffer [OF 1(3) line(2)] .
    then have "feeding f base t"
      using t(1) feeding_line [OF 1(2) _ printable_trim [OF line(1)], of f base ?s1 i] True
      by (auto simp: handle_if_nonempty_def split: if_splits)
    then show ?thesis using 1(1) [OF refl True refl refl t(1) 1(2)] t(2) by blast
  next
    case False
    then have "process_lines env i s = Inr s" by (subst process_lines.simps) (simp only: Let_def if_False)
    then show ?thesis using 1(3,4) by simp
  qed
qed

text \<open>What the kernel delivers in an iteration: bytes that are lines of printable characters.\<close>

definition plain_poll :: "poll \<Rightarrow> bool" where
  "plain_poll p \<longleftrightarrow> (\<forall>f bs. recv_ret p f = Some bs \<longrightarrow> plain_bytes bs) \<and> (\<forall>h. accept_host p = Some h \<longrightarrow> printable h)"

lemma feeding_read_client:
  assumes "reliable env" and "feeding f base s" and "i < length (clients s)" and "plain_bytes bs"
    and "read_client env i (Some bs) s = Inr (ok, s')"
  shows "feeding f base s'"
proof (cases "bs = []")
  case False
  then have p: "process_lines env i (append_bytes i (take 4096 bs) s) = Inr s'"
    using assms(5) by (auto simp: read_client_def elim!: and_then_InrE)
  have "plain_bytes (buffer (clients s ! i) @ take 4096 bs)"
    using assms(2-4) by (simp add: plain_bytes_append plain_bytes_take feeding_def clean_server_def)
  then have "feeding f base (append_bytes i (take 4096 bs) s)"
    unfolding append_bytes_def by (rule feeding_buffer [OF assms(2)])
  then show ?thesis by (rule feeding_process_lines [OF assms(1) _ p])
qed (use assms(2,5) in \<open>simp add: read_client_def\<close>)

lemma feeding_scan:
  assumes "reliable env" and "plain_poll p"
  shows "scan_clients env p fds idx acc s = Inr (ds, s') \<Longrightarrow> \<forall>j \<in> set idx. j < length (clients s) \<Longrightarrow>
    feeding f base s \<Longrightarrow> feeding f base s'"
proof (induction idx arbitrary: acc s)
  case (Cons j idx)
  have step: "feeding f base s'"
    if "read_client env j rc s = Inr (ok, t)" "scan_clients env p fds idx acc' t = Inr (ds, s')"
      "rc = recv_ret p (fd (clients s ! j))" for rc ok t acc'
  proof -
    have j: "j < length (clients s)" using Cons.prems(2) by simp
    have "feeding f base t"
    proof (cases rc)
      case (Some bs)
      then have "plain_bytes bs" using that(3) assms(2) by (simp add: plain_poll_def)
      then show ?thesis using feeding_read_client [OF assms(1) Cons.prems(3) j] that(1) Some by simp
    qed (use that(1) Cons.prems(3) in \<open>simp add: read_client_def\<close>)
    then show ?thesis
      using Cons.IH [OF that(2)] Cons.prems(2) keeps_server_fds(2) [OF read_client_keeps [OF j that(1)]] by simp
  qed
  show ?case
    using Cons.prems Cons.IH [of "acc @ [j]" s] Cons.IH [of acc s] step
    by (auto simp: Let_def elim!: and_then_InrE split: if_splits)
qed simp

lemma feeding_sub:
  assumes "feeding f base s" and "set cs \<subseteq> set (clients s)" and "distinct (map fd cs)" and "stream w = stream (net s)"
  shows "feeding f base (s\<lparr>net := w, clients := cs\<rparr>)"
proof -
  have "set (dashboards cs) \<subseteq> set (dashboards (clients s))" using assms(2) by (auto simp: dashboards_def)
  then show ?thesis using assms
    by (auto simp: feeding_def follows_def clean_server_def tables_ok_def distinct_fds_def subset_iff)
qed

lemma feeding_disconnect:
  assumes "feeding f base s"
  shows "feeding f base (disconnect_client j s)"
  unfolding disconnect_client_def
proof (rule feeding_sub [OF assms])
  show "set (take j (clients s) @ drop (Suc j) (clients s)) \<subseteq> set (clients s)"
    by (auto dest: in_set_takeD in_set_dropD)
  have "distinct (take j (map fd (clients s)) @ drop (Suc j) (map fd (clients s)))"
    using assms by (simp add: feeding_def distinct_fds_def set_take_disj_set_drop_if_distinct)
  then show "distinct (map fd (take j (clients s) @ drop (Suc j) (clients s)))" by (simp add: take_map drop_map)
  show "stream (close_socket Posix (fd (clients s ! j)) (net s)) = stream (net s)"
    by (simp add: close_socket_def stream_def fun_eq_iff)
qed

lemma feeding_disconnects: "feeding f base s \<Longrightarrow> feeding f base (fold disconnect_client ds s)"
  by (induction ds arbitrary: s) (simp_all add: feeding_disconnect)

lemma feeding_accept:
  assumes "feeding f base s" and "accept_ret p \<notin> set (watched s)" and "plain_poll p"
  shows "feeding f base (accept_connection p s)"
proof -
  have "printable (endpoint_label (accept_host p) (accept_port p))"
    using assms(3) printable_numbers
    by (auto simp: endpoint_label_def plain_poll_def printable_Cons split: option.splits)
  moreover have "stream (open_socket (accept_ret p) (net s)) f = stream (net s) f"
    by (simp add: open_socket_def stream_def)
  ultimately show ?thesis
    using assms(1,2)
    by (auto simp: accept_connection_def feeding_def follows_def clean_server_def tables_ok_def distinct_fds_def
        dashboards_def watched_def plain_bytes_def)
qed

lemma feeding_iteration:
  assumes "reliable env" and "feeding f base s" and "plain_poll p" and "accept_ret p \<notin> set (watched s)"
    and "run_iteration env p s = Inr (Continue s')"
  shows "feeding f base s'"
proof (cases "ready p < 0")
  case True
  then show ?thesis using assms(2,5) by (auto simp: run_iteration_def split: if_splits)
next
  case False
  let ?s1 = "if FD_ISSET p (readable p) (watched s) (listen_fd s) then accept_connection p s else s"
  obtain ds s2 where scan: "scan_clients env p (watched s) [0..<length (clients ?s1)] [] ?s1 = Inr (ds, s2)"
      and s': "s' = fold disconnect_client (rev ds) s2"
    using assms(5) False by (auto simp: run_iteration_def Let_def elim!: and_then_InrE split: if_splits)
  have "feeding f base ?s1" using assms(2) feeding_accept [OF assms(2,4,3)] by simp
  then have "feeding f base s2" using feeding_scan [OF assms(1,3) scan] by simp
  then show ?thesis unfolding s' by (rule feeding_disconnects)
qed

end
