(* ===== verification/Dashboard_Mirror.thy ===== *)
theory Dashboard_Mirror
  imports Server_Feed
begin

text \<open>
  The server and a dashboard together. Whatever the clients of the server send, a dashboard that is
  registered when the last byte is read has a copy of the server's table of latest reports and of its rules,
  however the bytes sent to it are cut on the way.
\<close>

section \<open>Runs of the event loop\<close>

text \<open>
  The state after iterations that answer the listed reports of the kernel; \<open>None\<close> when an
  iteration ends the process or the loop, or when \<^verbatim>\<open>accept\<close> returns a descriptor that
  is open.
\<close>

fun serve :: "env \<Rightarrow> poll list \<Rightarrow> MonitorServer \<Rightarrow> MonitorServer option" where
  "serve env [] s = Some s"
| "serve env (p # ps) s =
     (if accept_ret p \<in> set (watched s) then None
      else case run_iteration env p s of Inr (Continue t) \<Rightarrow> serve env ps t | _ \<Rightarrow> None)"

lemma feeding_serve:
  assumes "reliable env" and "serve env ps s = Some s'" and "feeding f base s" and "\<forall>p \<in> set ps. plain_poll p"
  shows "feeding f base s'"
  using assms(2-4)
proof (induction ps arbitrary: s)
  case (Cons p ps)
  obtain t where t: "accept_ret p \<notin> set (watched s)" "run_iteration env p s = Inr (Continue t)"
      "serve env ps t = Some s'"
    using Cons.prems(1) by (auto split: if_splits sum.splits loop_state.splits)
  have "feeding f base t" using feeding_iteration [OF assms(1) Cons.prems(2) _ t(1,2)] Cons.prems(3) by simp
  then show ?case using Cons.IH [OF t(3)] Cons.prems(3) by simp
qed simp

lemma feeding_start:
  assumes "server_ok s" and "clean_server s" and "f \<notin> set (dashboards (clients s))"
  shows "feeding f (stream (net s) f) s"
proof -
  have "follows f (stream (net s) f) s"
    unfolding follows_def using assms(3) by (intro exI [of _ "[]"]) simp
  then show ?thesis using assms(1,2) by (simp add: feeding_def server_ok_def sockets_ok_def watched_def distinct_fds_def)
qed

section \<open>The dashboard reads the messages\<close>

lemma event_codes_bytes:
  assumes "\<forall>e \<in> set es. printable_event e"
  shows "py (unlines (map event_line es)) = event_codes es" and "ascii (unlines (map event_line es))"
proof -
  have line: "render (event_text e) = py (event_line e)" "ascii (event_line e)" if "e \<in> set es" for e
  proof -
    have p: "printable (event_line e)" using assms that printable_event_line by blast
    then show "ascii (event_line e)" by (force simp: ascii_def printable_def)
    have "utf8_decode (event_line e) = Some (render (event_text e))"
      using event_prints [OF printable_valid_event] assms that by (simp add: prints_def)
    then show "render (event_text e) = py (event_line e)" using utf8_ascii [OF \<open>ascii (event_line e)\<close>] by simp
  qed
  show "py (unlines (map event_line es)) = event_codes es"
    using line(1) by (induction es) (simp_all add: event_codes_def)
  show "ascii (unlines (map event_line es))" using line(2) by (induction es) (auto simp: ascii_def)
qed

lemma dashboard_reads_events:
  assumes "\<forall>e \<in> set es. printable_event e" and "receiving c" and "py_buffer c = []"
    and "chunks_of chunks (unlines (map event_line es))"
  shows "fold (run_step denv) (map (\<lambda>ch. Received (Data ch)) chunks) c = c\<lparr>dash := feed denv es (dash c)\<rparr>"
proof -
  have "consume_lines denv (event_codes es) (dash c) = (None, [], feed denv es (dash c))"
    using assms(1) printable_valid_event by (intro consume_events) blast
  then show ?thesis
    using receive_chunks [OF assms(2) event_codes_bytes(2) [OF assms(1)] assms(4)] assms(3)
    by (simp add: event_codes_bytes(1) [OF assms(1)])
qed

section \<open>Rules and alerts\<close>

text \<open>What a message does to the rules and the alerts a dashboard shows.\<close>

definition rules_json :: "AlertRule list \<Rightarrow> json" where
  "rules_json rs = JArray (map (meaning \<circ> rule_item_text) rs)"

fun alerts_of :: "server_event \<Rightarrow> json list" where
  "alerts_of (Alert a) = [meaning (alert_text a)]"
| "alerts_of e = []"

lemma last_n_short [simp]: "length xs \<le> n \<Longrightarrow> last_n n xs = xs"
  by (simp add: last_n_def)

lemma last_n_append: "last_n n (last_n n xs @ ys) = last_n n (xs @ ys)"
  by (cases "length xs \<le> n") (auto simp: last_n_def add.commute)

lemma event_rules_alerts:
  fixes denv :: dash_env and e :: server_event and d :: dashboard
  defines "d' \<equiv> snd (dash_event denv (meaning (event_text e)) d)"
  shows "state_rules d' = (case told_rules e None of Some rs \<Rightarrow> rules_json rs | None \<Rightarrow> state_rules d)"
    and "state_alerts d' = (if alerts_of e = [] then state_alerts d else last_n 50 (state_alerts d @ alerts_of e))"
proof -
  have noted: "state_rules (noted denv d) = state_rules d" "state_alerts (noted denv d) = state_alerts d"
    by (simp_all add: noted_def utc_timestamp_def read_time_def Let_def)
  have "state_rules d' = (case told_rules e None of Some rs \<Rightarrow> rules_json rs | None \<Rightarrow> state_rules d) \<and>
      state_alerts d' = (if alerts_of e = [] then state_alerts d else last_n 50 (state_alerts d @ alerts_of e))"
  proof (cases e)
    case (Metric m)
    obtain m' where m': "meaning (metric_text m) = JObject m'" "map_of m' (py ''host'') = Some (JString (text_of (ms_host m)))"
      using meaning_metric by blast
    have "meaning (event_text e) = JObject [(py ''type'', JString (py ''metric'')), (py ''data'', JObject m')]"
      using m'(1) by (simp add: Metric metric_event_text_def dict_of_distinct del: py_simps)
    then show ?thesis using m' noted
      by (simp add: d'_def dash_event_types get_or_def handle_metric_def host_key_def Metric Let_def del: py_simps)
  next
    case (Snapshot t now)
    have "meaning (event_text e) = JObject [(py ''type'', JString (py ''snapshot'')),
        (py ''timestamp'', JString (py (iso_timestamp now))),
        (py ''metrics'', JArray (map (\<lambda>m. meaning (metric_text m)) (map snd (ordered t))))]"
      by (simp add: Snapshot snapshot_event_text_def dict_of_distinct comp_def del: py_simps)
    then show ?thesis
      using metrics_by_host_reports [of "map snd (ordered t)" "[]"] noted
      by (simp add: d'_def dash_event_types get_or_def handle_snapshot_def Snapshot comp_def del: py_simps)
  next
    case (Alert a)
    have "meaning (event_text e) = JObject [(py ''type'', JString (py ''alert'')), (py ''data'', meaning (alert_text a))]"
      by (simp add: Alert alert_event_text_def dict_of_distinct del: py_simps)
    moreover have "state_rules (snd (upload_alert denv v x)) = state_rules x"
        "state_alerts (snd (upload_alert denv v x)) = state_alerts x" for v x
      using same_state_upload [of x denv v] by (simp_all add: same_state_def)
    ultimately show ?thesis
      using noted by (simp add: d'_def dash_event_types get_or_def handle_alert_def Alert Let_def case_prod_unfold del: py_simps)
  qed (use noted in \<open>simp_all add: d'_def chat_event_text_def ack_event_text_def error_event_text_def
      rules_event_text_def dict_of_distinct dash_event_types get_or_def append_chat_def rules_json_def comp_def del: py_simps\<close>)
  then show "state_rules d' = (case told_rules e None of Some rs \<Rightarrow> rules_json rs | None \<Rightarrow> state_rules d)"
      "state_alerts d' = (if alerts_of e = [] then state_alerts d else last_n 50 (state_alerts d @ alerts_of e))" by simp_all
qed

lemma told_rules_default:
  "fold told_rules es (Some rs) = (case fold told_rules es None of Some x \<Rightarrow> Some x | None \<Rightarrow> Some rs)"
proof (induction es arbitrary: rs)
  case (Cons e es)
  then show ?case by (cases e) (auto split: option.splits)
qed simp

lemma feed_rules:
  "state_rules (feed denv es d) = (case fold told_rules es None of Some rs \<Rightarrow> rules_json rs | None \<Rightarrow> state_rules d)"
proof (induction es arbitrary: d)
  case (Cons e es)
  let ?d = "snd (dash_event denv (meaning (event_text e)) d)"
  show ?case
    using Cons.IH [of ?d] event_rules_alerts(1) [of denv e d] told_rules_default [of es] by (cases "told_rules e None") (auto split: option.splits)
qed simp

lemma feed_alerts:
  "length (state_alerts d) \<le> 50 \<Longrightarrow>
    state_alerts (feed denv es d) = last_n 50 (state_alerts d @ concat (map alerts_of es))"
proof (induction es arbitrary: d)
  case (Cons e es)
  let ?d = "snd (dash_event denv (meaning (event_text e)) d)"
  have "state_alerts ?d = last_n 50 (state_alerts d @ alerts_of e)"
    using event_rules_alerts(2) [of denv e d] Cons.prems by simp
  then show ?case using Cons.IH [of ?d] by (simp add: last_n_append)
qed simp

lemma registered_mirror:
  fixes denv :: dash_env
  assumes "reliable env" and "server_ok s" and "clean_server s" and "f \<notin> set (dashboards (clients s))"
    and "\<forall>p \<in> set ps. plain_poll p" and "serve env ps s = Some s'" and "f \<in> set (dashboards (clients s'))"
    and "stream (net s') f = stream (net s) f @ sent" and "chunks_of chunks sent"
    and "receiving c" and "py_buffer c = []"
  defines "c' \<equiv> fold (run_step denv) (map (\<lambda>ch. Received (Data ch)) chunks) c"
  shows "receiving c'" and "py_buffer c' = []" and "mirrors (state_metrics (dash c')) (latest_metrics s')"
    and "state_rules (dash c') = rules_json (alert_rules s')"
proof -
  have "feeding f (stream (net s) f) s'"
    using feeding_serve [OF assms(1,6) feeding_start [OF assms(2-4)] assms(5)] .
  then obtain es where "sent = unlines (map event_line es)" "\<forall>e \<in> set es. printable_event e"
      "\<forall>T. mirrors (fold table_after es T) (latest_metrics s')" "\<forall>t. fold told_rules es t = Some (alert_rules s')"
    using assms(7,8) by (auto simp: feeding_def follows_def)
  then show "receiving c'" "py_buffer c' = []" "mirrors (state_metrics (dash c')) (latest_metrics s')"
      "state_rules (dash c') = rules_json (alert_rules s')"
    using dashboard_reads_events [of es c chunks denv] assms(9-11) feed_effect feed_rules [of denv es "dash c"]
    by (simp_all add: c'_def)
qed

text \<open>
  C4: A dashboard mirrors the server: whatever lines of printable text the clients send, from the time a
  connection was no dashboard until it is one, the dashboard that receives all bytes sent to it, cut into
  arbitrary chunks, is still connected, has handled every message, and has the server's latest report of
  every host that has a name, and no other, and the server's rules.
\<close>

theorem dashboard_mirrors_server:
  assumes "reliable env" and "server_ok s" and "clean_server s" and "f \<notin> set (dashboards (clients s))"
    and "\<forall>p \<in> set ps. plain_poll p" and "serve env ps s = Some s'" and "f \<in> set (dashboards (clients s'))"
    and "stream (net s') f = stream (net s) f @ sent" and "chunks_of chunks sent"
    and "receiving c" and "py_buffer c = []"
  shows "let c' = fold (run_step denv) (map (\<lambda>ch. Received (Data ch)) chunks) c in
    receiving c' \<and> py_buffer c' = [] \<and> mirrors (state_metrics (dash c')) (latest_metrics s') \<and>
    state_rules (dash c') = rules_json (alert_rules s')"
  using registered_mirror [OF assms, of denv] by (simp add: Let_def)

section \<open>Example\<close>

text \<open>A server that has one report; the client on socket 5 registers as the dashboard does.\<close>

definition reported_server :: MonitorServer where
  "reported_server = (sample_server Unknown)\<lparr>latest_metrics := [(''web1'', cpu_report ''web1'' 95)],
     net := initial_world\<lparr>opened := [3, 5]\<rparr>\<rparr>"

definition register_poll :: poll where
  "register_poll = \<lparr>ready = 1, interrupted = False, readable = (\<lambda>f. f = 5), exceptional = (\<lambda>_. False),
     accept_ret = 4, accept_host = None, accept_port = 0, recv_ret = (\<lambda>_. Some dash_register)\<rparr>"

definition register_text :: cpp_string where
  "register_text = ''{\"type\": \"register\", \"role\": \"dashboard\", \"host\": \"flask-dashboard\"}''"

lemma register_text_fields:
  "dash_register = register_text @ [CHR_nl]" "trim register_text = register_text" "nl_free register_text"
  "printable register_text" "length dash_register \<le> 4096" "register_text \<noteq> []"
  "str_field register_text ''type'' [] = ''register''" "lower_copy (str_field register_text ''role'' []) = ''dashboard''"
proof -
  show "trim register_text = register_text" "str_field register_text ''type'' [] = ''register''"
    "lower_copy (str_field register_text ''role'' []) = ''dashboard''" by code_simp+
qed (simp_all add: dash_register_def register_text_def printable_Cons)

lemma reported_server_facts:
  "clients reported_server = [sample_client Unknown]" "listen_fd reported_server = 3"
  "latest_metrics reported_server = [(''web1'', cpu_report ''web1'' 95)]" "alert_rules reported_server = []"
  "active_alerts reported_server = []" "net reported_server = initial_world\<lparr>opened := [3, 5]\<rparr>"
  by (simp_all add: reported_server_def sample_server_def)

lemma cpu_report_printable: "printable_metric (cpu_report ''web1'' 95)"
proof -
  have "is_finite dbl_zero" "is_finite (dbl_of_nat 95)" by (simp_all add: dbl_evals is_finite_def)
  then show ?thesis by (simp add: printable_metric_def cpu_report_def default_MetricSnapshot_def printable_Cons)
qed

lemma reported_server_ok: "server_ok reported_server" "clean_server reported_server"
  using cpu_report_printable
  by (simp_all add: server_ok_def tables_ok_def balanced_def sockets_ok_def buffers_ok_def clean_server_def watched_def
      reported_server_facts sample_client_def initial_world_def distinct_keys_def cpu_report_def is_socket_valid_def
      plain_bytes_def printable_Cons)

lemma register_iteration:
  "\<exists>s'. serve steady_env [register_poll] reported_server = Some s' \<and> 5 \<in> set (dashboards (clients s')) \<and>
     latest_metrics s' = latest_metrics reported_server"
proof -
  let ?s1 = "append_bytes 0 dash_register reported_server"
  let ?s2 = "set_buffer 0 [] (handle_register steady_env 0 register_text ?s1)"
  have c: "clients ?s1 = [(sample_client Unknown)\<lparr>buffer := dash_register\<rparr>]"
    by (simp add: append_bytes_def reported_server_facts sample_client_def)
  have "process_lines steady_env 0 ?s1 =
      map_result (set_buffer 0 []) (each_line (handle_if_nonempty steady_env 0) (map trim [register_text]) ?s1)"
    by (rule conn.process_lines_spec) (simp_all add: reported_server_facts register_text_fields(1,3) sample_client_def)
  then have "process_lines steady_env 0 ?s1 = Inr ?s2"
    by (simp add: register_text_fields handle_if_nonempty_def handle_line_def)
  then have "read_client steady_env 0 (Some dash_register) reported_server = Inr (True, ?s2)"
    using register_text_fields(5) by (auto simp: read_client_def take_all) (simp add: register_text_fields(1))
  then have "serve steady_env [register_poll] reported_server = Some ?s2"
    by (simp add: run_iteration_def register_poll_def watched_def reported_server_facts sample_client_def fd_sets_ok_def
        FD_SETSIZE_def FD_ISSET_def)
  moreover have "5 \<in> set (dashboards (clients ?s2))"
    by (simp add: handle_register_clients c new_role_def register_text_fields(8) dashboards_def sample_client_def)
  moreover have "latest_metrics ?s2 = latest_metrics reported_server"
    by (simp add: set_buffer_def set_client_def append_bytes_def)
  ultimately show ?thesis by blast
qed

lemma single_bytes: "chunks_of (map (\<lambda>c. [c]) s) s"
proof -
  have "concat (map (\<lambda>c. [c]) s) = s" by (induction s) auto
  then show ?thesis by (auto simp: chunks_of_def)
qed

theorem dashboard_mirrors_server_example:
  "\<exists>s'. serve steady_env [register_poll] reported_server = Some s' \<and>
     (let c = registered_connector;
          c' = fold (run_step calm_env) (map (\<lambda>ch. Received (Data ch)) (map (\<lambda>b. [b]) (stream (net s') 5))) c
      in receiving c' \<and>
         map_of (state_metrics (dash c')) (py ''web1'') = Some (meaning (metric_text (cpu_report ''web1'' 95))))"
proof -
  obtain s' where s': "serve steady_env [register_poll] reported_server = Some s'" "5 \<in> set (dashboards (clients s'))"
      "latest_metrics s' = latest_metrics reported_server"
    using register_iteration by blast
  have start: "5 \<notin> set (dashboards (clients reported_server))" "stream (net reported_server) 5 = []"
    by (simp_all add: reported_server_facts sample_client_def dashboards_def stream_def initial_world_def)
  have plain: "\<forall>p \<in> set [register_poll]. plain_poll p"
    using plain_bytes_printable [OF register_text_fields(4)]
    by (simp add: plain_poll_def register_poll_def register_text_fields(1) plain_bytes_append) (simp add: plain_bytes_def)
  have "map_of (copied (latest_metrics s')) (py ''web1'') = Some (meaning (metric_text (cpu_report ''web1'' 95)))"
    by (simp add: s'(3) reported_server_facts copied_def)
  then show ?thesis
    using dashboard_mirrors_server [OF reliable_steady_env reported_server_ok start(1) plain s'(1,2) _ single_bytes,
        where sent = "stream (net s') 5" and c = registered_connector and denv = calm_env] s'(1) start(2)
    by (auto simp: Let_def mirrors_def)
qed

end
