(* ===== verification/Server_Order.thy ===== *)
theory Server_Order
  imports Line_Protocol Dashboard_Mirror
begin

text \<open>
  The event loop refines the server of whole lines. Every run of \<open>run_iteration\<close> is a run of that
  specification, in which each connection says the lines of the bytes it delivered, in their order.
  Handlers neither read nor write any buffer, so a state with its buffers forgotten is a state
  of the specification.
\<close>

section \<open>Handlers ignore every buffer\<close>

lemma set_client_other [commutes]:
  "i \<noteq> j \<Longrightarrow> set_client i c (set_buffer j b s) = set_buffer j b (set_client i c s)"
  by (simp add: set_buffer_def set_client_def list_update_swap)

lemma nth_set_buffer_other [simp]: "i \<noteq> j \<Longrightarrow> clients (set_buffer j b s) ! i = clients s ! i"
  by simp

lemma handle_register_other [commutes]:
  "i \<noteq> j \<Longrightarrow> handle_register env i line (set_buffer j b s) = set_buffer j b (handle_register env i line s)"
  by (simp add: handle_register_def Let_def case_prod_unfold commutes del: set_buffer_clients)

lemma handle_chat_other [commutes]:
  "i \<noteq> j \<Longrightarrow> handle_chat env i line (set_buffer j b s) = set_buffer j b (handle_chat env i line s)"
  by (simp add: handle_chat_def Let_def case_prod_unfold commutes del: set_buffer_clients)

lemma handle_metrics_other [commutes]:
  assumes "i \<noteq> j"
  shows "handle_metrics env i line (set_buffer j b s) = map_result (set_buffer j b) (handle_metrics env i line s)"
  using assms
  by (cases "parse_metrics line (declared_host (clients s ! i)) (iso_timestamp (fst (server_clock env s)))")
    (simp_all add: handle_metrics_def Let_def case_prod_unfold commutes del: set_buffer_clients clock_frame(1))

lemma handle_line_any_buffer:
  "handle_line env i line (set_buffer j b s) = map_result (set_buffer j b) (handle_line env i line s)"
proof (cases "i = j")
  case False
  then show ?thesis by (simp add: handle_line_def Let_def commutes del: set_buffer_clients)
qed (simp add: handle_line_set_buffer)

section \<open>Forgetting the buffers\<close>

definition forget :: "MonitorServer \<Rightarrow> MonitorServer" where
  "forget s = s\<lparr>clients := map (\<lambda>c. c\<lparr>buffer := []\<rparr>) (clients s)\<rparr>"

lemma forget_simps [simp]:
  "listen_fd (forget s) = listen_fd s" "latest_metrics (forget s) = latest_metrics s"
  "alert_rules (forget s) = alert_rules s" "active_alerts (forget s) = active_alerts s" "net (forget s) = net s"
  "length (clients (forget s)) = length (clients s)" "map fd (clients (forget s)) = map fd (clients s)"
  "watched (forget s) = watched s"
  "i < length (clients s) \<Longrightarrow> clients (forget s) ! i = (clients s ! i)\<lparr>buffer := []\<rparr>"
  by (simp_all add: forget_def watched_def comp_def)

lemma forget_set_buffer [simp]: "forget (set_buffer i b s) = forget s"
proof -
  have "map (\<lambda>c. c\<lparr>buffer := []\<rparr>) ((clients s)[i := (clients s ! i)\<lparr>buffer := b\<rparr>]) = map (\<lambda>c. c\<lparr>buffer := []\<rparr>) (clients s)"
    by (rule map_list_update_same) simp
  then show ?thesis by (simp add: forget_def set_buffer_def set_client_def)
qed

lemma forget_fields:
  assumes "forget s = forget t" and "clients s = map (\<lambda>c. c\<lparr>buffer := []\<rparr>) (clients t)"
  shows "s = forget t"
proof (rule server_eqI)
  show "clients s = clients (forget t)" using assms(2) by (simp add: forget_def)
qed (metis assms(1) forget_simps(1-5))+

lemma forget_fold: "fold (\<lambda>j. set_buffer j []) [0..<length (clients s)] s = forget s"
proof -
  let ?e = "\<lambda>c. c\<lparr>buffer := []\<rparr>" and ?f = "\<lambda>n. fold (\<lambda>j. set_buffer j []) [0..<n] s"
  have "clients (?f n) = map ?e (take n (clients s)) @ drop n (clients s)"
    if "n \<le> length (clients s)" for n
    using that
  proof (induction n)
    case (Suc n)
    then have n: "n < length (clients s)" and IH: "clients (?f n) = map ?e (take n (clients s)) @ drop n (clients s)" by simp_all
    have d: "drop n (clients s) = clients s ! n # drop (Suc n) (clients s)" using Cons_nth_drop_Suc [OF n] by simp
    have len: "length (map ?e (take n (clients s))) = n" using n by simp
    have "clients (?f (Suc n)) = (clients (?f n))[n := (clients (?f n) ! n)\<lparr>buffer := []\<rparr>]" by simp
    also have "\<dots> = map ?e (take n (clients s)) @ ?e (clients s ! n) # drop (Suc n) (clients s)"
      unfolding IH d using len by (metis list_update_length nth_append_length)
    finally show ?case using n by (simp add: take_Suc_conv_app_nth)
  qed simp
  moreover have "forget (fold (\<lambda>j. set_buffer j []) js s) = forget s" for js
    by (induction js arbitrary: s) simp_all
  ultimately show ?thesis by (simp add: forget_fields)
qed

lemma fold_buffers_line:
  "handle_line env i line (fold (\<lambda>j. set_buffer j []) js s) =
    map_result (fold (\<lambda>j. set_buffer j []) js) (handle_line env i line s)"
proof (induction js arbitrary: s)
  case Nil
  then show ?case by (cases "handle_line env i line s") simp_all
next
  case (Cons j js)
  then show ?case by (cases "handle_line env i line s") (simp_all add: handle_line_any_buffer)
qed

lemma forget_line: "handle_line env i line s = Inr t \<Longrightarrow> handle_line env i line (forget s) = Inr (forget t)"
  using fold_buffers_line [of env i line "[0..<length (clients s)]" s] handle_line_length [of env i line s t] forget_fold [of s] forget_fold [of t] by simp

section \<open>The buffers of a state\<close>

definition holds :: "(socket_t \<Rightarrow> cpp_string) \<Rightarrow> MonitorServer \<Rightarrow> bool" where
  "holds B s \<longleftrightarrow> (\<forall>c \<in> set (clients s). buffer c = B (fd c))"

text \<open>A part of a run of the server is a run of the specification over what it spoken.\<close>

definition implements :: "env \<Rightarrow> input list \<Rightarrow> MonitorServer \<Rightarrow> MonitorServer \<Rightarrow> bool" where
  "implements env ins s s' \<longleftrightarrow>
     (\<forall>B. holds B s \<longrightarrow> line_run env (forget s) (spoken B ins) (forget s') \<and> holds (waiting B ins) s')"

lemma implements_refl: "implements env [] s s"
  by (simp add: implements_def)

lemma implements_trans [trans]:
  assumes "implements env a s t" and "implements env b t u"
  shows "implements env (a @ b) s u"
  unfolding implements_def
proof (intro allI impI)
  fix B
  assume B: "holds B s"
  have 1: "line_run env (forget s) (spoken B a) (forget t)" "holds (waiting B a) t"
    using assms(1) B by (simp_all add: implements_def)
  have 2: "line_run env (forget t) (spoken (waiting B a) b) (forget u)" "holds (waiting (waiting B a) b) u"
    using assms(2) 1(2) by (simp_all add: implements_def)
  show "line_run env (forget s) (spoken B (a @ b)) (forget u) \<and> holds (waiting B (a @ b)) u"
    using 1(1) 2 by (auto simp: spoken_append waiting_append line_run_append)
qed

section \<open>Each part of an iteration\<close>

lemma handled_lines_run:
  assumes "i < length (clients s)" and "each_line (handle_line env i) ls s = Inr t"
  shows "line_run env (forget s) (map (Says (fd (clients s ! i))) ls) (forget t)"
  using assms
proof (induction ls arbitrary: s)
  case (Cons l ls)
  obtain s1 where s1: "handle_line env i l s = Inr s1" "each_line (handle_line env i) ls s1 = Inr t"
    using Cons.prems(2) by (auto elim!: and_then_InrE)
  have keep: "map fd (clients s1) = map fd (clients s)" by (rule handle_line_clients [OF s1(1)]) simp
  then have i: "i < length (clients s1)" and f: "fd (clients s1 ! i) = fd (clients s ! i)"
    using Cons.prems(1) by (metis length_map, metis length_map nth_map)
  have "line_step env (forget s) (Says (fd (clients s ! i)) l) (forget s1)"
    using Cons.prems(1) forget_line [OF s1(1)] by (intro says [of i]) simp_all
  then show ?case using Cons.IH [OF i s1(2)] f by (auto simp: line_run_Cons)
qed simp

lemma each_line_holds:
  assumes "each_line (handle_line env i) ls s = Inr t"
  shows "map (\<lambda>c. (fd c, buffer c)) (clients t) = map (\<lambda>c. (fd c, buffer c)) (clients s)"
  using assms
proof (induction ls arbitrary: s)
  case (Cons l ls)
  obtain s1 where s1: "handle_line env i l s = Inr s1" "each_line (handle_line env i) ls s1 = Inr t"
    using Cons.prems by (auto elim!: and_then_InrE)
  have "map (\<lambda>c. (fd c, buffer c)) (clients s1) = map (\<lambda>c. (fd c, buffer c)) (clients s)"
    by (rule handle_line_clients [OF s1(1)]) simp
  then show ?case using Cons.IH [OF s1(2)] by simp
qed simp

lemma holds_map: "holds B s \<longleftrightarrow> (\<forall>(f, b) \<in> set (map (\<lambda>c. (fd c, buffer c)) (clients s)). b = B f)"
  by (auto simp: holds_def)

lemma read_client_messages:
  assumes "i < length (clients s)" and "read_client env i (Some data) s = Inr (ok, s')" and "data \<noteq> []"
  defines "b \<equiv> buffer (clients s ! i) @ take 4096 data"
  shows "\<exists>t. each_line (handle_line env i) (messages b) s = Inr t \<and> s' = set_buffer i (snd (split_lines b)) t"
proof -
  let ?ls = "fst (split_lines b)" and ?r = "snd (split_lines b)" and ?s1 = "append_bytes i (take 4096 data) s"
  have p: "process_lines env i ?s1 = Inr s'" using assms(2,3) by (auto simp: read_client_def elim!: and_then_InrE)
  have "process_lines env i ?s1 = map_result (set_buffer i ?r) (each_line (handle_if_nonempty env i) (map trim ?ls) ?s1)"
    using assms(1) split_lines_nl_free [of b] split_lines_join [of b]
    by (intro conn.process_lines_spec) (simp_all add: b_def)
  also have "\<dots> = map_result (set_buffer i ?r) (each_line (handle_if_nonempty env i) (map trim ?ls) s)"
    unfolding append_bytes_def conn.each_line_put by (cases "each_line (handle_if_nonempty env i) (map trim ?ls) s") simp_all
  finally show ?thesis using p by (cases "each_line (handle_line env i) (messages b) s") (simp_all add: each_line_nonempty messages_def)
qed

definition arrival :: "socket_t \<Rightarrow> cpp_string option \<Rightarrow> input list" where
  "arrival f rc = (case rc of Some bs \<Rightarrow> if bs = [] then [] else [Receives f (take 4096 bs)] | None \<Rightarrow> [])"

lemma holds_updated:
  assumes "holds B s" and "distinct_fds s" and "i < length (clients s)"
    and "map (\<lambda>c. (fd c, buffer c)) (clients t) = map (\<lambda>c. (fd c, buffer c)) (clients s)"
  shows "holds (B(fd (clients s ! i) := r)) (set_buffer i r t)"
proof -
  let ?p = "\<lambda>c. (fd c, buffer c)"
  have len: "length (clients t) = length (clients s)" using assms(4) by (metis length_map)
  have nth: "?p (clients t ! j) = ?p (clients s ! j)" if "j < length (clients s)" for j
    using arg_cong [OF assms(4), of "\<lambda>xs. xs ! j"] that len by simp
  have dist: "j = i" if "j < length (clients s)" "fd (clients s ! j) = fd (clients s ! i)" for j
    using nth_eq_iff_index_eq [of "map fd (clients s)" j i] assms(2,3) that by (simp add: distinct_fds_def)
  show ?thesis
    unfolding holds_def all_set_conv_all_nth
  proof (intro allI impI)
    fix j
    assume "j < length (clients (set_buffer i r t))"
    then have j: "j < length (clients s)" using len by simp
    show "buffer (clients (set_buffer i r t) ! j) = (B(fd (clients s ! i) := r)) (fd (clients (set_buffer i r t) ! j))"
      using nth [OF j] nth [OF assms(3)] dist [OF j] assms(1,3) j len by (cases "j = i") (auto simp: holds_def)
  qed
qed

lemma read_client_implements:
  assumes "distinct_fds s" and "i < length (clients s)" and "read_client env i rc s = Inr (ok, s')"
  shows "implements env (arrival (fd (clients s ! i)) rc) s s'"
proof (cases "rc = None \<or> rc = Some []")
  case True
  then show ?thesis using assms(3) by (auto simp: read_client_def arrival_def implements_refl)
next
  case False
  then obtain data where data: "rc = Some data" "data \<noteq> []" by auto
  let ?f = "fd (clients s ! i)" and ?b = "buffer (clients s ! i) @ take 4096 data"
  obtain t where t: "each_line (handle_line env i) (messages ?b) s = Inr t" "s' = set_buffer i (snd (split_lines ?b)) t"
    using read_client_messages [OF assms(2) _ data(2)] assms(3) data(1) by blast
  show ?thesis
    unfolding implements_def
  proof (intro allI impI)
    fix B
    assume B: "holds B s"
    then have b: "B ?f @ take 4096 data = ?b" using assms(2) by (simp add: holds_def)
    show "line_run env (forget s) (spoken B (arrival ?f rc)) (forget s') \<and> holds (waiting B (arrival ?f rc)) s'"
      using handled_lines_run [OF assms(2) t(1)] holds_updated [OF B assms(1,2) each_line_holds [OF t(1)]]
      by (simp add: data arrival_def b t(2) fun_upd_def)
  qed
qed

text \<open>What one socket contributes to an iteration.\<close>

definition delivery :: "poll \<Rightarrow> socket_t list \<Rightarrow> socket_t \<Rightarrow> input list" where
  "delivery p fds f =
     (if \<not> FD_ISSET p (exceptional p) fds f \<and> FD_ISSET p (readable p) fds f then arrival f (recv_ret p f) else [])"

lemma scan_implements:
  assumes "scan_clients env p fds idx acc s = Inr (ds, s')" and "\<forall>j \<in> set idx. j < length (clients s)" and "distinct_fds s"
  shows "implements env (concat (map (\<lambda>j. delivery p fds (fd (clients s ! j))) idx)) s s'"
  using assms
proof (induction idx arbitrary: acc s)
  case Nil
  then show ?case by (simp add: implements_refl)
next
  case (Cons j idx)
  let ?f = "fd (clients s ! j)"
  have j: "j < length (clients s)" using Cons.prems(2) by simp
  show ?case
  proof (cases "\<not> FD_ISSET p (exceptional p) fds ?f \<and> FD_ISSET p (readable p) fds ?f")
    case True
    then obtain ok t where t: "read_client env j (recv_ret p ?f) s = Inr (ok, t)"
        and rest: "scan_clients env p fds idx (if ok then acc else acc @ [j]) t = Inr (ds, s')"
      using Cons.prems(1) by (auto simp: Let_def elim!: and_then_InrE)
    have keep: "keeps_server s t" using j t by (rule read_client_keeps)
    then have "distinct_fds t" using Cons.prems(3) by (simp add: distinct_fds_def keeps_server_fds(1))
    then have "implements env (concat (map (\<lambda>j. delivery p fds (fd (clients t ! j))) idx)) t s'"
      using Cons.IH [OF rest] Cons.prems(2) keeps_server_fds(2) [OF keep] by simp
    moreover have "map (\<lambda>j. delivery p fds (fd (clients t ! j))) idx = map (\<lambda>j. delivery p fds (fd (clients s ! j))) idx"
      using Cons.prems(2) keeps_server_nth [OF keep] by simp
    moreover have "delivery p fds ?f = arrival ?f (recv_ret p ?f)" using True by (simp add: delivery_def)
    ultimately show ?thesis
      using implements_trans [OF read_client_implements [OF Cons.prems(3) j t]] by simp
  next
    case False
    then have "delivery p fds ?f = []" by (auto simp: delivery_def)
    moreover have "\<exists>acc'. scan_clients env p fds idx acc' s = Inr (ds, s')"
      using False Cons.prems(1) by (auto simp: Let_def split: if_splits)
    ultimately show ?thesis using Cons.IH Cons.prems(2,3) by auto
  qed
qed

lemma forget_disconnect: "i < length (clients s) \<Longrightarrow> forget (disconnect_client i s) = disconnect_client i (forget s)"
  by (simp add: forget_def disconnect_client_def take_map drop_map)

lemma disconnect_implements:
  assumes "i < length (clients s)"
  shows "implements env [Hangs_up (fd (clients s ! i))] s (disconnect_client i s)"
proof -
  have "line_step env (forget s) (Leaves (fd (clients s ! i))) (forget (disconnect_client i s))"
    unfolding forget_disconnect [OF assms] using assms by (intro leaves) simp_all
  moreover have "holds B (disconnect_client i s)" if "holds B s" for B
    using that by (auto simp: holds_def disconnect_client_def dest: in_set_takeD in_set_dropD)
  ultimately show ?thesis by (auto simp: implements_def line_run_Cons)
qed

lemma disconnects_implement:
  assumes "sorted_wrt (<) ds" and "\<forall>j \<in> set ds. j < length (clients s)"
  shows "implements env (map (\<lambda>j. Hangs_up (fd (clients s ! j))) (rev ds)) s (fold disconnect_client (rev ds) s)"
  using assms
proof (induction ds arbitrary: s rule: rev_induct)
  case Nil
  then show ?case by (simp add: implements_refl)
next
  case (snoc d ds)
  let ?s1 = "disconnect_client d s"
  have below: "\<forall>j \<in> set ds. j < d" and d: "d < length (clients s)"
    using snoc.prems by (auto simp: sorted_wrt_append)
  have "implements env (map (\<lambda>j. Hangs_up (fd (clients ?s1 ! j))) (rev ds)) ?s1 (fold disconnect_client (rev ds) ?s1)"
    using snoc.prems below d by (intro snoc.IH) (auto simp: sorted_wrt_append disconnect_client_simps)
  moreover have "map (\<lambda>j. Hangs_up (fd (clients ?s1 ! j))) (rev ds) = map (\<lambda>j. Hangs_up (fd (clients s ! j))) (rev ds)"
    using below d by (auto simp: disconnect_client_simps nth_append)
  ultimately show ?case using implements_trans [OF disconnect_implements [OF d]] by simp
qed

lemma accept_implements:
  assumes "accepted p s" and "accept_ret p \<notin> set (watched s)"
  shows "implements env [Connects (accept_ret p) (endpoint_label (accept_host p) (accept_port p))] s (accept_connection p s)"
  unfolding implements_def
proof (intro allI impI)
  fix B
  assume B: "holds B s"
  let ?label = "endpoint_label (accept_host p) (accept_port p)"
  have "forget (accept_connection p s) = (forget s)\<lparr>net := open_socket (accept_ret p) (net (forget s)),
      clients := clients (forget s) @
        [\<lparr>fd = accept_ret p, role = Unknown, peer_label = ?label, declared_host = [], buffer = []\<rparr>]\<rparr>"
    using assms(1) by (simp add: forget_def accept_connection_def accepted_def)
  then have "line_step env (forget s) (Joins (accept_ret p) ?label) (forget (accept_connection p s))"
    using assms(2) joins [of "accept_ret p" "forget s" env ?label] by simp
  moreover have "holds (B(accept_ret p := [])) (accept_connection p s)"
    using B assms by (auto simp: holds_def accept_connection_def accepted_def watched_def image_iff)
  ultimately show "line_run env (forget s) (spoken B [Connects (accept_ret p) ?label]) (forget (accept_connection p s)) \<and>
      holds (waiting B [Connects (accept_ret p) ?label]) (accept_connection p s)"
    by (auto simp: line_run_Cons fun_upd_def)
qed

section \<open>An iteration, and a run\<close>

definition poll_inputs :: "poll \<Rightarrow> MonitorServer \<Rightarrow> input list" where
  "poll_inputs p s =
     (let fds = watched s in
      (if accepted p s then [Connects (accept_ret p) (endpoint_label (accept_host p) (accept_port p))] else []) @
      concat (map (\<lambda>c. delivery p fds (fd c)) (clients s)) @
      map (\<lambda>c. Hangs_up (fd c)) (rev (filter (\<lambda>c. doomed p fds (fd c)) (clients s))))"

lemma map_nth_all: "map (\<lambda>j. g (xs ! j)) [0..<length xs] = map g xs"
  by (rule nth_equalityI) simp_all

lemma iteration_implements:
  assumes "run_iteration env p s = Inr (Continue s')" and "server_ok s" and "accept_ret p \<notin> set (watched s)"
  shows "implements env (poll_inputs p s) s s'"
proof (cases "ready p < 0")
  case True
  then have "s' = s" using assms(1) by (auto simp: run_iteration_def split: if_splits)
  moreover have "poll_inputs p s = []"
    using True by (simp add: poll_inputs_def accepted_def delivery_def doomed_def FD_ISSET_def concat_eq_Nil_conv)
  ultimately show ?thesis by (simp add: implements_refl)
next
  case False
  let ?fds = "watched s" and ?s1 = "after_accept p s"
  have s1: "(if FD_ISSET p (readable p) ?fds (listen_fd s) then accept_connection p s else s) = ?s1"
    by (simp add: after_accept_def accepted_def accept_connection_def)
  obtain ds s2 where scan: "scan_clients env p ?fds [0..<length (clients ?s1)] [] ?s1 = Inr (ds, s2)"
      and s': "s' = fold disconnect_client (rev ds) s2"
    using assms(1) False by (auto simp: run_iteration_def s1 Let_def elim!: and_then_InrE split: if_splits)
  have ds: "ds = filter (\<lambda>j. doomed p ?fds (fd (clients ?s1 ! j))) [0..<length (clients ?s1)]"
      and keep: "keeps_server ?s1 s2"
    using scan_clients_result [OF scan] by simp_all
  have "distinct (watched ?s1)"
    using assms(2,3) by (auto simp: after_accept_watched server_ok_def sockets_ok_def)
  then have dist: "distinct_fds ?s1" by (simp add: distinct_fds_def watched_def)
  have cs: "clients ?s1 = clients s @ (if accepted p s then [last (clients ?s1)] else [])"
      "accepted p s \<Longrightarrow> fd (last (clients ?s1)) = accept_ret p"
    by (auto simp: after_accept_def accept_connection_def accepted_def)
  have new: "delivery p ?fds (accept_ret p) = []" "\<not> doomed p ?fds (accept_ret p)"
    using assms(3) by (simp_all add: delivery_def doomed_def FD_ISSET_def)
  have "implements env (if accepted p s then [Connects (accept_ret p) (endpoint_label (accept_host p) (accept_port p))] else [])
      s ?s1"
    using accept_implements [OF _ assms(3)] by (auto simp: after_accept_def implements_refl)
  also have "implements env (concat (map (\<lambda>j. delivery p ?fds (fd (clients ?s1 ! j))) [0..<length (clients ?s1)])) ?s1 s2"
    by (rule scan_implements [OF scan _ dist]) simp
  also have "implements env (map (\<lambda>j. Hangs_up (fd (clients s2 ! j))) (rev ds)) s2 s'"
    unfolding s' by (rule disconnects_implement) (simp_all add: ds sorted_wrt_filter keeps_server_fds(2) [OF keep])
  also have "map (\<lambda>j. Hangs_up (fd (clients s2 ! j))) (rev ds) =
      rev (map (\<lambda>c. Hangs_up (fd c)) (filter (\<lambda>c. doomed p ?fds (fd c)) (clients s)))"
  proof -
    have "map (\<lambda>j. Hangs_up (fd (clients s2 ! j))) ds = map (\<lambda>j. Hangs_up (fd (clients ?s1 ! j))) ds"
      using keeps_server_nth [OF keep] by (simp add: ds)
    also have "\<dots> = map (\<lambda>c. Hangs_up (fd c)) (filter (\<lambda>c. doomed p ?fds (fd c)) (clients ?s1))"
      unfolding ds by (rule map_nth_filter)
    also have "filter (\<lambda>c. doomed p ?fds (fd c)) (clients ?s1) = filter (\<lambda>c. doomed p ?fds (fd c)) (clients s)"
      by (subst cs(1)) (use cs(2) new in auto)
    finally show ?thesis by (simp only: rev_map [symmetric])
  qed
  also have "concat (map (\<lambda>j. delivery p ?fds (fd (clients ?s1 ! j))) [0..<length (clients ?s1)]) =
      concat (map (\<lambda>c. delivery p ?fds (fd c)) (clients s))"
  proof -
    have "map (\<lambda>j. delivery p ?fds (fd (clients ?s1 ! j))) [0..<length (clients ?s1)] =
        map (\<lambda>c. delivery p ?fds (fd c)) (clients ?s1)"
      by (rule map_nth_all)
    also have "concat \<dots> = concat (map (\<lambda>c. delivery p ?fds (fd c)) (clients s))"
      by (subst cs(1)) (use cs(2) new in auto)
    finally show ?thesis .
  qed
  finally show ?thesis by (simp only: poll_inputs_def Let_def rev_map append_assoc)
qed

fun serve_inputs :: "env \<Rightarrow> poll list \<Rightarrow> MonitorServer \<Rightarrow> input list" where
  "serve_inputs env [] s = []"
| "serve_inputs env (p # ps) s =
     poll_inputs p s @ (case run_iteration env p s of Inr (Continue t) \<Rightarrow> serve_inputs env ps t | _ \<Rightarrow> [])"

lemma serve_implements:
  assumes "serve env ps s = Some s'" and "server_ok s"
  shows "implements env (serve_inputs env ps s) s s'"
  using assms
proof (induction ps arbitrary: s)
  case Nil
  then show ?case by (simp add: implements_refl)
next
  case (Cons p ps)
  obtain t where t: "accept_ret p \<notin> set (watched s)" "run_iteration env p s = Inr (Continue t)"
      "serve env ps t = Some s'"
    using Cons.prems(1) by (auto split: if_splits sum.splits loop_state.splits)
  have "server_ok t" by (rule run_iteration_ok [OF t(2) Cons.prems(2) t(1)])
  from implements_trans [OF iteration_implements [OF t(2) Cons.prems(2) t(1)] Cons.IH [OF t(3) this]]
  show ?case by (simp add: t(2))
qed

definition buffer_of :: "MonitorServer \<Rightarrow> socket_t \<Rightarrow> cpp_string" where
  "buffer_of s f = (case List.find (\<lambda>c. fd c = f) (clients s) of Some c \<Rightarrow> buffer c | None \<Rightarrow> [])"

lemma holds_buffer_of:
  assumes "server_ok s"
  shows "holds (buffer_of s) s" and "nl_free (buffer_of s f)"
proof -
  have d: "distinct (map fd (clients s))" using assms by (simp add: server_ok_def sockets_ok_def watched_def)
  show "holds (buffer_of s) s"
    unfolding holds_def
  proof
    fix c
    assume c: "c \<in> set (clients s)"
    then have "List.find (\<lambda>c'. fd c' = fd c) (clients s) \<noteq> None" by (auto simp: find_None_iff)
    then obtain c' where f: "List.find (\<lambda>c'. fd c' = fd c) (clients s) = Some c'" by blast
    then have "c' \<in> set (clients s)" "fd c' = fd c" by (auto simp: find_Some_iff)
    then have "c' = c" using d c by (metis eq_key_imp_eq_value map_of_eqI distinct_map inj_onD)
    then show "buffer c = buffer_of s (fd c)" using f by (simp add: buffer_of_def)
  qed
  show "nl_free (buffer_of s f)"
  proof (cases "List.find (\<lambda>c. fd c = f) (clients s)")
    case (Some c)
    then have "c \<in> set (clients s)" by (auto simp: find_Some_iff)
    then show ?thesis using assms Some by (simp add: buffer_of_def server_ok_def buffers_ok_def)
  qed (simp add: buffer_of_def)
qed

text \<open>
  C3: The event loop is a server of whole lines. Every run of \<open>run_iteration\<close> over any reports of the
  kernel is, with the buffers forgotten, a run of the specification, in which clients join, say one
  line at a time and leave; and a connection that is open throughout says, whatever the others do
  in between, exactly the lines of the bytes it delivered, in order, without blank ones.
\<close>

theorem event_loop_refines_lines:
  assumes "server_ok s" and "serve env ps s = Some s'"
  defines "ins \<equiv> serve_inputs env ps s"
  shows "line_run env (forget s) (spoken (buffer_of s) ins) (forget s') \<and>
    (\<forall>f. stays f ins \<longrightarrow> said f (spoken (buffer_of s) ins) = messages (buffer_of s f @ received f ins))"
  using serve_implements [OF assms(2,1)] holds_buffer_of [OF assms(1)] said_spoken
  by (simp add: implements_def ins_def)

section \<open>Runs that read from one connection\<close>

text \<open>An iteration in which only one socket has data; nothing is accepted.\<close>

definition chunk_poll :: "socket_t \<Rightarrow> cpp_string \<Rightarrow> poll" where
  "chunk_poll f ch = \<lparr>ready = 1, interrupted = False, readable = (\<lambda>g. g = f), exceptional = (\<lambda>_. False),
     accept_ret = -1, accept_host = None, accept_port = 0, recv_ret = (\<lambda>_. Some ch)\<rparr>"

definition settled :: "MonitorServer \<Rightarrow> bool" where
  "settled s \<longleftrightarrow> fd_sets_ok s \<and> distinct (watched s)"

lemma settled_watched: "watched t = watched s \<Longrightarrow> settled t = settled s"
  by (simp add: settled_def fd_sets_ok_def)

lemma scan_idle:
  "\<forall>j \<in> set a. fd (clients s ! j) \<noteq> f \<Longrightarrow>
    scan_clients env (chunk_poll f ch) fds (a @ b) acc s = scan_clients env (chunk_poll f ch) fds b acc s"
  by (induction a) (simp_all add: chunk_poll_def FD_ISSET_def Let_def)

lemma chunk_iteration:
  assumes "settled s" and "k < length (clients s)" and "fd (clients s ! k) = f" and "recv_chunk ch"
    and "read_client env k (Some ch) s = Inr (ok, t)"
  shows "run_iteration env (chunk_poll f ch) s = Inr (Continue t)" and "poll_inputs (chunk_poll f ch) s = [Receives f ch]"
    and "watched t = watched s" and "accept_ret (chunk_poll f ch) \<notin> set (watched s)"
proof -
  let ?p = "chunk_poll f ch" and ?cs = "clients s"
  have d: "distinct (map fd ?cs)" "listen_fd s \<noteq> f" "f \<in> set (watched s)"
    using assms(1-3) nth_mem [of k ?cs] by (auto simp: settled_def watched_def)
  have others: "fd (?cs ! j) \<noteq> f" if "j < length ?cs" "j \<noteq> k" for j
    using nth_eq_iff_index_eq [OF d(1), of j k] that assms(2,3) by simp
  have ok: "ok" using read_client_ok [OF assms(2,5)] assms(4) by (simp add: recv_chunk_def)
  have keep: "keeps_server s t" by (rule read_client_keeps [OF assms(2,5)])
  then show w: "watched t = watched s" by (simp add: keeps_server_def)
  show a: "accept_ret ?p \<notin> set (watched s)"
    using assms(1) by (auto simp: chunk_poll_def settled_def fd_sets_ok_def list_all_iff)
  have idx: "[0..<length ?cs] = [0..<k] @ k # [Suc k..<length ?cs] @ []"
    using assms(2) by (metis append_Nil2 less_imp_add_positive upt_add_eq_append upt_conv_Cons zero_le less_or_eq_imp_le)
  have "scan_clients env ?p (watched s) [0..<length ?cs] [] s = scan_clients env ?p (watched s) (k # [Suc k..<length ?cs] @ []) [] s"
    unfolding idx using others assms(2) by (intro scan_idle) simp
  also have "\<dots> = scan_clients env ?p (watched s) ([Suc k..<length ?cs] @ []) [] t"
    using assms(3,5) d(3) ok by (simp add: chunk_poll_def FD_ISSET_def Let_def)
  also have "\<dots> = Inr ([], t)"
    using others keeps_server_nth [OF keep] by (subst scan_idle) auto
  finally have scan: "scan_clients env ?p (watched s) [0..<length ?cs] [] s = Inr ([], t)" .
  have "\<not> FD_ISSET ?p (readable ?p) (watched s) (listen_fd s)"
    using d(2) by (simp add: chunk_poll_def FD_ISSET_def)
  then show "run_iteration env ?p s = Inr (Continue t)"
    using scan assms(1) by (simp add: run_iteration_def settled_def) (simp add: chunk_poll_def)
  have del: "delivery ?p (watched s) g = (if g = f then [Receives f ch] else [])" for g
    using d(3) assms(4) by (simp add: delivery_def chunk_poll_def FD_ISSET_def arrival_def recv_chunk_def)
  have silent: "concat (map (\<lambda>c. delivery ?p (watched s) (fd c)) cs) = []" if "f \<notin> set (map fd cs)" for cs
    using that by (induction cs) (auto simp: del)
  have no: "\<not> doomed ?p (watched s) g" for g
    using assms(4) by (simp add: doomed_def chunk_poll_def FD_ISSET_def recv_chunk_def)
  have "distinct (map fd (take k ?cs @ ?cs ! k # drop (Suc k) ?cs))"
    using d(1) id_take_nth_drop [OF assms(2)] by simp
  then have "f \<notin> set (map fd (take k ?cs))" "f \<notin> set (map fd (drop (Suc k) ?cs))"
    unfolding map_append list.map distinct_append distinct.simps using assms(3) by auto
  then have "concat (map (\<lambda>c. delivery ?p (watched s) (fd c)) (take k ?cs @ ?cs ! k # drop (Suc k) ?cs)) = [Receives f ch]"
    using del [of f] by (simp only: map_append list.map concat_append concat.simps silent assms(3) append_Nil append_Nil2 if_True simp_thms)
  moreover have "\<not> accepted ?p s" by (simp add: accepted_def chunk_poll_def is_socket_valid_def)
  ultimately show "poll_inputs ?p s = [Receives f ch]"
    using id_take_nth_drop [OF assms(2)] no by (simp add: poll_inputs_def)
qed

lemma serve_chunks:
  assumes "read_chunks env k chunks s = Inr t" and "\<forall>ch \<in> set chunks. recv_chunk ch"
    and "settled s" and "k < length (clients s)" and "fd (clients s ! k) = f"
  shows "serve env (map (chunk_poll f) chunks) s = Some t"
    and "serve_inputs env (map (chunk_poll f) chunks) s = map (Receives f) chunks"
proof -
  have "serve env (map (chunk_poll f) chunks) s = Some t \<and>
      serve_inputs env (map (chunk_poll f) chunks) s = map (Receives f) chunks"
    using assms
  proof (induction chunks arbitrary: s)
    case (Cons ch chunks)
    obtain ok u where u: "read_client env k (Some ch) s = Inr (ok, u)" "read_chunks env k chunks u = Inr t"
      using Cons.prems(1) by (auto elim!: and_then_InrE)
    note it = chunk_iteration [OF Cons.prems(3-5) _ u(1)]
    have keep: "keeps_server s u" by (rule read_client_keeps [OF Cons.prems(4) u(1)])
    have ch: "recv_chunk ch" using Cons.prems(2) by simp
    have "serve env (map (chunk_poll f) chunks) u = Some t \<and>
        serve_inputs env (map (chunk_poll f) chunks) u = map (Receives f) chunks"
    proof (rule Cons.IH [OF u(2)])
      show "settled u" using settled_watched [OF it(3) [OF ch]] Cons.prems(3) by simp
      show "k < length (clients u)" using Cons.prems(4) keeps_server_fds(2) [OF keep] by simp
      show "fd (clients u ! k) = f" using Cons.prems(4,5) keeps_server_nth [OF keep] by simp
    qed (use Cons.prems(2) in simp)
    then show ?case using it(1,2,4) [OF ch] by simp
  qed simp
  then show "serve env (map (chunk_poll f) chunks) s = Some t"
      "serve_inputs env (map (chunk_poll f) chunks) s = map (Receives f) chunks" by simp_all
qed

lemma read_chunks_watched:
  "read_chunks env k chunks s = Inr t \<Longrightarrow> k < length (clients s) \<Longrightarrow> watched t = watched s"
proof (induction chunks arbitrary: s)
  case (Cons ch chunks)
  obtain ok u where u: "read_client env k (Some ch) s = Inr (ok, u)" "read_chunks env k chunks u = Inr t"
    using Cons.prems(1) by (auto elim!: and_then_InrE)
  have "watched u = watched s" by (rule read_client_frame(1) [OF Cons.prems(2) u(1)])
  then show ?case using Cons.IH [OF u(2)] Cons.prems(2) watched_length [of u s] by simp
qed simp

lemma serve_append:
  assumes "serve env ps s = Some t"
  shows "serve env (ps @ qs) s = serve env qs t" and "serve_inputs env (ps @ qs) s = serve_inputs env ps s @ serve_inputs env qs t"
proof -
  have "serve env (ps @ qs) s = serve env qs t \<and> serve_inputs env (ps @ qs) s = serve_inputs env ps s @ serve_inputs env qs t"
    using assms by (induction ps arbitrary: s) (auto split: if_splits sum.splits loop_state.splits)
  then show "serve env (ps @ qs) s = serve env qs t"
      "serve_inputs env (ps @ qs) s = serve_inputs env ps s @ serve_inputs env qs t" by simp_all
qed

section \<open>Example\<close>

lemma dashboard_registers:
  assumes "k < length (clients s)" and "buffer (clients s ! k) = []"
    and "\<forall>c \<in> set chunks. recv_chunk c" and "concat chunks = dash_register"
  shows "\<exists>t. read_chunks env k chunks s = Inr t \<and>
    clients t = (clients s)[k := (clients s ! k)\<lparr>declared_host := ''flask-dashboard'', role := Dashboard, buffer := []\<rparr>]"
proof -
  let ?s1 = "append_bytes k dash_register s" and ?c = "clients s ! k"
  let ?t = "set_buffer k [] (handle_register env k register_text ?s1)"
  have "read_chunks env k chunks s = process_lines env k ?s1"
    using read_chunks_whole [OF assms(1,3)] assms(2,4) by simp
  also have "\<dots> = map_result (set_buffer k []) (each_line (handle_if_nonempty env k) (map trim [register_text]) ?s1)"
    by (rule conn.process_lines_spec) (simp_all add: assms(1,2) register_text_fields(1,3))
  also have "\<dots> = Inr ?t" by (simp add: register_text_fields handle_if_nonempty_def handle_line_def)
  finally have "read_chunks env k chunks s = Inr ?t" .
  moreover have "clients ?t = (clients s)[k := ?c\<lparr>declared_host := ''flask-dashboard'', role := Dashboard, buffer := []\<rparr>]"
  proof -
    have "str_field register_text ''host'' fb = ''flask-dashboard''" for fb
      unfolding str_field_def value_or_def by code_simp
    then show ?thesis
      using assms(1) by (simp add: handle_register_clients new_role_def register_text_fields(8) append_bytes_def)
  qed
  ultimately show ?thesis by blast
qed

text \<open>A server with two clients: 5, which an agent will use, and 6, a dashboard's.\<close>

definition meeting_server :: MonitorServer where
  "meeting_server =
     \<lparr>listen_fd = 3, clients = [sample_client Unknown,
        (sample_client Unknown)\<lparr>fd := 6, peer_label := ''10.0.0.8:40000'', declared_host := []\<rparr>],
      latest_metrics = [], alert_rules = [], active_alerts = [], net = initial_world\<lparr>opened := [3, 5, 6]\<rparr>\<rparr>"

lemma meeting_server_ok:
  "server_ok meeting_server" "clean_server meeting_server" "settled meeting_server"
  "buffer_of meeting_server = (\<lambda>_. [])"
  by (auto simp: server_ok_def tables_ok_def balanced_def sockets_ok_def buffers_ok_def clean_server_def watched_def
      sample_client_def initial_world_def distinct_keys_def is_socket_valid_def plain_bytes_def printable_Cons
      meeting_server_def settled_def fd_sets_ok_def FD_SETSIZE_def buffer_of_def fun_eq_iff)

text \<open>The least that the transport may deliver at a time.\<close>

definition bytewise :: "cpp_string \<Rightarrow> cpp_string list" where
  "bytewise s = map (\<lambda>c. [c]) s"

lemma bytewise_chunks: "\<forall>c \<in> set (bytewise s). recv_chunk c" "concat (bytewise s) = s"
  using single_bytes [of s] by (auto simp: bytewise_def recv_chunk_def chunks_of_def)

lemma received_map [simp]: "received f (map (Receives g) chunks) = (if f = g then concat chunks else [])"
  by (induction chunks) (auto simp: received_def)

lemma received_append [simp]: "received f (a @ b) = received f a @ received f b"
  by (simp add: received_def)

lemma stays_receives [simp]: "stays f (map (Receives g) chunks)" "stays f (a @ b) \<longleftrightarrow> stays f a \<and> stays f b"
  by (auto simp: stays_def)

lemma messages_register: "messages dash_register = [register_text]"
proof -
  have "split_lines (unlines [register_text] @ []) = ([register_text], [])"
    using register_text_fields(3) by (intro split_lines_unlines) auto
  then show ?thesis by (simp add: messages_def register_text_fields(1,2,6))
qed

lemma meeting_registration:
  "\<exists>t. serve steady_env (map (chunk_poll 6) (bytewise dash_register)) meeting_server = Some t \<and>
     serve_inputs steady_env (map (chunk_poll 6) (bytewise dash_register)) meeting_server =
       map (Receives 6) (bytewise dash_register) \<and>
     settled t \<and> clients t = [sample_client Unknown, (clients meeting_server ! 1)
       \<lparr>declared_host := ''flask-dashboard'', role := Dashboard, buffer := []\<rparr>]"
proof -
  have k: "1 < length (clients meeting_server)" "fd (clients meeting_server ! 1) = 6" "buffer (clients meeting_server ! 1) = []"
    by (simp_all add: meeting_server_def sample_client_def)
  obtain t where t: "read_chunks steady_env 1 (bytewise dash_register) meeting_server = Inr t"
      "clients t = (clients meeting_server)[1 := (clients meeting_server ! 1)
         \<lparr>declared_host := ''flask-dashboard'', role := Dashboard, buffer := []\<rparr>]"
    using dashboard_registers [OF k(1,3) bytewise_chunks] by blast
  then show ?thesis
    using serve_chunks [OF t(1) bytewise_chunks(1) meeting_server_ok(3) k(1,2)]
      settled_watched [OF read_chunks_watched [OF t(1) k(1)]] meeting_server_ok(3)
    by (simp add: meeting_server_def)
qed

theorem event_loop_refines_lines_example:
  "\<exists>s'. serve steady_env (map (chunk_poll 6) (bytewise dash_register)) meeting_server = Some s' \<and>
     (let es = spoken (\<lambda>_. []) (map (Receives 6) (bytewise dash_register))
      in line_run steady_env (forget meeting_server) es (forget s') \<and> said 6 es = [register_text] \<and> said 5 es = [])"
proof -
  obtain t where t: "serve steady_env (map (chunk_poll 6) (bytewise dash_register)) meeting_server = Some t"
      "serve_inputs steady_env (map (chunk_poll 6) (bytewise dash_register)) meeting_server =
         map (Receives 6) (bytewise dash_register)"
    using meeting_registration by blast
  have "messages [] = []" by (simp add: messages_def)
  then show ?thesis
    using event_loop_refines_lines [OF meeting_server_ok(1) t(1)] t
    by (simp add: meeting_server_ok(4) Let_def messages_register bytewise_chunks(2))
qed

end
