(* ===== verification/Server_Abort.thy ===== *)
theory Server_Abort
  imports Server_Order Server_Replies
begin

text \<open>
  Which input ends the server: the texts whose conversion throws, the lines that contain one, and the
  iterations of the event loop in which such a line arrives.
\<close>

section \<open>Texts whose conversion throws\<close>

text \<open>The number a text of an optional minus sign and digits denotes, and the ranges of the two conversions.\<close>

definition decimal_value :: "cpp_string \<Rightarrow> int" where
  "decimal_value t =
     (case t of c # ds \<Rightarrow> if c = CHR ''-'' then - int (digits_value 0 ds) else int (digits_value 0 t) | [] \<Rightarrow> 0)"

definition beyond_int64 :: "cpp_string \<Rightarrow> bool" where
  "beyond_int64 t \<longleftrightarrow> decimal_value t < - (2 ^ 63) \<or> 2 ^ 63 \<le> decimal_value t"

definition beyond_double :: "cpp_string \<Rightarrow> bool" where
  "beyond_double t \<longleftrightarrow> (let (s, n, d) = decimal_parts t in dbl_top \<le> rnd (real n / real d) \<or> underflows n d)"

lemma integer_token_digits:
  assumes "integer_token s = Some t"
  shows "t = minus_sign t @ takeWhile isdigit (drop (length (minus_sign t)) t)"
proof -
  let ?ds = "takeWhile isdigit (drop (length (minus_sign s)) s)"
  have t: "t = minus_sign s @ ?ds" "?ds \<noteq> []" using assms by (auto simp: integer_token_def Let_def split: if_splits)
  then obtain c ds where ds: "?ds = c # ds" by (cases ?ds) auto
  have digits: "\<forall>x \<in> set ?ds. isdigit x" by (auto dest: set_takeWhileD)
  then have "c \<noteq> CHR ''-''" using ds by auto
  then have "minus_sign (minus_sign s @ ?ds) = minus_sign s" unfolding ds by (cases s) (auto simp: minus_sign_def)
  then show ?thesis using digits by (simp add: t(1) takeWhile_eq_all_conv [THEN iffD2])
qed

lemma stoll_throws: "integer_token s = Some t \<Longrightarrow> stoll t = Inl Out_of_range \<longleftrightarrow> beyond_int64 t"
proof -
  assume s: "integer_token s = Some t"
  let ?ds = "takeWhile isdigit (drop (length (minus_sign t)) t)"
  note t = integer_token_digits [OF s]
  have "decimal_value t = (if minus_sign t \<noteq> [] then - int (digits_value 0 ?ds) else int (digits_value 0 ?ds))"
  proof (cases "minus_sign t = []")
    case True
    then have "?ds = t" using t by simp
    then show ?thesis using True by (cases t) (auto simp: decimal_value_def minus_sign_def)
  next
    case False
    then obtain ds where "t = CHR ''-'' # ds" by (cases t) (auto simp: minus_sign_def split: if_splits)
    then show ?thesis using t by (simp add: decimal_value_def minus_sign_def)
  qed
  then show ?thesis by (auto simp: stoll_def beyond_int64_def Let_def)
qed

lemma round_double_below_top: "round_double s n d = Finite s' m e \<Longrightarrow> 0 < d \<Longrightarrow> rnd (real n / real d) < dbl_top"
proof -
  assume r: "round_double s n d = Finite s' m e" "0 < d"
  then have e: "e \<le> 971" by (auto simp: round_double_def Let_def split: if_splits)
  have m: "real m * 2 powi e = rnd (real n / real d)" "m < 2 ^ 53" using round_double_spec [OF r(2), of s n] r(1) by simp_all
  have "real m * 2 powi e < real (2 ^ 53) * 2 powi e" using m(2) by (intro mult_strict_right_mono) simp_all
  also have "\<dots> = 2 powi (e + 53)" using powi2_scale [of 53 e] by simp
  also have "\<dots> \<le> dbl_top" unfolding dbl_top_def using e by (intro powi2_le) simp
  finally show ?thesis by (simp only: m(1))
qed

lemma stod_throws: "stod t = Inl Out_of_range \<longleftrightarrow> beyond_double t"
proof -
  obtain s n d where p: "decimal_parts t = (s, n, d)" by (metis prod_cases3)
  then have d: "0 < d" by (auto simp: decimal_parts_def Let_def)
  show ?thesis
    using round_double_spec [OF d, of s n] round_double_below_top [OF _ d, of s n]
    by (cases "round_double s n d") (auto simp: stod_def beyond_double_def p)
qed

section \<open>Lines that throw\<close>

definition number_keys :: "cpp_string list" where
  "number_keys = [''cpu_percent'', ''memory_percent'', ''disk_percent'', ''network_rx_kbps'', ''network_tx_kbps'']"

definition integer_keys :: "cpp_string list" where
  "integer_keys = [''memory_used_mb'', ''memory_total_mb'', ''disk_used_mb'', ''disk_total_mb'']"

definition number_throws :: "cpp_string \<Rightarrow> cpp_string \<Rightarrow> bool" where
  "number_throws line key \<longleftrightarrow> (\<exists>t. json_number_text line key = Some t \<and> beyond_double t)"

definition integer_throws :: "cpp_string \<Rightarrow> cpp_string \<Rightarrow> bool" where
  "integer_throws line key \<longleftrightarrow> (\<exists>t. json_integer_text line key = Some t \<and> beyond_int64 t)"

definition report_throws :: "cpp_string \<Rightarrow> bool" where
  "report_throws line \<longleftrightarrow> str_field line ''type'' [] = ''metrics'' \<and>
     ((\<exists>key \<in> set number_keys. number_throws line key) \<or> (\<exists>key \<in> set integer_keys. integer_throws line key))"

definition command_throws :: "cpp_string \<Rightarrow> bool" where
  "command_throws line \<longleftrightarrow> str_field line ''type'' [] = ''command'' \<and>
     (let text = str_field line ''text'' [] in
      starts_with ''/alert'' (lower_copy (trim text)) \<and>
      (\<exists>name cmp num. alert_core (trim text) name cmp num \<and> beyond_double num))"

lemma conversions_abort:
  "stod t = Inl e \<Longrightarrow> e = Out_of_range" "stoll t = Inl e \<Longrightarrow> e = Out_of_range"
  by (auto simp: stod_def stoll_def Let_def split: prod.splits double.splits if_splits)

lemma num_field_Inl: "num_field line key = Inl e \<longleftrightarrow> e = Out_of_range \<and> number_throws line key"
  by (auto simp: num_field_def json_get_number_def number_throws_def and_then_Inl_iff stod_throws [symmetric]
      dest: conversions_abort split: option.splits)

lemma json_integer_token: "json_integer_text line key = Some t \<Longrightarrow> \<exists>s. integer_token s = Some t"
  unfolding json_integer_text_scan
  by (induction line) (auto simp: bind_eq_Some_conv split: option.splits)

lemma int_field_Inl: "int_field line key = Inl e \<longleftrightarrow> e = Out_of_range \<and> integer_throws line key"
  by (auto simp: int_field_def json_get_integer_def integer_throws_def and_then_Inl_iff
      dest: conversions_abort json_integer_token stoll_throws split: option.splits)

lemma fails_and_then:
  "(\<And>x. (\<exists>e. f x = Inl e) \<longleftrightarrow> P) \<Longrightarrow> (\<exists>e. and_then r f = Inl e) \<longleftrightarrow> (\<exists>e. r = Inl e) \<or> P"
  by (cases r) simp_all

lemma parse_metrics_Inl:
  "parse_metrics line h n = Inl e \<longleftrightarrow> e = Out_of_range \<and>
     ((\<exists>key \<in> set number_keys. number_throws line key) \<or> (\<exists>key \<in> set integer_keys. integer_throws line key))"
proof -
  let ?n = "\<lambda>key. \<exists>e. num_field line key = Inl e" and ?i = "\<lambda>key. \<exists>e. int_field line key = Inl e"
  have "(\<exists>e. parse_metrics line h n = Inl e) \<longleftrightarrow>
      ?n ''cpu_percent'' \<or> ?n ''memory_percent'' \<or> ?n ''disk_percent'' \<or> ?n ''network_rx_kbps'' \<or> ?n ''network_tx_kbps'' \<or>
      ?i ''memory_used_mb'' \<or> ?i ''memory_total_mb'' \<or> ?i ''disk_used_mb'' \<or> ?i ''disk_total_mb'' \<or> False"
    unfolding parse_metrics_def by (intro fails_and_then) simp
  moreover have "e = Out_of_range" if "parse_metrics line h n = Inl e" for e
    using that by (auto simp: parse_metrics_def and_then_Inl_iff num_field_Inl int_field_Inl)
  ultimately show ?thesis
    unfolding num_field_Inl int_field_Inl number_keys_def integer_keys_def by (cases "parse_metrics line h n") auto
qed

lemma handle_command_Inl:
  "handle_command env f text s = Inl e \<longleftrightarrow> e = Out_of_range \<and> starts_with ''/alert'' (lower_copy (trim text)) \<and>
     (\<exists>name cmp num. alert_core (trim text) name cmp num \<and> beyond_double num)"
proof -
  have "parse_alert_command text = Inl e \<longleftrightarrow> e = Out_of_range \<and>
      (\<exists>name cmp num. alert_core (trim text) name cmp num \<and> beyond_double num)"
  proof
    assume "parse_alert_command text = Inl e"
    then show "e = Out_of_range \<and> (\<exists>name cmp num. alert_core (trim text) name cmp num \<and> beyond_double num)"
      using conversions_abort stod_throws by (elim parse_alert_command_Inl) blast
  next
    assume "e = Out_of_range \<and> (\<exists>name cmp num. alert_core (trim text) name cmp num \<and> beyond_double num)"
    then obtain name cmp num where e: "e = Out_of_range" and n: "alert_core (trim text) name cmp num" "beyond_double num"
      by blast
    then show "parse_alert_command text = Inl e"
      by (simp add: parse_alert_command_core alert_rule_def stod_throws [THEN iffD2])
  qed
  then show ?thesis
    by (auto simp: handle_command_def Let_def and_then_Inl_iff split: if_splits option.splits)
qed

lemma handle_line_Inl:
  "handle_line env i line s = Inl e \<longleftrightarrow>
     e = Out_of_range \<and> (report_throws line \<and> role (clients s ! i) = Agent \<or> command_throws line)"
  by (auto simp: handle_line_def handle_metrics_def case_prod_unfold Let_def and_then_Inl_iff parse_metrics_Inl
      handle_command_Inl report_throws_def command_throws_def)

lemma handle_line_throws:
  "handle_line env i line s = Inl e \<Longrightarrow> e = Out_of_range \<and> (report_throws line \<or> command_throws line)"
  "command_throws line \<Longrightarrow> handle_line env i line s = Inl Out_of_range"
  by (auto simp: handle_line_Inl)

text \<open>
  C38: Exactly these lines end the server: a report of a registered agent in which an integer field holds a
  number that does not fit 64 bits or a number field one beyond the range of \<^verbatim>\<open>double\<close>, and
  an alert command, of any client, whose threshold is beyond that range. The conversion throws and
  nothing catches it, whatever the state of the server is. Any client can become an agent by
  registering as one.
\<close>

theorem lines_that_end_server:
  "handle_line env i line s = Inl e \<longleftrightarrow>
     e = Out_of_range \<and>
     (str_field line ''type'' [] = ''metrics'' \<and> role (clients s ! i) = Agent \<and>
        ((\<exists>key \<in> {''memory_used_mb'', ''memory_total_mb'', ''disk_used_mb'', ''disk_total_mb''}.
            \<exists>t. json_integer_text line key = Some t \<and> (decimal_value t < - (2 ^ 63) \<or> 2 ^ 63 \<le> decimal_value t)) \<or>
         (\<exists>key \<in> {''cpu_percent'', ''memory_percent'', ''disk_percent'', ''network_rx_kbps'', ''network_tx_kbps''}.
            \<exists>t. json_number_text line key = Some t \<and> beyond_double t)) \<or>
      str_field line ''type'' [] = ''command'' \<and>
        (let text = str_field line ''text'' [] in
         starts_with ''/alert'' (lower_copy (trim text)) \<and>
         (\<exists>name cmp num. alert_core (trim text) name cmp num \<and> beyond_double num)))"
  unfolding handle_line_Inl report_throws_def command_throws_def number_throws_def integer_throws_def
    number_keys_def integer_keys_def beyond_int64_def set_simps by blast

section \<open>Iterations that throw\<close>

text \<open>The lines that reach the server in one iteration on the connection \<open>c\<close>.\<close>

definition arriving :: "poll \<Rightarrow> socket_t list \<Rightarrow> ClientConnection \<Rightarrow> cpp_string list" where
  "arriving p fds c =
     (if \<not> FD_ISSET p (exceptional p) fds (fd c) \<and> FD_ISSET p (readable p) fds (fd c) then
        (case recv_ret p (fd c) of
           Some data \<Rightarrow> if data = [] then [] else messages (buffer c @ take 4096 data)
         | None \<Rightarrow> [])
      else [])"

lemma arriving_cong: "fd c = fd c' \<Longrightarrow> buffer c = buffer c' \<Longrightarrow> arriving p fds c = arriving p fds c'"
  by (simp add: arriving_def split: option.split)

lemma read_client_lines_of:
  assumes "i < length (clients s)" and "data \<noteq> []"
  defines "b \<equiv> buffer (clients s ! i) @ take 4096 data"
  shows "read_client env i (Some data) s =
    map_result (\<lambda>t. (True, set_buffer i (snd (split_lines b)) t)) (each_line (handle_line env i) (messages b) s)"
proof -
  let ?ls = "fst (split_lines b)" and ?r = "snd (split_lines b)" and ?s1 = "append_bytes i (take 4096 data) s"
  have "process_lines env i ?s1 = map_result (set_buffer i ?r) (each_line (handle_if_nonempty env i) (map trim ?ls) ?s1)"
    using assms(1) split_lines_nl_free [of b] split_lines_join [of b]
    by (intro conn.process_lines_spec) (simp_all add: b_def)
  also have "\<dots> = map_result (set_buffer i ?r) (each_line (handle_if_nonempty env i) (map trim ?ls) s)"
    unfolding append_bytes_def conn.each_line_put by (cases "each_line (handle_if_nonempty env i) (map trim ?ls) s") simp_all
  finally show ?thesis
    using assms(2) by (cases "each_line (handle_line env i) (messages b) s")
      (simp_all add: read_client_def each_line_nonempty messages_def)
qed

lemma read_client_others:
  assumes "i < length (clients s)" and "read_client env i rc s = Inr (ok, t)" and "j < length (clients s)" and "j \<noteq> i"
  shows "arriving p fds (clients t ! j) = arriving p fds (clients s ! j)"
proof (cases "rc = None \<or> rc = Some []")
  case True
  then show ?thesis using assms(2) by (auto simp: read_client_def)
next
  case False
  then obtain data where data: "rc = Some data" "data \<noteq> []" by auto
  let ?b = "buffer (clients s ! i) @ take 4096 data" and ?p = "\<lambda>c. (fd c, buffer c)"
  obtain u where u: "each_line (handle_line env i) (messages ?b) s = Inr u" "t = set_buffer i (snd (split_lines ?b)) u"
    using read_client_lines_of [OF assms(1) data(2), of env] assms(2)
    by (cases "each_line (handle_line env i) (messages ?b) s") (auto simp: data(1))
  have same: "map ?p (clients u) = map ?p (clients s)" by (rule each_line_holds [OF u(1)])
  then have "length (clients u) = length (clients s)" by (rule map_eq_imp_length_eq)
  then have "?p (clients u ! j) = ?p (clients s ! j)" using arg_cong [OF same, of "\<lambda>xs. xs ! j"] assms(3) by simp
  then show ?thesis using assms(4) by (intro arriving_cong) (simp_all add: u(2))
qed

lemma each_line_outcome:
  "case each_line h ls s of Inl e \<Rightarrow> \<exists>l \<in> set ls. \<exists>t. h l t = Inl e | Inr u \<Rightarrow> \<forall>l \<in> set ls. \<exists>t t'. h l t = Inr t'"
proof (induction ls arbitrary: s)
  case (Cons l ls)
  show ?case
  proof (cases "h l s")
    case (Inr t)
    then show ?thesis using Cons.IH [of t] by (cases "each_line h ls t") auto
  qed auto
qed simp

lemma read_client_outcome:
  assumes "j < length (clients s)"
    and "\<not> FD_ISSET p (exceptional p) fds (fd (clients s ! j)) \<and> FD_ISSET p (readable p) fds (fd (clients s ! j))"
  shows "case read_client env j (recv_ret p (fd (clients s ! j))) s of
      Inl e \<Rightarrow> \<exists>l \<in> set (arriving p fds (clients s ! j)). \<exists>t. handle_line env j l t = Inl e
    | Inr r \<Rightarrow> \<forall>l \<in> set (arriving p fds (clients s ! j)). \<exists>t t'. handle_line env j l t = Inr t'"
proof -
  let ?rc = "recv_ret p (fd (clients s ! j))"
  consider "?rc = None" | "?rc = Some []" | data where "?rc = Some data" "data \<noteq> []" by (cases "?rc") auto
  then show ?thesis
  proof cases
    case 1
    then have "arriving p fds (clients s ! j) = []" by (simp add: arriving_def)
    moreover have "read_client env j ?rc s = Inr (False, s)" using 1 by (simp add: read_client_def)
    ultimately show ?thesis by simp
  next
    case 2
    then have "arriving p fds (clients s ! j) = []" by (simp add: arriving_def)
    moreover have "read_client env j ?rc s = Inr (False, s)" using 2 by (simp add: read_client_def)
    ultimately show ?thesis by simp
  next
    case (3 data)
    let ?b = "buffer (clients s ! j) @ take 4096 data"
    have "arriving p fds (clients s ! j) = messages ?b" using assms(2) 3 by (simp add: arriving_def)
    then show ?thesis
      using each_line_outcome [where h = "handle_line env j" and ls = "messages ?b" and s = s]
      by (cases "each_line (handle_line env j) (messages ?b) s")
        (simp_all add: 3 read_client_lines_of [OF assms(1) 3(2)])
  qed
qed

text \<open>A pass over clients throws as soon as, and only if, one of the arriving lines does.\<close>

lemma scan_outcome:
  assumes "distinct idx" and "\<forall>j \<in> set idx. j < length (clients s)"
  shows "case scan_clients env p fds idx acc s of
      Inl e \<Rightarrow> \<exists>j \<in> set idx. \<exists>l \<in> set (arriving p fds (clients s ! j)). \<exists>t. handle_line env j l t = Inl e
    | Inr r \<Rightarrow> \<forall>j \<in> set idx. \<forall>l \<in> set (arriving p fds (clients s ! j)). \<exists>t t'. handle_line env j l t = Inr t'"
  using assms
proof (induction idx arbitrary: acc s)
  case (Cons j idx)
  let ?f = "fd (clients s ! j)"
  have j: "j < length (clients s)" and idx: "distinct idx" "j \<notin> set idx" "\<forall>i \<in> set idx. i < length (clients s)"
    using Cons.prems by simp_all
  show ?case
  proof (cases "\<not> FD_ISSET p (exceptional p) fds ?f \<and> FD_ISSET p (readable p) fds ?f")
    case False
    then have none: "arriving p fds (clients s ! j) = []" by (auto simp: arriving_def)
    let ?acc = "if FD_ISSET p (exceptional p) fds ?f then acc @ [j] else acc"
    have scan: "scan_clients env p fds (j # idx) acc s = scan_clients env p fds idx ?acc s"
      using False by (auto simp: Let_def)
    show ?thesis unfolding scan using Cons.IH [OF idx(1,3), of ?acc] none
      by (cases "scan_clients env p fds idx ?acc s") auto
  next
    case True
    let ?rc = "recv_ret p ?f"
    note lines = read_client_outcome [OF j True, of env]
    show ?thesis
    proof (cases "read_client env j ?rc s")
      case (Inl e)
      then show ?thesis using True lines by (auto simp: Let_def)
    next
      case (Inr r)
      obtain ok t where t: "read_client env j ?rc s = Inr (ok, t)" using Inr by (cases r) simp
      let ?acc = "if ok then acc else acc @ [j]"
      have scan: "scan_clients env p fds (j # idx) acc s = scan_clients env p fds idx ?acc t"
        using True t by (simp add: Let_def)
      have len: "\<forall>i \<in> set idx. i < length (clients t)"
        using idx(3) keeps_server_fds(2) [OF read_client_keeps [OF j t]] by simp
      have same: "\<forall>i \<in> set idx. arriving p fds (clients t ! i) = arriving p fds (clients s ! i)"
        using read_client_others [OF j t] idx(2,3) by metis
      show ?thesis unfolding scan using Cons.IH [OF idx(1) len, of ?acc] same lines t
        by (cases "scan_clients env p fds idx ?acc t") auto
    qed
  qed
qed simp

text \<open>
  C27: Which iterations of the event loop end the server process. If one does, then either a number in one
  of the lines that reach the server in it does not fit its type, or a descriptor is outside the range of
  the descriptor sets of \<open>select\<close>, which the loop does not check. The second always ends it
  (the behaviour is undefined), and so does an alert command with such a threshold, from any client and
  among whatever other lines.
\<close>

theorem run_iteration_abort:
  "(run_iteration env p s = Inl e \<longrightarrow>
      e = Undefined_FD_SET \<and> (\<exists>f \<in> set (watched (after_accept p s)). f < 0 \<or> FD_SETSIZE \<le> f) \<or>
      e = Out_of_range \<and> (\<exists>c \<in> set (clients (after_accept p s)). \<exists>l \<in> set (arriving p (watched s) c).
        report_throws l \<or> command_throws l)) \<and>
   ((\<exists>f \<in> set (watched s). f < 0 \<or> FD_SETSIZE \<le> f) \<or>
      (\<exists>c \<in> set (clients (after_accept p s)). \<exists>l \<in> set (arriving p (watched s) c). command_throws l) \<longrightarrow>
    (\<exists>e. run_iteration env p s = Inl e))"
proof -
  let ?s1 = "after_accept p s" and ?fds = "watched s"
  let ?scan = "scan_clients env p ?fds [0..<length (clients ?s1)] [] ?s1"
  have s1: "(if FD_ISSET p (readable p) ?fds (listen_fd s) then accept_connection p s else s) = ?s1"
    by (simp add: after_accept_def accepted_def accept_connection_def)
  have sub: "set ?fds \<subseteq> set (watched ?s1)" by (simp add: after_accept_watched)
  have quiet: "arriving p ?fds c = []" if "ready p < 0" for c using that by (simp add: arriving_def FD_ISSET_def)
  have scan: "case ?scan of
      Inl e \<Rightarrow> \<exists>j < length (clients ?s1). \<exists>l \<in> set (arriving p ?fds (clients ?s1 ! j)). \<exists>t. handle_line env j l t = Inl e
    | Inr r \<Rightarrow> \<forall>j < length (clients ?s1). \<forall>l \<in> set (arriving p ?fds (clients ?s1 ! j)). \<exists>t t'. handle_line env j l t = Inr t'"
    using scan_outcome [where idx = "[0..<length (clients ?s1)]" and s = ?s1 and env = env and p = p and fds = ?fds and acc = "[]"] by (simp add: Bex_def Ball_def cong: sum.case_cong)
  have "e = Undefined_FD_SET \<and> (\<exists>f \<in> set (watched ?s1). f < 0 \<or> FD_SETSIZE \<le> f) \<or>
      e = Out_of_range \<and> (\<exists>c \<in> set (clients ?s1). \<exists>l \<in> set (arriving p ?fds c). report_throws l \<or> command_throws l)"
    if abort: "run_iteration env p s = Inl e"
  proof -
    consider "e = Undefined_FD_SET" "\<not> fd_sets_ok s \<or> \<not> fd_sets_ok ?s1" | "?scan = Inl e"
      using abort by (auto simp: run_iteration_def s1 Let_def and_then_Inl_iff split: if_splits prod.splits)
    then show ?thesis
    proof cases
      case 1
      then show ?thesis using sub by (auto simp: fd_sets_ok_def list_all_iff not_le not_less)
    next
      case 2
      then obtain j l t where j: "j < length (clients ?s1)" "l \<in> set (arriving p ?fds (clients ?s1 ! j))"
          and l: "handle_line env j l t = Inl e"
        using scan by auto
      then show ?thesis using handle_line_throws(1) [OF l] nth_mem [OF j(1)] by blast
    qed
  qed
  moreover have "\<exists>e. run_iteration env p s = Inl e" if "\<exists>f \<in> set ?fds. f < 0 \<or> FD_SETSIZE \<le> f"
    using that by (auto simp: run_iteration_def fd_sets_ok_def list_all_iff not_le not_less)
  moreover have "\<exists>e. run_iteration env p s = Inl e"
    if c: "c \<in> set (clients ?s1)" "l \<in> set (arriving p ?fds c)" "command_throws l" for c l
  proof -
    have ready: "0 \<le> ready p" using quiet [of c] c(2) by force
    obtain j where "j < length (clients ?s1)" "c = clients ?s1 ! j" using c(1) by (auto simp: in_set_conv_nth)
    then have "\<exists>e. ?scan = Inl e" using scan c(2,3) handle_line_throws(2) by (cases ?scan) fastforce+
    then show ?thesis using ready by (auto simp: run_iteration_def s1 Let_def)
  qed
  ultimately show ?thesis by blast
qed

section \<open>Examples\<close>

text \<open>The limit of 64 bits, and one beyond it in another field.\<close>

definition limit_report :: cpp_string where
  "limit_report = ''{\"type\":\"metrics\",\"disk_total_mb\":9223372036854775807,\"disk_used_mb\":-9223372036854775808}''"

definition beyond_report :: cpp_string where
  "beyond_report = ''{\"type\":\"metrics\",\"disk_total_mb\":1,\"disk_used_mb\":9223372036854775808}''"

definition beyond_command :: cpp_string where
  "beyond_command = CHR ''{'' # jstr ''type'' ''command'' @ CHR '','' # jstr ''text'' (''/alert cpu>1'' @ replicate 309 (CHR ''0'')) @ ''}''"

lemma limit_values:
  "decimal_value ''9223372036854775807'' = 2 ^ 63 - 1" "decimal_value ''-9223372036854775808'' = - (2 ^ 63)"
  "decimal_value ''9223372036854775808'' = 2 ^ 63"
  by code_simp+

lemma report_fields:
  "str_field beyond_report ''type'' [] = ''metrics''"
  "json_integer_text beyond_report ''disk_used_mb'' = Some ''9223372036854775808''"
  "str_field limit_report ''type'' [] = ''metrics''"
  "json_integer_text limit_report ''memory_used_mb'' = None" "json_integer_text limit_report ''memory_total_mb'' = None"
  "json_integer_text limit_report ''disk_used_mb'' = Some ''-9223372036854775808''"
  "json_integer_text limit_report ''disk_total_mb'' = Some ''9223372036854775807''"
  "map (json_number_text limit_report) number_keys = replicate 5 None"
  by code_simp+

theorem lines_that_end_server_example:
  "handle_line steady_env 0 beyond_report (sample_server Agent) = Inl Out_of_range \<and>
   (\<forall>e. handle_line steady_env 0 limit_report (sample_server Agent) \<noteq> Inl e) \<and>
   (\<forall>e. handle_line steady_env 0 beyond_report (sample_server Unknown) \<noteq> Inl e)"
proof -
  have roles: "role (clients (sample_server r) ! 0) = r" for r by (simp add: sample_server_def sample_client_def)
  show ?thesis
    using report_fields(8) by (simp add: lines_that_end_server roles report_fields limit_values number_keys_def numeral_eq_Suc)
qed

text \<open>A command with a threshold of 310 digits, on a connection of which the server knows nothing else.\<close>

definition command_poll :: poll where
  "command_poll = \<lparr>ready = 1, interrupted = False, readable = (\<lambda>f. f = 5), exceptional = (\<lambda>_. False),
     accept_ret = -1, accept_host = None, accept_port = 0, recv_ret = (\<lambda>_. Some (beyond_command @ [CHR_nl]))\<rparr>"

lemma beyond_double_digits: "beyond_double (CHR ''1'' # replicate 309 (CHR ''0''))"
proof -
  have zeros: "digits_value v (replicate n (CHR ''0'')) = v * 10 ^ n" for v n
    by (induction n arbitrary: v) (simp_all add: digit_value_def)
  have "decimal_parts (CHR ''1'' # replicate 309 (CHR ''0'')) = (False, 10 ^ 309, 1)"
    by (simp add: decimal_parts_def minus_sign_def zeros digit_value_def isdigit_def digit_chars_def)
  moreover have "dbl_top \<le> rnd (real (10 ^ 309))"
  proof -
    have "dbl_top \<in> grid"
      unfolding grid_def mem_Collect_eq dbl_top_def by (intro exI [of _ 1] exI [of _ 1024]) (simp add: emin_def)
    then have "dbl_top = rnd dbl_top" by (simp add: rnd_fixes_grid)
    also have "dbl_top \<le> real (10 ^ 309)" by (simp add: dbl_top_def power_int_numeral)
    then have "rnd dbl_top \<le> rnd (real (10 ^ 309))" by (rule rnd_mono)
    finally show ?thesis .
  qed
  ultimately show ?thesis by (simp add: beyond_double_def)
qed

lemma beyond_command_throws: "command_throws beyond_command"
proof -
  let ?num = "CHR ''1'' # replicate 309 (CHR ''0'')"
  let ?text = "''/alert cpu>'' @ ?num"
  have key: "ident ''text''" "ident ''type''" by (simp_all add: ident_def ident_char_def)
  have "json_get_string beyond_command ''type'' = Some ''command''"
    unfolding beyond_command_def
    by (subst str.get_skip_Cons) (simp, intro str.get_jstr string_token_quoted, simp)
  moreover have "json_get_string beyond_command ''text'' = Some ?text"
    unfolding beyond_command_def
    by (subst str.get_skip_Cons) (simp, subst str.get_skip_jstr, simp_all add: key field_end_def, intro str.get_jstr string_token_quoted, simp)
  ultimately have f: "str_field beyond_command ''type'' [] = ''command''" "str_field beyond_command ''text'' [] = ?text"
    by (simp_all add: str_field_def value_or_def)
  have "trim ([] @ ?text @ []) = ?text"
    by (rule trim_eqI) (simp_all add: isspace_def spaces_def)
  then have trim: "trim ?text = ?text" by simp
  have dec: "is_decimal ?num"
    unfolding is_decimal_def by (intro exI [of _ ?num] exI [of _ "[]"]) (simp add: isdigit_def digit_chars_def)
  then have "alert_core ?text ''cpu'' (CHR ''>'') ?num"
    unfolding alert_core_def
    by (intro exI [of _ "''/alert''"] exI [of _ "'' ''"] exI [of _ "[]"])
      (simp add: dec all_spaces_def lower_copy_def tolower_def isspace_def spaces_def isletter_def letter_chars_def)
  moreover have "starts_with ''/alert'' (lower_copy ?text)"
    by (simp add: starts_with_def lower_copy_def tolower_def)
  ultimately show ?thesis unfolding command_throws_def f Let_def trim using beyond_double_digits by blast
qed

theorem run_iteration_abort_example:
  "run_iteration steady_env command_poll (sample_server Unknown) = Inl Out_of_range"
proof -
  let ?s = "sample_server Unknown"
  have "\<not> is_socket_valid Posix (accept_ret command_poll)" by (simp add: command_poll_def is_socket_valid_def)
  then have after: "after_accept command_poll ?s = ?s" by (simp add: after_accept_def accepted_def)
  have facts: "beyond_command \<noteq> []" "hd beyond_command = CHR ''{''" "last beyond_command = CHR ''}''"
      "nl_free beyond_command" "length beyond_command < 4096"
    by (simp_all add: beyond_command_def jstr_def quoted_key_def)
  then have "trim ([] @ beyond_command @ []) = beyond_command"
    by (intro trim_eqI) (simp_all add: isspace_def spaces_def)
  moreover have "split_lines (unlines [beyond_command] @ []) = ([beyond_command], [])"
    using facts(4) by (intro split_lines_unlines) auto
  ultimately have "messages (beyond_command @ [CHR_nl]) = [beyond_command]"
    using facts(1) by (simp add: messages_def)
  then have "arriving command_poll (watched ?s) (sample_client Unknown) = [beyond_command]"
    using facts(5)
    by (simp add: arriving_def command_poll_def FD_ISSET_def sample_client_def sample_server_def watched_def)
  moreover have "sample_client Unknown \<in> set (clients ?s)" by (simp add: sample_server_def)
  ultimately have "\<exists>c \<in> set (clients ?s). \<exists>l \<in> set (arriving command_poll (watched ?s) c). command_throws l"
    using beyond_command_throws by (intro bexI [of _ "sample_client Unknown"]) simp_all
  note abort = run_iteration_abort [of steady_env command_poll ?s, unfolded after]
  have "\<exists>e. run_iteration steady_env command_poll ?s = Inl e"
    using abort [THEN conjunct2] by (rule mp) (intro disjI2, fact)
  moreover have "\<forall>f \<in> set (watched ?s). 0 \<le> f \<and> f < FD_SETSIZE"
    by (simp add: watched_def sample_server_def sample_client_def FD_SETSIZE_def)
  ultimately show ?thesis using abort [THEN conjunct1] by force
qed

end
