(* ===== verification/Report_Delivery.thy ===== *)
theory Report_Delivery
  imports Server_Order Agent_Server
begin

text \<open>
  The three parts together. An agent's bytes reach the server in any pieces, between whatever the
  other clients send; a dashboard registers at any time. As long as no other client reports under the
  agent's name, what the dashboard shows for the agent is the agent's last report.
\<close>

section \<open>Other clients\<close>

text \<open>What another client does does not concern the reports under a name.\<close>

fun foreign :: "cpp_string \<Rightarrow> socket_t \<Rightarrow> label \<Rightarrow> bool" where
  "foreign name f (Joins g peer) \<longleftrightarrow> peer \<noteq> name"
| "foreign name f (Says g l) \<longleftrightarrow> (g \<noteq> f \<longrightarrow> json_get_string l ''host'' \<noteq> Some name)"
| "foreign name f (Leaves g) \<longleftrightarrow> True"

definition sole_bearer :: "cpp_string \<Rightarrow> socket_t \<Rightarrow> MonitorServer \<Rightarrow> bool" where
  "sole_bearer name f s \<longleftrightarrow> name \<noteq> [] \<and> distinct_fds s \<and>
     (\<forall>c \<in> set (clients s). fd c \<noteq> f \<longrightarrow> peer_label c \<noteq> name \<and> declared_host c \<noteq> name)"

definition is_agent :: "socket_t \<Rightarrow> MonitorServer \<Rightarrow> bool" where
  "is_agent f s \<longleftrightarrow> (\<forall>c \<in> set (clients s). fd c = f \<longrightarrow> role c = Agent)"

lemma str_field_not:
  "json_get_string l key \<noteq> Some name \<Longrightarrow> fallback \<noteq> name \<Longrightarrow> str_field l key fallback \<noteq> name"
  by (auto simp: str_field_def value_or_def split: option.split)

lemma parse_metrics_host: "parse_metrics l fb now = Inr m \<Longrightarrow> ms_host m = str_field l ''host'' fb"
  by (auto simp: parse_metrics_def elim!: and_then_InrE)

lemma other_line:
  assumes "handle_line env i l s = Inr t" and "i < length (clients s)" and "fd (clients s ! i) \<noteq> f"
    and "json_get_string l ''host'' \<noteq> Some name" and "sole_bearer name f s"
  shows "sole_bearer name f t \<and> map_of (latest_metrics t) name = map_of (latest_metrics s) name \<and>
    (is_agent f s \<longrightarrow> is_agent f t)"
proof -
  let ?c = "clients s ! i"
  have c: "peer_label ?c \<noteq> name" "declared_host ?c \<noteq> name"
    using assms(2,3,5) by (auto simp: sole_bearer_def)
  have same: "sole_bearer name f t \<and> (is_agent f s \<longrightarrow> is_agent f t)" if "clients t = clients s"
    using that assms(5) by (simp add: sole_bearer_def is_agent_def distinct_fds_def)
  show ?thesis
    using assms(1)
  proof (cases rule: handle_line_cases)
    case register
    have "map fd (clients t) = map fd (clients s)" by (rule handle_line_clients [OF assms(1)]) simp
    moreover have "c' \<in> set (clients s) \<or> fd c' \<noteq> f \<and> peer_label c' \<noteq> name \<and> declared_host c' \<noteq> name"
      if "c' \<in> set (clients t)" for c'
      using that c assms(3) str_field_not [OF assms(4) c(1)]
      by (auto simp: register handle_register_clients dest!: subsetD [OF set_update_subset_insert])
    ultimately show ?thesis using assms(5) by (fastforce simp: sole_bearer_def is_agent_def distinct_fds_def register)
  next
    case (metrics m)
    have "ms_host m \<noteq> name" using parse_metrics_host [OF metrics(2)] str_field_not [OF assms(4) c(2)] by simp
    then show ?thesis using same metrics(3) by (simp add: update_conv')
  next
    case (command u)
    then show ?thesis using same by (cases rule: handle_command_cases) simp_all
  qed (use same in simp_all)
qed

lemma other_step:
  assumes "line_step env s e t" and "foreign name f e" and "sole_bearer name f s"
    and "e \<noteq> Leaves f" and "\<And>peer. e \<noteq> Joins f peer" and "\<And>l. e \<noteq> Says f l"
  shows "sole_bearer name f t \<and> map_of (latest_metrics t) name = map_of (latest_metrics s) name \<and>
    (is_agent f s \<longrightarrow> is_agent f t)"
  using assms(1)
proof cases
  case (joins g peer)
  then have "g \<noteq> f" "peer \<noteq> name" using assms(2,5) by auto
  then show ?thesis
    using assms(3) joins by (auto simp: sole_bearer_def is_agent_def distinct_fds_def watched_def)
next
  case (says i g l)
  then show ?thesis using other_line [of env i l s t f name] assms(2,3,6) by auto
next
  case (leaves i g)
  have "set (clients t) \<subseteq> set (clients s)"
    by (auto simp: leaves disconnect_client_simps dest: in_set_takeD in_set_dropD)
  moreover have "distinct (take i (map fd (clients s)) @ drop (Suc i) (map fd (clients s)))"
    using assms(3) by (simp add: sole_bearer_def distinct_fds_def set_take_disj_set_drop_if_distinct)
  then have "distinct_fds t" by (simp add: leaves distinct_fds_def disconnect_client_simps take_map drop_map)
  moreover have "latest_metrics t = latest_metrics s" by (simp add: leaves disconnect_client_def)
  ultimately show ?thesis using assms(3) by (auto simp: sole_bearer_def is_agent_def)
qed

section \<open>The agent\<close>

lemma own_client:
  assumes "distinct_fds s" and "i < length (clients s)" and "c \<in> set (clients s)" and "fd c = fd (clients s ! i)"
  shows "c = clients s ! i"
  using assms by (metis distinct_fds_def distinct_map inj_onD nth_mem)

lemma own_register:
  assumes "line_step env s (Says f (register_message name)) t" and "sole_bearer name f s" and "plain_text name"
  shows "sole_bearer name f t \<and> is_agent f t"
proof -
  obtain i where 1: "i < length (clients s)" "fd (clients s ! i) = f" "handle_line env i (register_message name) s = Inr t"
    using assms(1) by (rule saysE)
  have t: "handle_line env i (register_message name) s = Inr t" using 1 by simp
  let ?c = "(clients s ! i)\<lparr>declared_host := name, role := Agent\<rparr>"
  have cs: "clients t = (clients s)[i := ?c]" using t handle_registration [OF assms(3), of env i s] by auto
  have "map fd (clients t) = map fd (clients s)" by (rule handle_line_clients [OF t]) simp
  then have d: "distinct_fds t" using assms(2) by (simp add: sole_bearer_def distinct_fds_def)
  have i: "i < length (clients t)" and c: "clients t ! i = ?c" using 1 by (simp_all add: cs)
  have "role c' = Agent" if "c' \<in> set (clients t)" "fd c' = f" for c'
    using own_client [OF d i that(1)] that(2) 1(2) c by simp
  then have "is_agent f t" by (simp add: is_agent_def)
  moreover have "c' \<in> set (clients s)" if "c' \<in> set (clients t)" "fd c' \<noteq> f" for c'
    using that 1(2) by (auto simp: cs dest!: subsetD [OF set_update_subset_insert])
  ultimately show ?thesis using d assms(2) by (auto simp: sole_bearer_def)
qed

lemma own_report:
  assumes "line_step env s (Says f (metrics_payload m)) t" and "sole_bearer name f s" and "is_agent f s"
    and "wire_ok m" and "ms_host m = name"
  shows "sole_bearer name f t \<and> is_agent f t \<and> (\<exists>m'. map_of (latest_metrics t) name = Some m' \<and> same_report m m')"
proof -
  obtain i where 1: "i < length (clients s)" "fd (clients s ! i) = f" "handle_line env i (metrics_payload m) s = Inr t"
    using assms(1) by (rule saysE)
  then have "role (clients s ! i) = Agent" using assms(3) by (simp add: is_agent_def)
  then obtain m' where "t = store_metric env m' (snd (server_clock env s))" "same_report m m'"
    using handle_report [OF assms(4), of s i env] 1(3) by fastforce
  then show ?thesis
    using assms(2,3,5) by (auto simp: sole_bearer_def is_agent_def distinct_fds_def same_report_def update_conv')
qed

definition stays_open :: "socket_t \<Rightarrow> label \<Rightarrow> bool" where
  "stays_open f e \<longleftrightarrow> e \<noteq> Leaves f \<and> (\<forall>peer. e \<noteq> Joins f peer)"

lemma run_reports:
  assumes "line_run env s es t" and "\<forall>e \<in> set es. foreign name f e \<and> stays_open f e"
    and "sole_bearer name f s" and "is_agent f s"
    and "said f es = map metrics_payload ms" and "\<forall>m \<in> set ms. wire_ok m \<and> ms_host m = name"
  shows "(ms = [] \<longrightarrow> map_of (latest_metrics t) name = map_of (latest_metrics s) name) \<and>
    (ms \<noteq> [] \<longrightarrow> (\<exists>m'. map_of (latest_metrics t) name = Some m' \<and> same_report (last ms) m'))"
  using assms
proof (induction arbitrary: ms rule: line_run.induct)
  case (stop s)
  then show ?case by simp
next
  case (more s e t es u)
  show ?case
  proof (cases "\<exists>l. e = Says f l")
    case True
    then obtain m ms' where ms: "ms = m # ms'" "e = Says f (metrics_payload m)" "said f es = map metrics_payload ms'"
      using more.prems(4) by (cases ms) auto
    have step: "sole_bearer name f t" "is_agent f t" "\<exists>m'. map_of (latest_metrics t) name = Some m' \<and> same_report m m'"
      using own_report [OF more.hyps(1) [unfolded ms(2)] more.prems(2,3)] more.prems(5) ms(1) by simp_all
    then show ?thesis using more.IH [OF _ step(1,2) ms(3)] more.prems(1,5) ms(1) by (cases "ms' = []") auto
  next
    case False
    then have step: "sole_bearer name f t" "map_of (latest_metrics t) name = map_of (latest_metrics s) name" "is_agent f t"
      using other_step [OF more.hyps(1) _ more.prems(2)] more.prems(1,3) by (auto simp: stays_open_def)
    have "said f (e # es) = said f es" using False by (cases e) auto
    then show ?thesis using more.IH [OF _ step(1,3), of ms] more.prems(1,4,5) step(2) by simp
  qed
qed

lemma run_agent:
  assumes "line_run env s es t" and "\<forall>e \<in> set es. foreign name f e \<and> stays_open f e"
    and "sole_bearer name f s" and "plain_text name"
    and "said f es = register_message name # map metrics_payload ms" and "\<forall>m \<in> set ms. wire_ok m \<and> ms_host m = name"
    and "ms \<noteq> []"
  shows "\<exists>m'. map_of (latest_metrics t) name = Some m' \<and> same_report (last ms) m'"
  using assms
proof (induction rule: line_run.induct)
  case (more s e t es u)
  show ?case
  proof (cases "\<exists>l. e = Says f l")
    case True
    then have ms: "e = Says f (register_message name)" "said f es = map metrics_payload ms"
      using more.prems(4) by auto
    show ?thesis
      using own_register [OF more.hyps(1) [unfolded ms(1)] more.prems(2,3)] run_reports [OF more.hyps(2) _ _ _ ms(2)]
        more.prems(1,5,6) by simp
  next
    case False
    then have "sole_bearer name f t"
      using other_step [OF more.hyps(1) _ more.prems(2)] more.prems(1) by (auto simp: stays_open_def)
    moreover have "said f (e # es) = said f es" using False by (cases e) auto
    ultimately show ?thesis using more.IH more.prems by simp
  qed
qed simp

lemma spoken_stays:
  "stays f ins \<Longrightarrow> \<forall>e \<in> set (spoken B ins). stays_open f e"
  by (induction B ins rule: spoken.induct) (auto simp: stays_def stays_open_def)

lemma messages_agent: "messages (agent_bytes name ms) = register_message name # map metrics_payload ms"
proof -
  let ?ls = "register_message name # map metrics_payload ms"
  have "split_lines (unlines ?ls @ []) = (?ls, [])"
    using agent_lines_free by (intro split_lines_unlines) auto
  moreover have "map trim ?ls = ?ls" "filter (\<lambda>l. l \<noteq> []) ?ls = ?ls"
    by (simp_all add: register_message_object metrics_payload_object trim_object comp_def filter_True)
  ultimately show ?thesis unfolding messages_def agent_bytes_def by (simp only: append_Nil2 fst_conv)
qed

section \<open>On the server\<close>

lemma sole_bearer_forget: "sole_bearer name f (forget s) \<longleftrightarrow> sole_bearer name f s"
  by (auto simp: sole_bearer_def distinct_fds_def forget_def comp_def)

lemma served_reports:
  assumes "server_ok s" and "serve env ps s = Some s'"
    and "stays f (serve_inputs env ps s)" and "buffer_of s f = []"
    and "received f (serve_inputs env ps s) = agent_bytes name ms"
    and "plain_text name" and "\<forall>m \<in> set ms. wire_ok m \<and> ms_host m = name" and "ms \<noteq> []"
    and "sole_bearer name f s" and "\<forall>e \<in> set (spoken (buffer_of s) (serve_inputs env ps s)). foreign name f e"
  shows "\<exists>m'. map_of (latest_metrics s') name = Some m' \<and> same_report (last ms) m'"
proof -
  let ?es = "spoken (buffer_of s) (serve_inputs env ps s)"
  have run: "line_run env (forget s) ?es (forget s')"
    using serve_implements [OF assms(2,1)] holds_buffer_of [OF assms(1)] by (simp add: implements_def)
  have "said f ?es = messages (agent_bytes name ms)"
    using said_spoken [OF assms(3), of "buffer_of s"] holds_buffer_of [OF assms(1)] by (simp add: assms(4,5))
  then have "said f ?es = register_message name # map metrics_payload ms" by (simp add: messages_agent)
  moreover have "\<forall>e \<in> set ?es. foreign name f e \<and> stays_open f e" using spoken_stays [OF assms(3)] assms(10) by blast
  moreover have "sole_bearer name f (forget s)" using assms(9) by (simp add: sole_bearer_forget)
  ultimately show ?thesis using run_agent [OF run _ _ assms(6) _ assms(7,8)] by simp
qed

section \<open>On the dashboard\<close>

lemma same_meaning:
  assumes "valid_metric m" and "valid_metric m'" and "metric_data_to_json m = metric_data_to_json m'"
  shows "meaning (metric_text m) = meaning (metric_text m')"
proof -
  have p: "utf8_decode (metric_data_to_json m) = Some (render (metric_text m))" "clean (metric_text m)"
      "utf8_decode (metric_data_to_json m) = Some (render (metric_text m'))" "clean (metric_text m')"
    using metric_prints [OF assms(1)] metric_prints [OF assms(2)] assms(3) by (simp_all add: prints_def)
  have r: "render (metric_text m) = render (metric_text m')" using p(1,3) by simp
  have o: "\<exists>fs. metric_text x = TObj fs" for x by (simp add: metric_text_def)
  have "loads (render (metric_text x)) = Some (meaning (metric_text x))" if "clean (metric_text x)" for x
    using o [of x] that loads_render by metis
  then show ?thesis using p(2,4) r by (metis option.inject)
qed

lemma wire_double_finite: "wire_double x \<Longrightarrow> is_finite x"
  by (cases x) (simp_all add: is_finite_def)

lemma wire_printable: "wire_ok m \<Longrightarrow> printable (ms_host m) \<Longrightarrow> printable (ms_timestamp m) \<Longrightarrow> printable_metric m"
  using wire_double_finite by (simp add: wire_ok_def printable_metric_def)

lemma reports_printable:
  assumes "printable (agent_name config)" and "\<forall>m \<in> set (reports env config is a). wire_ok m"
  shows "\<forall>m \<in> set (reports env config is a). printable_metric m \<and> ms_host m = agent_name config"
  using assms(2)
proof (induction "is" arbitrary: a)
  case (Cons i inputs)
  have "ms_timestamp (next_report env config i a) = iso_timestamp (fst (read_clock env (agent_net a)))"
    by (simp add: next_report_def collect_metrics_def Let_def case_prod_unfold)
  then have "printable_metric (next_report env config i a)"
    using Cons.prems assms(1) printable_iso_timestamp by (intro wire_printable) (simp_all add: next_report_host)
  then show ?case using Cons by (auto simp: next_report_host split: sum.splits)
qed simp

text \<open>
  C2: A report crosses the whole system. An agent connects and reports; its bytes reach the server in
  any pieces, over any run of the event loop, between whatever lines of printable text the other
  clients send, as long as none of them goes by the agent's name. A dashboard that registers at any time
  of that run and reads what it is sent, in any chunks, shows for that name the last report the
  agent made.
\<close>

theorem agent_report_reaches_dashboard:
  assumes agent: "reliable aenv" "phase a = Outer" "agent_step aenv config i a = Inr a1" "phase a1 = Inner fa"
      "stream (agent_net a) fa = []" "\<forall>j \<in> set inputs. running j" "inputs \<noteq> []"
      "agent_run aenv config (i # inputs) a = Inr a'"
    and name: "plain_text (agent_name config)" "printable (agent_name config)"
    and numbers: "\<forall>m \<in> set (reports aenv config inputs a1). wire_ok m"
    and server: "reliable env" "server_ok s" "clean_server s" "\<forall>p \<in> set ps. plain_poll p" "serve env ps s = Some s'"
    and connection: "stays f (serve_inputs env ps s)" "buffer_of s f = []"
      "received f (serve_inputs env ps s) = stream (agent_net a') fa"
    and others: "sole_bearer (agent_name config) f s"
      "\<forall>e \<in> set (spoken (buffer_of s) (serve_inputs env ps s)). foreign (agent_name config) f e"
    and dashboard: "g \<notin> set (dashboards (clients s))" "g \<in> set (dashboards (clients s'))"
      "stream (net s') g = stream (net s) g @ sent" "chunks_of chunks sent" "receiving c" "py_buffer c = []"
  shows "map_of (state_metrics (dash (fold (run_step denv) (map (\<lambda>ch. Received (Data ch)) chunks) c)))
      (py (agent_name config)) = Some (meaning (metric_text (last (reports aenv config inputs a1))))"
proof -
  let ?ms = "reports aenv config inputs a1" and ?name = "agent_name config"
  have sends: "length ?ms = length inputs" "\<forall>m \<in> set ?ms. ms_host m = ?name"
      "stream (agent_net a') fa = agent_bytes ?name ?ms"
    using agent_sends [OF agent(1-6)] agent(8) by auto
  then have ms: "?ms \<noteq> []" using agent(7) by (metis length_0_conv)
  then obtain m' where m': "map_of (latest_metrics s') ?name = Some m'" "same_report (last ?ms) m'"
    using served_reports [OF server(2,5) connection(1,2) _ name(1) _ ms others] connection(3) sends numbers by auto
  have "feeding g (stream (net s) g) s'"
    using feeding_serve [OF server(1,5) feeding_start [OF server(2,3) dashboard(1)] server(4)] .
  then have "printable_metric m'" using m'(1) by (force simp: feeding_def clean_server_def dest: map_of_SomeD)
  moreover have "printable_metric (last ?ms)" using reports_printable [OF name(2) numbers] ms by simp
  ultimately have eq: "meaning (metric_text m') = meaning (metric_text (last ?ms))"
    using m'(2) by (intro same_meaning printable_valid_metric) (simp_all add: same_report_def)
  have "mirrors (state_metrics (dash (fold (run_step denv) (map (\<lambda>ch. Received (Data ch)) chunks) c))) (latest_metrics s')"
    using registered_mirror [OF server(1-3) dashboard(1) server(4,5) dashboard(2-6), of denv] by simp
  moreover have "map_of (copied t) (py h) = map_option (meaning \<circ> metric_text) (map_of t h)" for t h
    by (induction t) (auto simp: copied_def)
  moreover have "py ?name \<noteq> []" using others(1) by (simp add: sole_bearer_def py_def)
  ultimately show ?thesis using m'(1) eq by (simp add: mirrors_def)
qed

section \<open>Example\<close>

lemma spoken_says:
  assumes "\<forall>e \<in> set ins. \<exists>g bs. e = Receives g bs" and "e \<in> set (spoken B ins)"
  shows "\<exists>g l. e = Says g l \<and> l \<in> set (said g (spoken B ins))"
proof -
  have "\<exists>g l. e = Says g l" using assms by (induction B ins rule: spoken.induct) auto
  then show ?thesis using assms(2) by (force simp: said_def split: label.splits)
qed

lemma foreign_by_said:
  assumes "\<forall>e \<in> set ins. \<exists>g bs. e = Receives g bs"
    and "\<And>g l. g \<noteq> f \<Longrightarrow> l \<in> set (said g (spoken B ins)) \<Longrightarrow> json_get_string l ''host'' \<noteq> Some name"
  shows "\<forall>e \<in> set (spoken B ins). foreign name f e"
  using spoken_says [OF assms(1)] assms(2) by fastforce

lemma plain_unlines: "\<forall>l \<in> set ls. printable l \<Longrightarrow> plain_bytes (unlines ls)"
proof (induction ls)
  case (Cons l ls)
  then have "plain_bytes l" "plain_bytes (unlines ls)" by (simp_all add: plain_bytes_printable)
  then show ?case by (simp add: plain_bytes_def)
qed (simp add: plain_bytes_def)

lemma printable_payload: "printable_metric m \<Longrightarrow> printable (metrics_payload m)"
proof -
  assume "printable_metric m"
  then have "printable (metric_data_to_json m)" by (rule printable_metric_data)
  then have "printable (drop 1 (metric_data_to_json m))" by (rule printable_subset [rotated]) (rule set_drop_subset)
  then show ?thesis by (simp add: metrics_payload_def printable_simps)
qed

lemma agent_bytes_plain:
  assumes "printable name" and "\<forall>m \<in> set ms. printable_metric m"
  shows "plain_bytes (agent_bytes name ms)"
proof -
  have "printable (register_message name)" using assms(1) by (simp add: register_message_def printable_simps)
  then show ?thesis unfolding agent_bytes_def using assms(2) printable_payload by (intro plain_unlines) auto
qed

lemma plain_chunk_polls: "plain_bytes b \<Longrightarrow> \<forall>p \<in> set (map (chunk_poll f) (bytewise b)). plain_poll p"
  by (auto simp: bytewise_def plain_poll_def chunk_poll_def plain_bytes_def printable_def)

lemma plain_register: "plain_bytes dash_register"
  using plain_unlines [of "[register_text]"] register_text_fields(1,4) by simp

theorem agent_report_reaches_dashboard_example:
  "\<exists>a1 a' s'. agent_step steady_env web_config connecting_input (initial_agent sample_probe 0) = Inr a1 \<and>
     agent_run steady_env web_config [connecting_input, reporting_input] (initial_agent sample_probe 0) = Inr a' \<and>
     serve steady_env (map (chunk_poll 6) (bytewise dash_register) @ map (chunk_poll 5) (bytewise (stream (agent_net a') 7)))
       meeting_server = Some s' \<and>
     map_of (state_metrics (dash (fold (run_step calm_env) (map (\<lambda>ch. Received (Data ch)) (bytewise (stream (net s') 6)))
         registered_connector))) (py ''web1'') =
       Some (meaning (metric_text (next_report steady_env web_config reporting_input a1)))"
proof -
  let ?a = "initial_agent sample_probe 0"
  obtain a1 where step: "agent_step steady_env web_config connecting_input ?a = Inr a1" "phase a1 = Inner 7"
      "previous_cpu a1 = no_cpu" "previous_net a1 = no_net" "previous_tick a1 = 0"
    using sample_connects by blast
  let ?m = "next_report steady_env web_config reporting_input a1"
  note sample = sample_input_plausible [OF step(3-5)]
  have rs: "reports steady_env web_config [reporting_input] a1 = [?m]" by (simp split: sum.split)
  have ok: "wire_ok ?m" using next_report_wire_ok [OF sample(1) sample_meminfo_facts sample_memory sample(2-8)] .
  have name: "agent_name web_config = ''web1''" "printable ''web1''" by (simp_all add: web_config_def printable_Cons)
  have pm: "printable_metric ?m"
    using reports_printable [of web_config steady_env "[reporting_input]" a1] ok name unfolding rs by simp
  have start: "phase ?a = Outer" "stream (agent_net ?a) 7 = []" "\<forall>j \<in> set [reporting_input]. running j"
    by (simp_all add: initial_agent_def initial_world_def stream_def reporting_input_def connecting_input_def)
  obtain a' where run: "agent_run steady_env web_config [connecting_input, reporting_input] ?a = Inr a'"
      "stream (agent_net a') 7 = agent_bytes ''web1'' [?m]"
    using agent_sends [OF reliable_steady_env start(1) step(1,2) start(2,3)] unfolding rs name by blast
  let ?b = "stream (agent_net a') 7"
  let ?ps = "map (chunk_poll 6) (bytewise dash_register) @ map (chunk_poll 5) (bytewise ?b)"
  let ?ins = "map (Receives 6) (bytewise dash_register) @ map (Receives 5) (bytewise ?b)"
  obtain t where t: "serve steady_env (map (chunk_poll 6) (bytewise dash_register)) meeting_server = Some t"
      "serve_inputs steady_env (map (chunk_poll 6) (bytewise dash_register)) meeting_server =
         map (Receives 6) (bytewise dash_register)" "settled t"
      "clients t = [sample_client Unknown, (clients meeting_server ! 1)
         \<lparr>declared_host := ''flask-dashboard'', role := Dashboard, buffer := []\<rparr>]"
    using meeting_registration by blast
  have k: "0 < length (clients t)" "fd (clients t ! 0) = 5" "buffer (clients t ! 0) = []"
    by (simp_all add: t(4) sample_client_def)
  have "\<forall>m \<in> set [?m]. wire_ok m \<and> ms_host m = ''web1''" using ok by (simp add: next_report_host name)
  moreover have "plain_text ''web1''" using sample(8) by (simp add: name)
  ultimately obtain s' where s': "read_chunks steady_env 0 (bytewise ?b) t = Inr s'"
      "clients s' = (clients t)[0 := (clients t ! 0)\<lparr>declared_host := ''web1'', role := Agent, buffer := []\<rparr>]"
    using server_reads_agent [OF k(1,3) _ _ bytewise_chunks(1), of "''web1''" "[?m]" ?b steady_env] bytewise_chunks(2) run(2)
    by auto
  have serve: "serve steady_env ?ps meeting_server = Some s'" "serve_inputs steady_env ?ps meeting_server = ?ins"
    using serve_append [OF t(1)] serve_chunks [OF s'(1) bytewise_chunks(1) t(3) k(1,2)] t(2) by simp_all
  have plain: "\<forall>p \<in> set ?ps. plain_poll p"
    using plain_chunk_polls [OF plain_register, of 6] plain_chunk_polls [OF agent_bytes_plain [OF name(2), of "[?m]"], of 5] pm
    by (simp add: run(2) ball_Un)
  have said: "said g (spoken (\<lambda>_. []) ?ins) = (if g = 6 then [register_text] else [])" if "g \<noteq> 5" for g
  proof -
    have "said g (spoken (\<lambda>_. []) ?ins) = messages ([] @ received g ?ins)" by (rule said_spoken) simp_all
    moreover have "messages [] = []" by (simp add: messages_def)
    ultimately show ?thesis using that by (simp add: bytewise_chunks(2) messages_register)
  qed
  have "json_get_string register_text ''host'' = Some ''flask-dashboard''" by code_simp
  then have foreign: "\<forall>e \<in> set (spoken (buffer_of meeting_server) (serve_inputs steady_env ?ps meeting_server)).
      foreign (agent_name web_config) 5 e"
    unfolding serve(2) meeting_server_ok(4) name using said by (intro foreign_by_said) (auto split: if_splits)
  have sole: "sole_bearer (agent_name web_config) 5 meeting_server"
    by (simp add: name sole_bearer_def distinct_fds_def meeting_server_def sample_client_def)
  have dash: "6 \<notin> set (dashboards (clients meeting_server))" "6 \<in> set (dashboards (clients s'))" "stream (net meeting_server) 6 = []"
    by (simp_all add: s'(2) t(4) dashboards_def meeting_server_def sample_client_def stream_def initial_world_def)
  have conn: "stays 5 (serve_inputs steady_env ?ps meeting_server)"
      "received 5 (serve_inputs steady_env ?ps meeting_server) = stream (agent_net a') 7"
    unfolding serve(2) by (simp_all add: bytewise_chunks(2))
  have "chunks_of (bytewise (stream (net s') 6)) (stream (net s') 6)" using single_bytes by (simp add: bytewise_def)
  moreover have "receiving registered_connector" "py_buffer registered_connector = []"
    by simp_all
  ultimately show ?thesis
    using agent_report_reaches_dashboard [OF reliable_steady_env start(1) step(1,2) start(2,3) _ run(1) _ _ _
        reliable_steady_env meeting_server_ok(1,2) plain serve(1) conn(1) _ conn(2) sole foreign dash(1,2),
        where denv = calm_env and sent = "stream (net s') 6" and chunks = "bytewise (stream (net s') 6)"
          and c = registered_connector]
      dash(3) name sample(8) ok step(1) run(1) serve(1)
    unfolding rs by (auto simp: meeting_server_ok(4))
qed

end
