(* ===== verification/Dashboard_Commands.thy ===== *)
theory Dashboard_Commands
  imports Dashboard_State Server_Replies
begin

text \<open>
  The other direction: what the dashboard sends with \<^verbatim>\<open>send_command\<close> is a line that
  \<^verbatim>\<open>json.dumps\<close> wrote, with its own separators and escapes, and the server reads it with
  its regular expressions, which find no field inside a dumped string.
\<close>

section \<open>Strings that json.dumps wrote\<close>

lemma hex_digit_set: "hex_digit (n mod 16) \<in> set ''0123456789abcdef''"
proof -
  have "n mod 16 < length ''0123456789abcdef''" by simp
  then show ?thesis unfolding hex_digit_def by (rule nth_mem)
qed

definition dumped :: "py_str \<Rightarrow> cpp_string" where
  "dumped u = concat (map dumps_char u)"

lemma dumped_simps [simp]: "dumped [] = []" "dumped (a # u) = dumps_char a @ dumped u"
  by (simp_all add: dumped_def)

lemma dumps_quote: "dumps_char 34 = [CHR_backslash, CHR_quote]"
  by (simp add: dumps_char_def)

lemma dumps_char_no_quote: "a \<noteq> 34 \<Longrightarrow> CHR_quote \<notin> set (dumps_char a)"
proof -
  assume a: "a \<noteq> 34"
  have u0: "hex_digit (n mod 16) \<noteq> CHR_quote" for n using hex_digit_set [of n] by auto
  then have u: "CHR_quote \<notin> set (unicode_escape n)" for n by (simp add: unicode_escape_def not_sym [OF u0])
  have "char_of a \<noteq> CHR_quote" if "a < 127"
  proof
    assume "char_of a = CHR_quote"
    then have "(of_char (char_of a :: char) :: nat) = 34" by simp
    then show False using that a by simp
  qed
  then show ?thesis using a u by (auto simp: dumps_char_def)
qed

text \<open>Inside a dumped string every quote comes after a backslash, so no field starts there.\<close>

lemma dumped_quote:
  "CHR_quote \<in> set (dumped u) \<Longrightarrow>
    \<exists>p r. dumped u = p @ CHR_backslash # CHR_quote # r \<and> CHR_quote \<notin> set p"
proof (induction u)
  case (Cons a u)
  show ?case
  proof (cases "a = 34")
    case True
    then show ?thesis by (intro exI [of _ "[]"] exI [of _ "dumped u"]) (simp add: dumps_quote)
  next
    case False
    then have none: "CHR_quote \<notin> set (dumps_char a)" by (rule dumps_char_no_quote)
    then obtain p r where "dumped u = p @ CHR_backslash # CHR_quote # r" "CHR_quote \<notin> set p"
      using Cons by auto
    then show ?thesis using none by (intro exI [of _ "dumps_char a @ p"] exI [of _ r]) simp
  qed
qed simp

context field_reader
begin

lemma field_value_dumped:
  assumes "ident key" and "c \<noteq> CHR '':''" and "\<not> isspace c"
  shows "field_value key (CHR_quote # dumped u @ CHR_quote # c # s) = None"
proof (cases "CHR_quote \<in> set (dumped u)")
  case True
  then obtain p r where d: "dumped u = p @ CHR_backslash # CHR_quote # r" "CHR_quote \<notin> set p" using dumped_quote by blast
  have "\<not> ident_char CHR_backslash" by (simp add: ident_char_def)
  then have k: "p @ [CHR_backslash] \<noteq> key" using assms(1) by (auto simp: ident_def)
  obtain x t where "r @ CHR_quote # c # s = x # t" by (cases "r @ CHR_quote # c # s") auto
  then have "CHR_quote # dumped u @ CHR_quote # c # s = quoted_key (p @ [CHR_backslash]) @ x # t"
    by (simp add: d(1) quoted_key_def)
  moreover have "field_value key (quoted_key (p @ [CHR_backslash]) @ x # t) = None"
    using assms(1) d(2) k by (intro field_value_other) simp_all
  ultimately show ?thesis by simp
next
  case False
  have "field_value key (quoted_key (dumped u) @ c # s) = None" using assms False by (intro field_value_other) simp_all
  then show ?thesis by (simp add: quoted_key_def)
qed

lemma get_skip_dumped:
  assumes "ident key" and "c \<noteq> CHR '':''" and "\<not> isspace c" and "\<not> ident_char c" and "c \<noteq> CHR_quote"
  shows "get (dumped u @ CHR_quote # c # s) key = get s key"
proof (induction u)
  case Nil
  show ?case using field_value_closing [OF assms(1,4)] assms(5) by (simp add: get_miss get_skip_Cons)
next
  case (Cons a u)
  show ?case
  proof (cases "a = 34")
    case True
    have "get (dumped (a # u) @ CHR_quote # c # s) key = get (CHR_quote # dumped u @ CHR_quote # c # s) key"
      by (simp add: True dumps_quote get_skip_Cons)
    then show ?thesis using Cons field_value_dumped [OF assms(1-3)] by (simp add: get_miss)
  next
    case False
    then show ?thesis using Cons get_skip [OF dumps_char_no_quote [OF False]] by simp
  qed
qed

end

section \<open>The line\<close>

lemma nl_free_dumps_char: "nl_free (dumps_char c)"
proof -
  have "nl_free [hex_digit (n mod 16)]" for n using hex_digit_set [of n] by auto
  then have u: "nl_free (unicode_escape n)" for n by (auto simp: unicode_escape_def)
  have "char_of c \<noteq> CHR_nl" if "32 \<le> c" "c < 127"
  proof
    assume "char_of c = CHR_nl"
    then have "(of_char (char_of c :: char) :: nat) = 10" by simp
    then show False using that by simp
  qed
  then show ?thesis using u by (auto simp: dumps_char_def)
qed

lemma nl_free_command: "nl_free (command_message u)"
  using nl_free_dumps_char by (auto simp: command_message_def dumps_string_def)

lemma trim_command: "trim (command_message u) = command_message u"
proof -
  have "trim ([] @ command_message u @ []) = command_message u"
    by (rule trim_eqI) (simp_all add: command_message_def isspace_def spaces_def)
  then show ?thesis by simp
qed

section \<open>What the server reads\<close>

text \<open>The text between the quote that opens the string and the next quote.\<close>

definition heard :: "py_str \<Rightarrow> cpp_string" where
  "heard u = takeWhile (\<lambda>c. c \<noteq> CHR_quote) (concat (map dumps_char u))"

lemma takeWhile_until: "takeWhile (\<lambda>c. c \<noteq> q) (xs @ q # ys) = takeWhile (\<lambda>c. c \<noteq> q) xs"
  by (induction xs) auto

lemma command_message_shape:
  "command_message u = CHR ''{'' # quoted_key ''type'' @ CHR '':'' # CHR '' '' # quoted_key ''command'' @ CHR '','' #
     CHR '' '' # quoted_key ''text'' @ CHR '':'' # CHR '' '' # CHR_quote # concat (map dumps_char u) @ CHR_quote # ''}''"
  by (simp add: command_message_def dumps_string_def quoted_key_def)

lemma command_idents: "ident ''type''" "ident ''text''" "isspace (CHR '' '')"
  by (simp_all add: ident_def ident_char_def isspace_def spaces_def)

lemma command_type: "str_field (command_message u) ''type'' [] = ''command''"
proof -
  have "string_token (quoted_key ''command'' @ rest) = Some ''command''" for rest
    using string_token_quoted [of "''command''" rest] by (simp add: quoted_key_def)
  then have "json_get_string (command_message u) ''type'' = Some ''command''"
    unfolding command_message_shape
    by (subst str.get_skip_Cons, simp, intro str.get_here) (simp add: command_idents(3) quoted_key_def)
  then show ?thesis by (simp add: str_field_def value_or_def)
qed

lemma command_text: "str_field (command_message u) ''text'' [] = heard u"
proof -
  let ?rest = "CHR_quote # concat (map dumps_char u) @ CHR_quote # ''}''"
  have "string_token ?rest = Some (heard u)" by (simp add: string_token_def heard_def takeWhile_until)
  then have here: "json_get_string (quoted_key ''text'' @ CHR '':'' # CHR '' '' # ?rest) ''text'' = Some (heard u)"
    by (intro str.get_here) (simp add: command_idents(3))
  have "json_get_string (command_message u) ''text'' =
      json_get_string (quoted_key ''text'' @ CHR '':'' # CHR '' '' # ?rest) ''text''"
    unfolding command_message_shape
    by (simp add: str.get_skip_Cons str.get_skip_key [OF command_idents(2,1)]
        str.get_skip_quoted [OF command_idents(2), of "''command''" "CHR '',''"])
  with here show ?thesis by (simp add: str_field_def value_or_def)
qed

text \<open>A command in printable characters that needs no escape arrives as it is.\<close>

definition command_safe :: "cpp_string \<Rightarrow> bool" where
  "command_safe t \<longleftrightarrow> (\<forall>c \<in> set t. 32 \<le> (of_char c :: nat) \<and> (of_char c :: nat) < 127 \<and> plain c)"

lemma heard_safe: "command_safe t \<Longrightarrow> heard (py t) = t"
proof -
  assume safe: "command_safe t"
  have "dumps_char (of_char c) = [c]" if "c \<in> set t" for c
  proof -
    have c: "32 \<le> (of_char c :: nat)" "(of_char c :: nat) < 127" "c \<noteq> CHR_quote" "c \<noteq> CHR_backslash"
      using safe that by (auto simp: command_safe_def plain_def)
    have "of_char c \<noteq> (of_char CHR_quote :: nat)" "of_char c \<noteq> (of_char CHR_backslash :: nat)"
      using c(3,4) by (metis char_of_char)+
    then show ?thesis using c(1,2) by (auto simp: dumps_char_def)
  qed
  then have "map dumps_char (py t) = map (\<lambda>c. [c]) t" by (simp add: py_def)
  moreover have "concat (map (\<lambda>c. [c]) t) = t" by (induction t) auto
  moreover have "CHR_quote \<notin> set t" using safe by (auto simp: command_safe_def plain_def)
  ultimately show ?thesis by (auto simp: heard_def takeWhile_eq_all_conv)
qed

lemma command_line: "handle_line env i (command_message u) s = handle_command env (fd (clients s ! i)) (heard u) s"
  by (simp add: handle_line_def command_type command_text)

lemma single_line_read:
  assumes "i < length (clients s)" and "buffer (clients s ! i) = []" and "\<forall>ch \<in> set chunks. recv_chunk ch"
    and "concat chunks = l @ [CHR_nl]" and "nl_free l" and "trim l = l" and "l \<noteq> []"
  shows "read_chunks env i chunks s = map_result (set_buffer i []) (handle_line env i l s)"
proof -
  let ?b = "append_bytes i (l @ [CHR_nl]) s"
  have "read_chunks env i chunks s = process_lines env i ?b"
    using read_chunks_whole [OF assms(1,3)] assms(2,4) by simp
  also have "\<dots> = map_result (set_buffer i []) (each_line (handle_if_nonempty env i) [l] ?b)"
    using conn.process_lines_spec [of i ?b "[l]" "[]" env] assms(1,2,5,6) by simp
  also have "\<dots> = map_result (set_buffer i []) (each_line (handle_if_nonempty env i) [l] s)"
    unfolding append_bytes_def conn.each_line_put
    by (cases "each_line (handle_if_nonempty env i) [l] s") simp_all
  finally show ?thesis using assms(7) by (cases "handle_line env i l s") (simp_all add: handle_if_nonempty_def)
qed

lemma handle_command_frame:
  assumes "handle_command env f t s = Inr s'"
  shows "clients s' = clients s"
  using assms by (rule handle_command_cases) simp_all

text \<open>
  C16: What the dashboard's user sends as a command reaches the server's \<open>handle_command\<close>: whatever chunks
  the bytes arrive in, the server reads the line, answers the command and keeps nothing in its buffer. The
  text is the user's up to the first quote, with the escapes of JSON; a text in printable characters
  without quotes and backslashes arrives unchanged. When the dashboard is not connected nothing is sent.
\<close>

theorem dashboard_command_received:
  assumes "send_command u c = Some c'" and "sent_bytes c' = sent_bytes c @ concat chunks"
    and "\<forall>ch \<in> set chunks. recv_chunk ch" and "i < length (clients s)" and "buffer (clients s ! i) = []"
  shows "receiving c \<and> read_chunks env i chunks s = handle_command env (fd (clients s ! i)) (heard u) s \<and>
    (\<forall>t. command_safe t \<longrightarrow> heard (py t) = t)"
proof -
  have c: "receiving c" "concat chunks = command_message u @ [CHR_nl]"
    using assms(1,2) by (auto simp: send_command_def send_message_def split: if_splits)
  have "read_chunks env i chunks s = map_result (set_buffer i []) (handle_line env i (command_message u) s)"
    using assms(3-5) c(2) nl_free_command trim_command by (intro single_line_read) (simp_all add: command_message_def)
  also have "\<dots> = handle_command env (fd (clients s ! i)) (heard u) s"
  proof (cases "handle_command env (fd (clients s ! i)) (heard u) s")
    case (Inr t)
    have "set_buffer i [] t = t" using handle_command_frame [OF Inr] assms(5) conn.put_get [of i t] by simp
    then show ?thesis using Inr by (simp add: command_line)
  qed (simp add: command_line)
  finally show ?thesis using c(1) heard_safe by blast
qed

theorem dashboard_command_received_example:
  "\<exists>c'. send_command (py ''/clients'') registered_connector = Some c' \<and>
     read_chunks steady_env 0 [command_message (py ''/clients'') @ [CHR_nl]] (sample_server Dashboard) =
       Inr (server_send steady_env 5 (ack_event_to_json ''connected agents: 0'') (sample_server Dashboard))"
proof -
  let ?line = "command_message (py ''/clients'')"
  have sent: "send_command (py ''/clients'') registered_connector = Some (registered_connector\<lparr>sent_bytes := dash_register @ concat [?line @ [CHR_nl]]\<rparr>)"
    by (simp add: send_command_def send_message_def)
  have "length ?line < 100" by (simp add: command_message_def dumps_string_def dumps_char_def)
  then have ch: "\<forall>ch \<in> set [?line @ [CHR_nl]]. recv_chunk ch" by (simp add: recv_chunk_def)
  have s: "0 < length (clients (sample_server Dashboard))" "buffer (clients (sample_server Dashboard) ! 0) = []"
      "fd (clients (sample_server Dashboard) ! 0) = 5" "latest_metrics (sample_server Dashboard) = []"
    by (simp_all add: sample_server_def sample_client_def)
  have "heard (py ''/clients'') = ''/clients''"
    using heard_safe [of "''/clients''"] by (simp add: command_safe_def plain_def)
  moreover have "lower_copy (trim ''/clients'') = ''/clients''" "nat_to_string 0 = ''0''" by code_simp+
  ultimately have "handle_command steady_env 5 (heard (py ''/clients'')) (sample_server Dashboard) =
      Inr (server_send steady_env 5 (ack_event_to_json ''connected agents: 0'') (sample_server Dashboard))"
    by (simp only: handle_command_def Let_def) (simp add: starts_with_def s(4))
  then show ?thesis
    using dashboard_command_received [OF sent _ ch s(1,2), of steady_env] sent unfolding s(3) by simp
qed

end
