(* ===== verification/Alert_Delivery.thy ===== *)
theory Alert_Delivery
  imports Report_Delivery Dashboard_Commands
begin

text \<open>
  Alerts on their way to the pages: one report of an agent, the rules it newly matches, and what every
  dashboard shows afterwards.
\<close>

section \<open>The messages of a report\<close>

definition newly_matching :: "MonitorServer \<Rightarrow> MetricSnapshot \<Rightarrow> AlertRule list" where
  "newly_matching s m =
     filter (\<lambda>r. rule_matches r m \<and> \<not> latched s (ms_host m) (raw_command r)) (firsts (alert_rules s))"

definition alert_events :: "MetricSnapshot \<Rightarrow> AlertRule list \<Rightarrow> int list \<Rightarrow> AlertEvent list" where
  "alert_events m rs ts = map2 (make_alert m) rs ts"

lemma alert_events_simps [simp]:
  "alert_events m [] ts = []" "alert_events m (r # rs) (t # ts) = make_alert m r t # alert_events m rs ts"
  by (simp_all add: alert_events_def)

lemma announced_stream:
  assumes "reliable env" and "distinct fds" and "g \<in> set fds"
  shows "\<exists>ts. length ts = length rs \<and>
    stream (snd (fold (announce env m) rs (fds, w))) g =
      stream w g @ unlines (map event_line (map Alert (alert_events m rs ts)))"
proof (induction rs arbitrary: w)
  case Nil
  then show ?case by simp
next
  case (Cons r rs)
  let ?w = "send_all env (alert_message env m r w) fds (snd (read_clock env w))"
  obtain ts where ts: "length ts = length rs"
      "stream (snd (fold (announce env m) rs (fds, ?w))) g = stream ?w g @ unlines (map event_line (map Alert (alert_events m rs ts)))"
    using Cons.IH by blast
  have "stream ?w g = stream w g @ event_line (Alert (make_alert m r (fst (read_clock env w)))) @ [CHR_nl]"
    using send_all_reliable [OF assms(1,2)] assms(3) by (simp add: alert_message_def read_clock_def)
  moreover have "announce env m r (fds, w) = (fds, ?w)" by (simp add: announce_def)
  ultimately show ?case
    using ts by (intro exI [of _ "fst (read_clock env w) # ts"]) simp
qed

lemma alerts_of_alerts: "concat (map alerts_of (map Alert as)) = map (meaning \<circ> alert_text) as"
  by (induction as) simp_all

lemma newly_matching_cong:
  "alert_rules t = alert_rules s \<Longrightarrow> active_alerts t = active_alerts s \<Longrightarrow> newly_matching t m = newly_matching s m"
  by (simp add: newly_matching_def latched_def)

lemma store_metric_stream:
  assumes "reliable env" and "distinct_fds s" and "\<forall>r \<in> set (alert_rules s). wf_rule r" and "g \<in> set (dashboards (clients s))"
  shows "\<exists>ts. length ts = length (newly_matching s m) \<and>
    stream (net (store_metric env m s)) g =
      stream (net s) g @ unlines (map event_line (Metric m # map Alert (alert_events m (newly_matching s m) ts)))"
proof -
  let ?s1 = "s\<lparr>latest_metrics := AList.update (ms_host m) m (latest_metrics s)\<rparr>"
  let ?s2 = "broadcast_to_dashboards env (metric_event_to_json m) ?s1"
  have d: "distinct_fds ?s1" using assms(2) by (simp add: distinct_fds_def)
  have "distinct (dashboards (clients s))"
    using assms(2) by (simp add: distinct_fds_def dashboards_def distinct_map inj_on_def)
  then obtain ts where ts: "length ts = length (newly_matching s m)"
      "stream (snd (fold (announce env m) (newly_matching s m) (dashboards (clients s), net ?s2))) g =
        stream (net ?s2) g @ unlines (map event_line (map Alert (alert_events m (newly_matching s m) ts)))"
    using announced_stream [OF assms(1) _ assms(4)] by blast
  have "audience (store_metric env m s) = fold (announce env m) (newly_matching ?s2 m) (audience ?s2)"
    using evaluate_rules_announces [of ?s2 env m] assms(3) by (simp add: store_metric_def newly_matching_def)
  also have "newly_matching ?s2 m = newly_matching s m" by (rule newly_matching_cong) simp_all
  also have "audience ?s2 = (dashboards (clients s), net ?s2)" by (simp add: audience_def)
  finally have "stream (net (store_metric env m s)) g =
      stream (net ?s2) g @ unlines (map event_line (map Alert (alert_events m (newly_matching s m) ts)))"
    using ts(2) by (simp add: audience_def) (metis snd_conv)
  then show ?thesis using ts(1) broadcast_stream [OF assms(1) d] assms(4) by (intro exI [of _ ts]) simp
qed

section \<open>On the pages\<close>

lemma stored_printable:
  assumes "reliable env" and "distinct_fds s" and "clean_server s" and "i < length (clients s)"
    and "wire_ok m" and "printable_metric m" and "handle_line env i (metrics_payload m) s = Inr (store_metric env m' s0)"
  shows "printable_metric m'"
proof -
  have "str_field (metrics_payload m) ''type'' [] = ''metrics''"
    using assms(5) by (intro payload_type) (simp_all add: wire_ok_def)
  then have "clean_server (store_metric env m' s0)"
    using talks_line [OF assms(1-3) printable_payload [OF assms(6)] assms(4) _ assms(7)] by simp
  moreover have "m' \<in> snd ` set (latest_metrics (store_metric env m' s0))"
    using map_of_SomeD [of "AList.update (ms_host m') m' (latest_metrics s0)" "ms_host m'" m'] by (force simp: update_conv')
  ultimately show ?thesis unfolding clean_server_def by blast
qed

lemma report_events_printable:
  assumes "printable_metric m" and "\<forall>r \<in> set rs. printable_rule r"
  shows "\<forall>e \<in> set (Metric m # map Alert (alert_events m rs ts)). printable_event e"
proof -
  have "printable_event (Alert (make_alert m r t))" if "r \<in> set rs" for r t
    using make_alert_no_news [OF assms(1), of r undefined t] assms(2) that by (simp add: no_news_def ordinary_def)
  then show ?thesis using assms(1) by (auto simp: alert_events_def dest!: set_zip_leftD)
qed

text \<open>
  C6: An alert crosses the whole system. A registered agent's report reaches the server in any pieces;
  for every rule it newly matches, in the order of the rules, one alert is appended to what each
  dashboard shows, which keeps the last 50: whoever is a dashboard at that time and reads what it
  is sent, in whatever chunks, shows exactly these alerts after the ones it had.
\<close>

theorem alerts_reach_every_page:
  assumes "reliable env" and "server_ok s" and "clean_server s" and "i < length (clients s)"
    and "role (clients s ! i) = Agent" and "buffer (clients s ! i) = []"
    and "wire_ok m" and "printable_metric m"
    and "\<forall>ch \<in> set chunks. recv_chunk ch" and "concat chunks = metrics_payload m @ [CHR_nl]"
  shows "\<exists>m' s'. read_chunks env i chunks s = Inr s' \<and> same_report m m' \<and>
    (\<forall>g \<in> set (dashboards (clients s)). \<exists>ts sent. length ts = length (newly_matching s m') \<and>
       stream (net s') g = stream (net s) g @ sent \<and>
       (\<forall>denv pieces c. chunks_of pieces sent \<and> receiving c \<and> py_buffer c = [] \<and> length (state_alerts (dash c)) \<le> 50 \<longrightarrow>
          state_alerts (dash (fold (run_step denv) (map (\<lambda>ch. Received (Data ch)) pieces) c)) =
            last_n 50 (state_alerts (dash c) @ map (meaning \<circ> alert_text) (alert_events m' (newly_matching s m') ts))))"
proof -
  let ?l = "metrics_payload m" and ?s0 = "snd (server_clock env s)"
  obtain m' where m': "handle_line env i ?l s = Inr (store_metric env m' ?s0)" "same_report m m'"
    using handle_report [OF assms(7,5)] by blast
  let ?s' = "store_metric env m' ?s0"
  have s: "distinct_fds s" "\<forall>r \<in> set (alert_rules s). wf_rule r" "\<forall>r \<in> set (alert_rules s). printable_rule r"
    using assms(2,3) by (simp_all add: server_ok_def sockets_ok_def watched_def distinct_fds_def tables_ok_def clean_server_def)
  have "read_chunks env i chunks s = map_result (set_buffer i []) (handle_line env i ?l s)"
    using assms(4,6,9,10) agent_lines_free(2) by (intro single_line_read) (simp_all add: metrics_payload_object trim_object)
  moreover have "set_buffer i [] ?s' = ?s'" using assms(6) conn.put_get [of i ?s'] by simp
  ultimately have read: "read_chunks env i chunks s = Inr ?s'" using m'(1) by simp
  have nm: "newly_matching ?s0 m' = newly_matching s m'" by (rule newly_matching_cong) simp_all
  have pm: "printable_metric m'" by (rule stored_printable [OF assms(1) s(1) assms(3,4,7,8) m'(1)])
  have shows_alerts: "\<exists>ts sent. length ts = length (newly_matching s m') \<and> stream (net ?s') g = stream (net s) g @ sent \<and>
       (\<forall>denv pieces c. chunks_of pieces sent \<and> receiving c \<and> py_buffer c = [] \<and> length (state_alerts (dash c)) \<le> 50 \<longrightarrow>
          state_alerts (dash (fold (run_step denv) (map (\<lambda>ch. Received (Data ch)) pieces) c)) =
            last_n 50 (state_alerts (dash c) @ map (meaning \<circ> alert_text) (alert_events m' (newly_matching s m') ts)))"
    if g: "g \<in> set (dashboards (clients s))" for g
  proof -
    obtain ts where ts: "length ts = length (newly_matching s m')"
        "stream (net ?s') g = stream (net ?s0) g @
          unlines (map event_line (Metric m' # map Alert (alert_events m' (newly_matching s m') ts)))"
      using store_metric_stream [OF assms(1), of ?s0 g m'] s(1,2) g by (auto simp: distinct_fds_def nm)
    let ?es = "Metric m' # map Alert (alert_events m' (newly_matching s m') ts)"
    have "\<forall>e \<in> set ?es. printable_event e"
      using pm s(3) by (intro report_events_printable) (auto simp: newly_matching_def)
    then have "state_alerts (dash (fold (run_step denv) (map (\<lambda>ch. Received (Data ch)) pieces) c)) =
        last_n 50 (state_alerts (dash c) @ map (meaning \<circ> alert_text) (alert_events m' (newly_matching s m') ts))"
      if "chunks_of pieces (unlines (map event_line ?es))" "receiving c" "py_buffer c = []"
        "length (state_alerts (dash c)) \<le> 50" for denv pieces c
      using dashboard_reads_events [of ?es c pieces denv] feed_alerts [OF that(4), of denv ?es] that alerts_of_alerts
      by (simp del: feed.simps)
    then show ?thesis
      using ts server_clock_stream by (intro exI [of _ ts] exI [of _ "unlines (map event_line ?es)"]) auto
  qed
  show ?thesis using read m'(2) shows_alerts by (intro exI [of _ m'] exI [of _ ?s']) blast
qed

section \<open>Example\<close>

text \<open>An agent on socket 5, a dashboard on socket 6, and a rule.\<close>

definition watching_server :: MonitorServer where
  "watching_server =
     \<lparr>listen_fd = 3, clients = [sample_client Agent, (sample_client Dashboard)\<lparr>fd := 6\<rparr>],
      latest_metrics = [], alert_rules = [cpu_rule], active_alerts = [], net = initial_world\<lparr>opened := [3, 5, 6]\<rparr>\<rparr>"

lemma cpu_rule_printable: "printable_rule cpu_rule"
proof -
  have "is_finite (dbl_of_nat 80)" by (simp add: dbl_evals is_finite_def)
  then show ?thesis by (simp add: printable_rule_def cpu_rule_def printable_Cons)
qed

lemma watching_server_ok: "server_ok watching_server" "clean_server watching_server"
  using cpu_rule_printable cpu_rule_wf
  by (simp_all add: server_ok_def tables_ok_def balanced_def sockets_ok_def buffers_ok_def clean_server_def watched_def
      sample_client_def initial_world_def distinct_keys_def is_socket_valid_def plain_bytes_def printable_Cons
      watching_server_def)

lemma cpu_rule_matches_received:
  assumes "same_report (cpu_report ''web1'' 95) m"
  shows "newly_matching watching_server m = [cpu_rule]"
proof -
  have v: "val (dbl_of_nat 95) = 95" "val (dbl_of_nat 80) = 80" "is_finite (dbl_of_nat 80)"
    by (simp_all add: dbl_evals is_finite_def)
  have close: "\<bar>val (cpu_percent m) - 95\<bar> \<le> 1 / 100"
    using assms by (simp add: same_report_def cpu_report_def v)
  then have "is_finite (cpu_percent m)" by (cases "cpu_percent m") (simp_all add: is_finite_def)
  moreover have "metric_value_for_key m (rule_metric_key cpu_rule) = cpu_percent m"
    by (simp add: cpu_rule_def metric_value_for_key_def)
  moreover have "comparison cpu_rule = CHR ''>''" "rule_threshold cpu_rule = dbl_of_nat 80" by (simp_all add: cpu_rule_def)
  moreover have "80 < val (cpu_percent m)" using close by linarith
  ultimately have "rule_matches cpu_rule m" using rule_matches_real [of cpu_rule m] v by simp
  moreover have "alert_rules watching_server = [cpu_rule]" "active_alerts watching_server = []"
    by (simp_all add: watching_server_def)
  ultimately show ?thesis by (simp add: newly_matching_def latched_def)
qed

theorem alerts_reach_every_page_example:
  "\<exists>m' s' t. read_chunks steady_env 0 (bytewise (metrics_payload (cpu_report ''web1'' 95) @ [CHR_nl])) watching_server = Inr s' \<and>
     state_alerts (dash (fold (run_step calm_env) (map (\<lambda>ch. Received (Data ch)) (bytewise (stream (net s') 6))) registered_connector)) =
       [meaning (alert_text (make_alert m' cpu_rule t))]"
proof -
  let ?m = "cpu_report ''web1'' 95"
  have c: "0 < length (clients watching_server)" "role (clients watching_server ! 0) = Agent"
      "buffer (clients watching_server ! 0) = []" "6 \<in> set (dashboards (clients watching_server))"
      "stream (net watching_server) 6 = []"
    by (simp_all add: watching_server_def sample_client_def dashboards_def stream_def initial_world_def)
  have d: "state_alerts (dash registered_connector) = []"
    by (simp add: registered_connector_def run_step_def initial_connector_def initial_dashboard_def Let_def)
  obtain m' s' where read: "read_chunks steady_env 0 (bytewise (metrics_payload ?m @ [CHR_nl])) watching_server = Inr s'"
      and same: "same_report ?m m'"
      and all: "\<forall>g \<in> set (dashboards (clients watching_server)). \<exists>ts sent. length ts = length (newly_matching watching_server m') \<and>
         stream (net s') g = stream (net watching_server) g @ sent \<and>
         (\<forall>denv pieces c. chunks_of pieces sent \<and> receiving c \<and> py_buffer c = [] \<and> length (state_alerts (dash c)) \<le> 50 \<longrightarrow>
            state_alerts (dash (fold (run_step denv) (map (\<lambda>ch. Received (Data ch)) pieces) c)) =
              last_n 50 (state_alerts (dash c) @
                map (meaning \<circ> alert_text) (alert_events m' (newly_matching watching_server m') ts)))"
    using alerts_reach_every_page [OF reliable_steady_env watching_server_ok c(1-3) sample_report_wire_ok
        cpu_report_printable bytewise_chunks] by blast
  obtain ts where ts: "length ts = 1"
      "\<forall>denv pieces c. chunks_of pieces (stream (net s') 6) \<and> receiving c \<and> py_buffer c = [] \<and> length (state_alerts (dash c)) \<le> 50 \<longrightarrow>
         state_alerts (dash (fold (run_step denv) (map (\<lambda>ch. Received (Data ch)) pieces) c)) =
           last_n 50 (state_alerts (dash c) @ map (meaning \<circ> alert_text) (alert_events m' [cpu_rule] ts))"
    using bspec [OF all c(4)] c(5) cpu_rule_matches_received [OF same] by auto
  then obtain t where "ts = [t]" by (cases ts) auto
  moreover have "chunks_of (bytewise (stream (net s') 6)) (stream (net s') 6)" using single_bytes by (simp add: bytewise_def)
  ultimately show ?thesis
    using read ts(2) d registered_connector_simps(1,2)
    by (intro exI [of _ m'] exI [of _ s'] exI [of _ t] conjI) simp_all
qed

end
