(* ===== verification/Dashboard_Faults.thy ===== *)
theory Dashboard_Faults
  imports Dashboard_Mirror
begin

text \<open>
  Two ways in which the server's messages end a dashboard's connection: a chunk that ends inside a
  character of several bytes, which the connector decodes by itself, and a control character that
  \<^verbatim>\<open>escape_json\<close> leaves in a message, which is no JSON.
\<close>

section \<open>Chunks that split a character\<close>

lemma decode_first: "decode_bytes (x # r) \<noteq> None \<Longrightarrow> \<not> continuation x"
  by (auto simp: continuation_def)

lemma decode_lead:
  "x < 128 \<Longrightarrow> decode_bytes (x # r) = None \<longleftrightarrow> decode_bytes r = None"
  "194 \<le> x \<Longrightarrow> x < 224 \<Longrightarrow> decode_bytes (x # c # r) = None \<longleftrightarrow> \<not> continuation c \<or> decode_bytes r = None"
  "224 \<le> x \<Longrightarrow> x < 240 \<Longrightarrow> decode_bytes (x # c # d # r) = None \<longleftrightarrow>
     \<not> (continuation c \<and> continuation d \<and> (x = 224 \<longrightarrow> 160 \<le> c) \<and> (x = 237 \<longrightarrow> c < 160)) \<or> decode_bytes r = None"
  "240 \<le> x \<Longrightarrow> x < 245 \<Longrightarrow> decode_bytes (x # c # d # e # r) = None \<longleftrightarrow>
     \<not> (continuation c \<and> continuation d \<and> continuation e \<and> (x = 240 \<longrightarrow> 144 \<le> c) \<and> (x = 244 \<longrightarrow> c < 144)) \<or>
     decode_bytes r = None"
  by auto

lemma decode_short:
  "128 \<le> x \<Longrightarrow> decode_bytes [x] = None" "224 \<le> x \<Longrightarrow> decode_bytes [x, c] = None" "240 \<le> x \<Longrightarrow> decode_bytes [x, c, d] = None"
  by simp_all

lemma decode_prefix:
  "decode_bytes (a @ b) \<noteq> None \<Longrightarrow> b \<noteq> [] \<Longrightarrow> decode_bytes a = None \<longleftrightarrow> continuation (hd b)"
proof (induction a rule: length_induct)
  case (1 a)
  obtain y b' where b: "b = y # b'" using "1.prems"(2) by (cases b) auto
  have IH: "decode_bytes r = None \<longleftrightarrow> continuation y" if "length r < length a" "decode_bytes (r @ y # b') \<noteq> None" for r
    using "1.IH" that b by auto
  show ?case
  proof (cases a)
    case Nil
    then show ?thesis using "1.prems" decode_first [of y b'] b by simp
  next
    case (Cons x r)
    have ok: "decode_bytes (x # r @ y # b') \<noteq> None" using "1.prems"(1) Cons b by simp
    note simps = Cons b decode_lead decode_short
    consider (one) "x < 128" | (two) "194 \<le> x" "x < 224" | (three) "224 \<le> x" "x < 240" | (four) "240 \<le> x" "x < 245"
      using ok by (cases "x < 128"; cases "x < 194"; cases "x < 224"; cases "x < 240"; cases "x < 245") simp_all
    then show ?thesis
    proof cases
      case one
      then show ?thesis using ok IH [of r] by (simp add: simps del: decode_bytes.simps)
    next
      case two
      then show ?thesis using ok IH [of "tl r"] by (cases r) (simp_all add: simps del: decode_bytes.simps)
    next
      case three
      consider "r = []" | c where "r = [c]" | c d r' where "r = c # d # r'" by (metis list.exhaust)
      then show ?thesis using three ok IH [of "drop 2 r"]
        by cases (cases b', simp_all add: simps del: decode_bytes.simps not_None_eq)
    next
      case four
      then have short: "decode_bytes [x, u] = None" "decode_bytes [x, u, v] = None" for u v
        by (simp_all add: decode_short del: decode_bytes.simps)
      consider "r = []" | c where "r = [c]" | c d where "r = [c, d]" | c d e r' where "r = c # d # e # r'"
        by (metis list.exhaust)
      then show ?thesis
      proof cases
        case 1
        then show ?thesis using four ok short
          by (cases b'; cases "tl b'") (auto simp: simps simp del: decode_bytes.simps not_None_eq)
      next
        case 2
        then show ?thesis using four ok short by (cases b') (auto simp: simps simp del: decode_bytes.simps not_None_eq)
      qed (use four ok IH [of "drop 3 r"] short in \<open>simp_all add: simps del: decode_bytes.simps not_None_eq\<close>)
    qed
  qed
qed

lemma event_codes_decode:
  assumes "\<forall>e \<in> set es. valid_event e"
  shows "utf8_decode (unlines (map event_line es)) = Some (event_codes es)"
  using assms
proof (induction es)
  case Nil
  then show ?case by (simp add: utf8_Nil event_codes_def)
next
  case (Cons e es)
  have "utf8_decode (event_line e) = Some (render (event_text e))"
    using event_prints [of e] Cons.prems by (simp add: prints_def)
  then show ?case using Cons by (simp add: utf8_append utf8_Cons event_codes_def)
qed

text \<open>
  C17: A chunk that ends inside a character of several bytes ends the dashboard's connection, although the
  server's messages are well formed; a chunk that ends anywhere else does not. The messages are cut into
  the first chunk \<open>a\<close> and the rest \<open>b\<close>, and the cut is inside a character when the rest begins with a
  continuation byte.
\<close>

theorem split_character_ends_connection:
  assumes "\<forall>e \<in> set es. valid_event e" and "unlines (map event_line es) = a @ b"
    and "a \<noteq> []" and "length a \<le> 4096" and "b \<noteq> []" and "receiving c" and "py_buffer c = []"
  shows "receiving (run_step env (Received (Data a)) c) \<longleftrightarrow> \<not> continuation (of_char (hd b))"
proof -
  have decode: "utf8_decode (a @ b) = Some (event_codes es)" using event_codes_decode [OF assms(1)] assms(2) by simp
  then have cut: "utf8_decode a = None \<longleftrightarrow> continuation (of_char (hd b))"
    using decode_prefix [of "map of_char a" "map of_char b"] assms(5) by (simp add: utf8_decode_def hd_map)
  have step: "run_step env (Received (Data a)) c = consume_chunk env a c"
    using assms(4,6) by (simp add: run_step_def)
  show ?thesis
  proof (cases "utf8_decode a")
    case None
    then show ?thesis using cut step assms(3) by (simp add: consume_chunk_def disconnect_def)
  next
    case (Some u)
    then have "map_option (append u) (utf8_decode b) = Some (event_codes es)" using decode utf8_append by metis
    then obtain v where v: "event_codes es = u @ v" by (metis map_option_eq_Some)
    obtain r rest d where first: "consume_lines env u (dash c) = (r, rest, d)" by (metis prod_cases3)
    have "consume_lines env (u @ v) (dash c) = (None, [], feed env es (dash c))"
      using consume_events [OF assms(1)] by (simp add: v [symmetric])
    then have "r = None" using consume_lines_append [OF first, of v] by (cases r) simp_all
    then show ?thesis using Some first cut step assms(3,6,7) by (simp add: consume_chunk_def)
  qed
qed

text \<open>A chat line whose only letter is cut in the middle.\<close>

theorem split_character_ends_connection_example:
  "\<exists>a b. event_line (Chat \<lparr>chat_sender = ''ops'', chat_text = [CHR 0xC3, CHR 0xA9], chat_timestamp = []\<rparr>) @ [CHR_nl] = a @ b \<and>
     \<not> receiving (run_step calm_env (Received (Data a)) registered_connector)"
proof -
  let ?e = "Chat \<lparr>chat_sender = ''ops'', chat_text = [CHR 0xC3, CHR 0xA9], chat_timestamp = []\<rparr>"
  let ?a = "''{\"type\":\"chat\",\"from\":\"ops\",\"text\":\"'' @ [CHR 0xC3]"
    and ?b = "CHR 0xA9 # ''\",\"timestamp\":\"\"}'' @ [CHR_nl]"
  have e: "\<forall>e \<in> set [?e]. valid_event e" using sample_event_valid by simp
  have cut: "unlines (map event_line [?e]) = ?a @ ?b"
    by (simp add: chat_event_to_json_def escape_char_def)
  have "continuation (of_char (hd ?b))" by (simp add: continuation_def)
  then show ?thesis
    using split_character_ends_connection [OF e cut, of registered_connector calm_env] cut
    by (intro exI [of _ ?a] exI [of _ ?b]) simp
qed

section \<open>Control characters are no JSON\<close>

definition may_occur :: "nat \<Rightarrow> bool" where
  "may_occur c \<longleftrightarrow> 32 \<le> c \<or> json_space c"

text \<open>The reader that goes from \<open>s\<close> to \<open>r\<close> has passed no other control character.\<close>

definition passes :: "py_str \<Rightarrow> py_str \<Rightarrow> bool" where
  "passes s r \<longleftrightarrow> (\<forall>c \<in> set s. may_occur c \<or> c \<in> set r)"

lemma passes_trans [trans]: "passes s t \<Longrightarrow> passes t r \<Longrightarrow> passes s r"
  by (auto simp: passes_def)

lemma passes_refl [simp]: "passes s s"
  by (simp add: passes_def)

lemma passes_Cons: "may_occur c \<Longrightarrow> passes (c # s) s"
  by (simp add: passes_def)

lemma passes_drop: "\<forall>c \<in> set (take n s). may_occur c \<Longrightarrow> passes s (drop n s)"
  unfolding passes_def by (metis Un_iff append_take_drop_id set_append)

lemma passes_skip_space: "passes s (skip_space s)"
proof -
  have "set s = set (takeWhile json_space s) \<union> set (skip_space s)"
    unfolding skip_space_def by (metis set_append takeWhile_dropWhile_id)
  then show ?thesis by (auto simp: passes_def may_occur_def dest: set_takeWhileD)
qed

lemma passes_skip_space_Cons: "skip_space s = c # r \<Longrightarrow> 32 \<le> c \<Longrightarrow> passes s r"
  using passes_skip_space [of s] by (auto simp: passes_def may_occur_def)

lemma hex4_may_occur: "hex4 s = Some u \<Longrightarrow> \<forall>c \<in> set (take 4 s). may_occur c"
proof -
  have "32 \<le> c" if "hex_value c \<noteq> None" for c using that by (auto simp: hex_value_def split: if_splits)
  then show "hex4 s = Some u \<Longrightarrow> \<forall>c \<in> set (take 4 s). may_occur c"
    by (cases s rule: hex4.cases) (auto simp: may_occur_def numeral_eq_Suc split: option.splits)
qed

lemma passes_hex4: "hex4 s = Some u \<Longrightarrow> passes s (drop 4 s)"
  using hex4_may_occur by (rule passes_drop)

lemma passes_surrogate:
  assumes "surrogate_pair u s = Some p"
  shows "passes s (drop 6 s)"
proof -
  have s: "take 2 s = [92, 117]" "hex4 (drop 2 s) \<noteq> None" using assms by (auto simp: surrogate_pair_def split: if_splits option.splits)
  then have "passes s (drop 2 s)" by (intro passes_drop) (simp add: may_occur_def)
  also obtain v where "hex4 (drop 2 s) = Some v" using s(2) by blast
  then have "passes (drop 2 s) (drop 6 s)" using passes_hex4 [of "drop 2 s"] by simp
  finally show ?thesis .
qed

lemma passes_scan_string: "scan_string s = Some (t, r) \<Longrightarrow> passes s r"
proof (induction s arbitrary: t r rule: scan_string.induct)
  case (2 c cs)
  consider (close) "c = 34" "r = cs" | (plain) t' where "32 \<le> c" "c \<noteq> 34" "c \<noteq> 92" "scan_string cs = Some (t', r)"
    | (simple) e es t' where "c = 92" "cs = e # es" "e \<noteq> 117" "simple_escape e \<noteq> None" "scan_string es = Some (t', r)"
    | (hex) es u t' where "c = 92" "cs = 117 # es" "hex4 es = Some u" "surrogate_pair u (drop 4 es) = None"
        "scan_string (drop 4 es) = Some (t', r)"
    | (pair) es u p t' where "c = 92" "cs = 117 # es" "hex4 es = Some u" "surrogate_pair u (drop 4 es) = Some p"
        "scan_string (drop 10 es) = Some (t', r)"
    using "2.prems" by (auto split: if_splits list.splits option.splits)
  then show ?case
  proof cases
    case close
    then show ?thesis by (simp add: passes_Cons may_occur_def)
  next
    case plain
    then have "passes cs r" using 2 by auto
    then show ?thesis using plain by (auto simp: passes_def may_occur_def)
  next
    case simple
    then have "passes es r" using 2 by auto
    moreover have "32 \<le> e" using simple by (auto simp: simple_escape_def split: if_splits)
    ultimately show ?thesis using simple by (auto simp: passes_def may_occur_def)
  next
    case hex
    then have "passes (drop 4 es) r" using 2 by auto
    with passes_hex4 [OF hex(3)] have "passes es r" by (rule passes_trans)
    then show ?thesis using hex by (auto simp: passes_def may_occur_def)
  next
    case pair
    have "passes (drop 10 es) r" using 2 pair by auto
    moreover have "passes es (drop 4 es)" "passes (drop 4 es) (drop 10 es)"
      using passes_hex4 [OF pair(3)] passes_surrogate [OF pair(4)] by simp_all
    ultimately have "passes es r" by (blast intro: passes_trans)
    then show ?thesis using pair by (auto simp: passes_def may_occur_def)
  qed
qed simp

lemma passes_number: "parse_number s = Some (v, r) \<Longrightarrow> passes s r"
proof -
  assume n: "parse_number s = Some (v, r)"
  have digit: "may_occur c" if "py_digit c" for c using that by (simp add: may_occur_def py_digit_def)
  have digits: "\<forall>c \<in> set (take (length (takeWhile py_digit t)) t). may_occur c" for t
    by (auto simp: takeWhile_eq_take [symmetric] digit dest: set_takeWhileD)
  define t where "t = (if take 1 s = [45] then drop 1 s else s)"
  define ip where "ip = integer_part t"
  define t1 where "t1 = drop (length ip) t"
  define fp where "fp = fraction_part t1"
  define t2 where "t2 = (if fp = [] then t1 else drop (1 + length fp) t1)"
  have r: "r = (case exponent_part t2 of Some (x, n) \<Rightarrow> drop n t2 | None \<Rightarrow> t2)"
    using n unfolding parse_number_def Let_def
    unfolding t_def [symmetric] unfolding ip_def [symmetric] unfolding t1_def [symmetric]
    unfolding fp_def [symmetric] unfolding t2_def [symmetric]
    by (auto split: if_splits)
  have "passes s t" unfolding t_def by (simp, intro impI passes_drop) (simp add: may_occur_def)
  also have "passes t t1"
    unfolding t1_def by (rule passes_drop) (auto simp: ip_def integer_part_def may_occur_def dest: bspec [OF digits])
  also have "passes t1 t2"
  proof (cases "fp = []")
    case False
    then obtain t' where t': "t1 = 46 # t'" "fp = takeWhile py_digit t'"
      by (cases t1) (auto simp: fp_def fraction_part_def split: if_splits)
    then have "passes t' (drop (length fp) t')" using digits by (auto intro: passes_drop)
    then show ?thesis using t'(1) False by (auto simp: t2_def passes_def may_occur_def)
  qed (simp add: t2_def)
  also have "passes t2 r"
  proof (cases "exponent_part t2")
    case (Some xn)
    obtain e t' where t': "t2 = e # t'" "e = 101 \<or> e = 69"
      using Some by (cases t2) (auto simp: exponent_part_def Let_def split: if_splits)
    let ?signed = "take 1 t' = [43] \<or> take 1 t' = [45]"
    let ?u = "if ?signed then drop 1 t' else t'"
    have r': "r = drop (length (takeWhile py_digit ?u)) ?u"
      using Some t' unfolding r by (auto simp: exponent_part_def Let_def split: if_splits)
    have "passes t2 t'" using t' by (auto simp: passes_Cons may_occur_def)
    also have "passes t' ?u"
    proof (cases ?signed)
      case True
      then have "passes t' (drop 1 t')" by (intro passes_drop) (auto simp: may_occur_def)
      then show ?thesis using True by (simp only: if_True)
    qed (simp only: if_False passes_refl)
    also have "passes ?u r" unfolding r' by (rule passes_drop) (rule digits)
    finally show ?thesis .
  qed (simp add: r)
  finally show "passes s r" .
qed

lemma passes_atom: "parse_atom s = Some (v, r) \<Longrightarrow> passes s r"
proof -
  have "passes s r" if c: "parse_constant s = Some (v, r)"
  proof -
    obtain name where name: "(name, v) \<in> set json_constants" "take (length name) s = name" "r = drop (length name) s"
      using c by (auto simp: parse_constant_def find_Some_iff split: option.splits) (metis nth_mem)
    then have "\<forall>c \<in> set name. may_occur c" by (auto simp: json_constants_def may_occur_def)
    then show ?thesis unfolding name(3) using name(2) by (intro passes_drop) simp
  qed
  then show "parse_atom s = Some (v, r) \<Longrightarrow> passes s r"
    by (auto simp: parse_atom_def passes_number split: option.splits)
qed

lemma passes_value:
  "parse_value s = Some (v, r) \<Longrightarrow> passes s r"
  "parse_elements s = Some (vs, r) \<Longrightarrow> passes s r"
  "parse_members s = Some (ms, r) \<Longrightarrow> passes s r"
proof (induction s and s and s arbitrary: v r and vs r and ms r
    rule: parse_value_parse_elements_parse_members.induct)
  case (1 s)
  show ?case
  proof (cases s)
    case Nil
    then show ?thesis using "1.prems" by (simp add: parse_value.simps)
  next
    case (Cons c cs)
    consider (string) t where "c = 34" "scan_string cs = Some (t, r)"
      | (empty) "c = 123 \<or> c = 91" "take 1 (skip_space cs) = [125] \<or> take 1 (skip_space cs) = [93]" "r = drop 1 (skip_space cs)"
      | (object) ms where "c = 123" "c \<noteq> 34" "take 1 (skip_space cs) \<noteq> [125]" "parse_members (skip_space cs) = Some (ms, r)"
      | (array) vs where "c = 91" "c \<noteq> 34" "c \<noteq> 123" "take 1 (skip_space cs) \<noteq> [93]" "parse_elements (skip_space cs) = Some (vs, r)"
      | (atom) "parse_atom s = Some (v, r)"
      using "1.prems" Cons by (auto simp: parse_value.simps [of "c # cs"] split: if_splits)
    then show ?thesis
    proof cases
      case string
      then show ?thesis using passes_trans [OF passes_Cons passes_scan_string] Cons by (simp add: may_occur_def)
    next
      case empty
      have "passes s cs" using empty(1) Cons by (auto simp: passes_Cons may_occur_def)
      also have "passes cs (skip_space cs)" by (rule passes_skip_space)
      also have "passes (skip_space cs) r" unfolding empty(3) using empty(2) by (intro passes_drop) (auto simp: may_occur_def)
      finally show ?thesis .
    next
      case object
      have "passes s cs" using object(1) Cons by (auto simp: passes_Cons may_occur_def)
      also have "passes cs (skip_space cs)" by (rule passes_skip_space)
      also have "passes (skip_space cs) r" using "1.IH"(1) [OF Cons] object by simp
      finally show ?thesis .
    next
      case array
      have "passes s cs" using array(1) Cons by (auto simp: passes_Cons may_occur_def)
      also have "passes cs (skip_space cs)" by (rule passes_skip_space)
      also have "passes (skip_space cs) r" using "1.IH"(2) [OF Cons] array by simp
      finally show ?thesis .
    next
      case atom
      then show ?thesis by (rule passes_atom)
    qed
  qed
next
  case (2 s)
  obtain v r1 c r2 where v: "parse_value s = Some (v, r1)" "skip_space r1 = c # r2"
    using "2.prems" by (auto simp: parse_elements.simps [of s] split: option.splits list.splits)
  have next_step: "r = r2 \<and> c = 93 \<or> (\<exists>ws. c \<noteq> 93 \<and> c = 44 \<and> length r2 < length s \<and> parse_elements (skip_space r2) = Some (ws, r))"
    using "2.prems" v by (auto simp: parse_elements.simps [of s] split: if_splits)
  have "passes s r1" by (rule "2.IH"(1) [OF v(1)])
  also have "passes r1 r2" using passes_skip_space_Cons [OF v(2)] next_step by auto
  also have "passes r2 r"
    using next_step "2.IH"(2) [OF v(1) refl v(2)] passes_trans [OF passes_skip_space [of r2]] by fastforce
  finally show ?case .
next
  case (3 s)
  obtain k r1 v r2 c r3 where k: "take 1 s = [34]" "scan_string (drop 1 s) = Some (k, r1)"
      "take 1 (skip_space r1) = [58] \<and> length (skip_space r1) \<le> length s"
    and v: "parse_value (skip_space (drop 1 (skip_space r1))) = Some (v, r2)" "skip_space r2 = c # r3"
    using "3.prems" by (auto simp: parse_members.simps [of s] split: option.splits list.splits if_splits)
  have next_step: "r = r3 \<and> c = 125 \<or> (\<exists>ns. c \<noteq> 125 \<and> c = 44 \<and> length r3 < length s \<and> parse_members (skip_space r3) = Some (ns, r))"
    using "3.prems" k v by (auto simp: parse_members.simps [of s] split: if_splits)
  have "passes s (drop 1 s)" using k(1) by (intro passes_drop) (simp add: may_occur_def)
  also have "passes (drop 1 s) r1" by (rule passes_scan_string [OF k(2)])
  also have "passes r1 (skip_space r1)" by (rule passes_skip_space)
  also have "passes (skip_space r1) (drop 1 (skip_space r1))" using k(3) by (intro passes_drop) (simp add: may_occur_def)
  also have "passes (drop 1 (skip_space r1)) (skip_space (drop 1 (skip_space r1)))" by (rule passes_skip_space)
  also have "passes (skip_space (drop 1 (skip_space r1))) r2" by (rule "3.IH"(1) [OF k(1,2) refl k(3) v(1)])
  also have "passes r2 r3" using passes_skip_space_Cons [OF v(2)] next_step by auto
  also have "passes r3 r"
    using next_step "3.IH"(2) [OF k(1,2) refl k(3) v(1) refl v(2)] passes_trans [OF passes_skip_space [of r3]] by fastforce
  finally show ?case .
qed

lemma loads_may_occur: "loads s = Some v \<Longrightarrow> \<forall>c \<in> set s. may_occur c"
proof -
  assume "loads s = Some v"
  then obtain r where r: "parse_value (skip_space s) = Some (v, r)" "skip_space r = []"
    by (auto simp: loads_def split: if_splits option.splits)
  have "passes s (skip_space s)" by (rule passes_skip_space)
  also have "passes (skip_space s) r" by (rule passes_value(1) [OF r(1)])
  also have "passes r []" using passes_skip_space [of r] r(2) by simp
  finally show ?thesis by (simp add: passes_def)
qed

section \<open>A report no dashboard can read\<close>

definition bad_control :: "char \<Rightarrow> bool" where
  "bad_control b \<longleftrightarrow> (of_char b :: nat) < 32 \<and> b \<notin> {CHR_nl, CHR_cr, CHR_tab}"

lemma char_of_code: "(of_char c :: nat) = n \<Longrightarrow> c = char_of n"
  by (auto simp del: char_of_nat)

lemma control_chars: "char_of (10 :: nat) = CHR_nl" "char_of (13 :: nat) = CHR_cr" "char_of (9 :: nat) = CHR_tab"
  by code_simp+

lemma bad_control_code: "bad_control b \<Longrightarrow> \<not> may_occur (of_char b)"
proof
  assume b: "bad_control b" "may_occur (of_char b)"
  then have "(of_char b :: nat) = 9 \<or> (of_char b :: nat) = 10 \<or> (of_char b :: nat) = 13"
    by (auto simp: bad_control_def may_occur_def json_space_def)
  then have "b = char_of (9 :: nat) \<or> b = char_of (10 :: nat) \<or> b = char_of (13 :: nat)" using char_of_code by blast
  then show False using b(1) control_chars by (auto simp: bad_control_def)
qed

lemma bad_control_escape: "bad_control b \<Longrightarrow> b \<in> set s \<Longrightarrow> b \<in> set (escape_json s)"
proof (induction s)
  case (Cons c s)
  have "escape_char b = [b]" using Cons.prems(1) by (auto simp: bad_control_def escape_char_def)
  then show ?case using Cons by auto
qed simp

lemma in_comma_separated: "x \<in> set xs \<Longrightarrow> set x \<subseteq> set (comma_separated xs)"
  by (induction xs rule: comma_separated.induct) auto

lemma bad_control_snapshot:
  assumes "bad_control b" and "b \<in> set h" and "(k, m) \<in> set t" and "ms_host m = h"
  shows "b \<in> set (snapshot_event_to_json t now)"
proof -
  have "b \<in> set (metric_data_to_json m)"
    using bad_control_escape [OF assms(1,2)] assms(4) by (simp add: metric_data_to_json_def)
  moreover have "metric_data_to_json m \<in> set (map (metric_data_to_json \<circ> snd) (ordered t))"
    using assms(3) by (force simp: ordered_def)
  ultimately show ?thesis using in_comma_separated by (fastforce simp: snapshot_event_to_json_def)
qed

lemma consume_bad_line:
  assumes "\<not> may_occur n" and "n \<in> set l" and "123 \<in> set l"
  shows "consume_line env l d = (Some JSONDecodeError, d)"
proof -
  have "loads l = None" using loads_may_occur assms(1,2) by (cases "loads l") blast+
  moreover have "\<not> py_space 123" by (simp add: py_space_def)
  then have "\<not> list_all py_space l" using assms(3) by (auto simp: list_all_iff)
  ultimately show ?thesis by (simp add: consume_line_def)
qed

text \<open>Decoding cut at a character of one byte.\<close>

lemma decode_small: "decode_bytes s = Some u \<Longrightarrow> n \<in> set u \<Longrightarrow> n < 128 \<Longrightarrow> n \<in> set s"
proof (induction s arbitrary: u rule: decode_bytes.induct)
  case (2 a bs)
  show ?case using 2 by (auto simp: continuation_def split: if_splits list.splits)
qed simp

lemma utf8_cut:
  assumes "utf8_decode (a @ b # c) = Some u" and "(of_char b :: nat) < 128"
  obtains v w where "utf8_decode a = Some v" and "utf8_decode c = Some w" and "u = v @ of_char b # w"
proof -
  have "decode_bytes (map of_char a @ of_char b # map of_char c) \<noteq> None" using assms(1) by (simp add: utf8_decode_def)
  then have "utf8_decode a \<noteq> None"
    using decode_prefix [of "map of_char a" "of_char b # map of_char c"] assms(2)
    by (simp add: utf8_decode_def continuation_def)
  then obtain v where v: "utf8_decode a = Some v" by blast
  then have "map_option (append v) (map_option (Cons (of_char b)) (utf8_decode c)) = Some u"
    using utf8_append [OF v, of "b # c"] utf8_Cons [OF assms(2)] assms(1) by simp
  then show ?thesis using that v by auto
qed

lemma utf8_keeps:
  assumes "utf8_decode s = Some u" and "b \<in> set s" and "(of_char b :: nat) < 128"
  shows "of_char b \<in> set u"
proof -
  obtain x y where s: "s = x @ b # y" using assms(2) by (auto simp: in_set_conv_decomp)
  obtain v w where "u = v @ of_char b # w" using utf8_cut [of x b y u] assms(1,3) s by blast
  then show ?thesis by simp
qed

lemma utf8_one_line:
  assumes "utf8_decode l = Some u" and "one_line l"
  shows "10 \<notin> set u"
proof
  assume "10 \<in> set u"
  then have "10 \<in> set (map of_char l :: nat list)" using decode_small [of "map of_char l" u 10] assms(1) by (simp add: utf8_decode_def)
  then obtain c where c: "c \<in> set l" "(of_char c :: nat) = 10" by auto
  then have "c = CHR_nl" using char_of_code [OF c(2)] control_chars by simp
  then show False using assms(2) c(1) by (simp add: one_line_def)
qed

lemma no_longer_receiving: "\<not> receiving c \<Longrightarrow> fold (run_step env) (map (\<lambda>ch. Received (Data ch)) chunks) c = c"
  by (induction chunks) (simp_all add: run_step_def)

text \<open>A connection that is still there has decoded all it was sent, and read its lines without an error.\<close>

lemma still_receiving:
  assumes "receiving c" and "chunks_of chunks s" and "10 \<notin> set (py_buffer c)"
    and "receiving (fold (run_step env) (map (\<lambda>ch. Received (Data ch)) chunks) c)"
  shows "\<exists>u rest d. utf8_decode s = Some u \<and> consume_lines env (py_buffer c @ u) (dash c) = (None, rest, d)"
  using assms
proof (induction chunks arbitrary: c s)
  case Nil
  then show ?case by (simp add: chunks_of_def consume_lines_stop utf8_Nil)
next
  case (Cons ch chunks)
  let ?s = "concat chunks" and ?c = "run_step env (Received (Data ch)) c"
  have ch: "ch \<noteq> []" "take 4096 ch = ch" "s = ch @ ?s" "chunks_of chunks ?s" using Cons.prems(2) by (auto simp: chunks_of_def)
  have step: "?c = consume_chunk env ch c" using Cons.prems(1) ch(2) by (simp add: run_step_def)
  have "receiving ?c"
  proof (rule ccontr)
    assume "\<not> receiving ?c"
    then show False using Cons.prems(4) no_longer_receiving [of ?c env chunks] by simp
  qed
  then obtain u rest d where u: "utf8_decode ch = Some u" "consume_lines env (py_buffer c @ u) (dash c) = (None, rest, d)"
      "?c = c\<lparr>py_buffer := rest, dash := d\<rparr>"
    using ch(1) unfolding step
    by (auto simp: consume_chunk_def disconnect_def split: option.splits prod.splits)
  moreover have "10 \<notin> set rest" using consume_rest_no_newline u(2) by blast
  ultimately obtain v rest' d' where v: "utf8_decode ?s = Some v" "consume_lines env (rest @ v) d = (None, rest', d')"
    using Cons.IH [OF \<open>receiving ?c\<close> ch(4)] Cons.prems(4) by auto
  have "consume_lines env ((py_buffer c @ u) @ v) (dash c) = (None, rest', d')"
    using consume_lines_append [OF u(2), of v] v(2) by simp
  then show ?case using ch(3) u(1) v(1) by (simp add: utf8_append)
qed

text \<open>
  C18: A report whose host has a control character in its name shuts the dashboards out. Over a network that
  loses nothing, every dashboard that registers is sent the report in the snapshot, the line is no JSON,
  and the connector gives up the connection, whatever else the server holds (also bytes that are no
  UTF-8) and however the bytes arrive. This is so for every registration as long as the report is stored.
  In the example a registered agent has stored one.
\<close>

theorem control_character_locks_out_dashboards:
  assumes "reliable env" and "i < length (clients s)" and "handle_line env i line s = Inr s'"
    and "str_field line ''type'' [] = ''register''" and "lower_copy (str_field line ''role'' []) = ''dashboard''"
    and "tables_ok s" and "map_of (latest_metrics s) host = Some m" and "b \<in> set host" and "bad_control b"
    and "stream (net s') (fd (clients s ! i)) = stream (net s) (fd (clients s ! i)) @ sent"
    and "chunks_of chunks sent" and "receiving c" and "py_buffer c = []"
  shows "\<not> receiving (fold (run_step denv) (map (\<lambda>ch. Received (Data ch)) chunks) c)"
proof -
  let ?now = "clock_at env (clock_reads (net s))"
  let ?l1 = "ack_event_to_json ''registered as dashboard''"
    and ?l2 = "snapshot_event_to_json (latest_metrics s) ?now" and ?l3 = "rules_event_to_json (alert_rules s)"
  have "s' = handle_register env i line s" using assms(3,4) by (simp add: handle_line_def)
  then have sent: "sent = unlines [?l1, ?l2, ?l3]"
    using handle_register_stream [OF assms(1), of i line s "fd (clients s ! i)"] assms(5,10) by (simp add: new_role_def)
  have "(host, m) \<in> set (latest_metrics s)" using assms(7) by (rule map_of_SomeD)
  moreover from this have "ms_host m = host" using assms(6) by (auto simp: tables_ok_def)
  ultimately have bad: "b \<in> set ?l2" using bad_control_snapshot [OF assms(9,8)] by blast
  have brace: "CHR ''{'' \<in> set ?l2" by (simp add: snapshot_event_to_json_def)
  show ?thesis
  proof
    assume alive: "receiving (fold (run_step denv) (map (\<lambda>ch. Received (Data ch)) chunks) c)"
    then obtain u rest d where u: "utf8_decode sent = Some u" "consume_lines denv u (dash c) = (None, rest, d)"
      using still_receiving [OF assms(12,11) _ alive] assms(13) by auto
    have nl: "(of_char CHR_nl :: nat) = 10" by code_simp
    have "utf8_decode (?l1 @ CHR_nl # ?l2 @ CHR_nl # ?l3 @ [CHR_nl]) = Some u" using u(1) sent by simp
    then obtain u1 v where v: "utf8_decode ?l1 = Some u1" "utf8_decode (?l2 @ CHR_nl # ?l3 @ [CHR_nl]) = Some v" "u = u1 @ 10 # v"
      by (rule utf8_cut) (simp_all add: nl)
    from v(2) obtain u2 w where w: "utf8_decode ?l2 = Some u2" "v = u2 @ 10 # w" by (rule utf8_cut) (simp_all add: nl)
    have "of_char b \<in> set u2" "123 \<in> set u2"
      using utf8_keeps [OF w(1) bad] utf8_keeps [OF w(1) brace] assms(9) by (simp_all add: bad_control_def)
    then have rejected: "consume_line denv u2 d1 = (Some JSONDecodeError, d1)" for d1
      using bad_control_code [OF assms(9)] by (intro consume_bad_line)
    obtain r d1 where first: "consume_line denv u1 (dash c) = (r, d1)" by fastforce
    have "10 \<notin> set u1" "10 \<notin> set u2" using utf8_one_line v(1) w(1) one_line_events by blast+
    then show False using u(2) by (cases r) (simp_all add: v(3) w(2) consume_lines_line first rejected)
  qed
qed

section \<open>Example\<close>

text \<open>The agent on socket 5 reports under a name with a control character; then client 1 registers as the dashboard does.\<close>

definition two_clients :: MonitorServer where
  "two_clients = (sample_server Agent)\<lparr>clients := [sample_client Agent, (sample_client Unknown)\<lparr>fd := 6\<rparr>]\<rparr>"

definition poison_line :: cpp_string where
  "poison_line = ''{\"type\":\"metrics\",\"host\":\"'' @ [CHR 0x01] @ ''\"}''"

definition poison_report :: MetricSnapshot where
  "poison_report = default_MetricSnapshot\<lparr>ms_host := [CHR 0x01], ms_timestamp := ''1970-01-01T00:00:00Z''\<rparr>"

lemma poison_stored:
  "\<exists>s. handle_line steady_env 0 poison_line two_clients = Inr s \<and> clients s = clients two_clients \<and> tables_ok s \<and>
     latest_metrics s = [([CHR 0x01], poison_report)] \<and> alert_rules s = []"
proof -
  let ?s1 = "snd (server_clock steady_env two_clients)"
  have type: "str_field poison_line ''type'' [] = ''metrics''" by code_simp
  have parse: "parse_metrics poison_line ''web1'' ''1970-01-01T00:00:00Z'' = Inr poison_report" by code_simp
  have c: "clients two_clients = [sample_client Agent, (sample_client Unknown)\<lparr>fd := 6\<rparr>]"
      "latest_metrics two_clients = []" "alert_rules two_clients = []" "active_alerts two_clients = []"
    by (simp_all add: two_clients_def sample_server_def)
  have now: "iso_timestamp (fst (server_clock steady_env two_clients)) = ''1970-01-01T00:00:00Z''"
    unfolding clock_frame by (simp only: steady_env_def env.simps) code_simp
  have "handle_line steady_env 0 poison_line two_clients = Inr (store_metric steady_env poison_report ?s1)"
    using type parse now by (simp add: handle_line_def handle_metrics_def case_prod_unfold c sample_client_def)
  moreover have "tables_ok ?s1" by (simp add: tables_ok_def c distinct_keys_def)
  ultimately show ?thesis
    using store_metric_tables [of ?s1 steady_env poison_report] by (auto simp: c poison_report_def)
qed

theorem control_character_locks_out_dashboards_example:
  "\<exists>s s' sent. handle_line steady_env 0 poison_line two_clients = Inr s \<and>
     handle_line steady_env 1 register_text s = Inr s' \<and> stream (net s') 6 = stream (net s) 6 @ sent \<and>
     \<not> receiving (fold (run_step calm_env) (map (\<lambda>ch. Received (Data ch)) (map (\<lambda>b. [b]) sent))
         registered_connector)"
proof -
  obtain s where s: "handle_line steady_env 0 poison_line two_clients = Inr s" "clients s = clients two_clients"
      "tables_ok s" "latest_metrics s = [([CHR 0x01], poison_report)]" "alert_rules s = []"
    using poison_stored by blast
  let ?s' = "handle_register steady_env 1 register_text s"
  have line: "handle_line steady_env 1 register_text s = Inr ?s'"
    using register_text_fields(7) by (simp add: handle_line_def)
  have c: "1 < length (clients s)" "fd (clients s ! 1) = 6" by (simp_all add: s(2) two_clients_def)
  define sent where "sent = unlines [ack_event_to_json ''registered as dashboard'', snapshot_event_to_json [([CHR 0x01], poison_report)] 0,
     rules_event_to_json []]"
  have "stream (net ?s') 6 = stream (net s) 6 @ sent"
    unfolding sent_def
    using handle_register_stream [OF reliable_steady_env, of 1 register_text s 6] register_text_fields(8) s(4,5) c(2)
    by (simp add: new_role_def steady_env_def)
  moreover have "bad_control (CHR 0x01)" by (simp add: bad_control_def)
  ultimately have "\<not> receiving (fold (run_step calm_env) (map (\<lambda>ch. Received (Data ch)) (map (\<lambda>b. [b]) sent))
      registered_connector) \<and>
      stream (net ?s') 6 = stream (net s) 6 @ sent"
    using control_character_locks_out_dashboards [OF reliable_steady_env c(1) line register_text_fields(7,8) s(3),
        of "[CHR 0x01]" poison_report "CHR 0x01" sent _ registered_connector calm_env]
      single_bytes [of sent] s(4) c(2) by (simp del: map_map)
  then show ?thesis using s(1) line by blast
qed

end
