(* ===== verification/Dashboard_Service.thy ===== *)
theory Dashboard_Service
  imports Dashboard_Invariant
begin

text \<open>
  The life of the dashboard's connector, \<^verbatim>\<open>python/dashboard/services.py\<close>: its thread as a state
  machine whose states are the points at which \<open>start\<close> and \<open>stop\<close> may come in between
  (the loop heads of \<^verbatim>\<open>_run\<close> and \<^verbatim>\<open>_consume\<close>, and the wait in
  \<^verbatim>\<open>recv\<close>), and the operations of the other threads: \<open>start\<close>, \<open>stop\<close>,
  \<open>snapshot\<close>, \<open>_send\<close> and \<open>upload_latest_alert\<close>. The field
  \<^verbatim>\<open>_socket\<close> is tracked with the state of the socket object it names.
\<close>

section \<open>State\<close>

datatype py_socket = No_socket | Open_socket | Closed_socket

datatype thread_point = Ended | Run_head | Consume_head | In_recv

record service =
  target_host :: py_str
  target_port :: int
  keep_running :: bool
  thread_at :: thread_point
  link_socket :: py_socket
  link :: connector

text \<open>What the network answers at a point: whether a connection is made, and what \<^verbatim>\<open>recv\<close> gives.\<close>

record net_answer =
  connects :: bool
  delivers :: "recv_result option"

definition initial_service :: "py_str \<Rightarrow> int \<Rightarrow> dashboard \<Rightarrow> service" where
  "initial_service host port d =
     \<lparr>target_host = host, target_port = port, keep_running = False, thread_at = Ended, link_socket = No_socket,
      link = initial_connector d\<rparr>"

section \<open>The thread\<close>

text \<open>An exception in the loop body: \<^verbatim>\<open>_run\<close> forgets the socket and shows the loss.\<close>

definition connection_lost :: "service \<Rightarrow> service" where
  "connection_lost s = s\<lparr>thread_at := Run_head, link_socket := No_socket, link := disconnect (dash (link s)) (link s)\<rparr>"

definition thread_step :: "dash_env \<Rightarrow> net_answer \<Rightarrow> service \<Rightarrow> service" where
  "thread_step env a s =
     (case thread_at s of
        Ended \<Rightarrow> s
      | Run_head \<Rightarrow>
          if \<not> keep_running s then s\<lparr>thread_at := Ended\<rparr>
          else if connects a then
            s\<lparr>thread_at := Consume_head, link_socket := Open_socket, link := run_step env Connection_made (link s)\<rparr>
          else connection_lost s
      | Consume_head \<Rightarrow>
          if keep_running s then s\<lparr>thread_at := In_recv\<rparr>
          else s\<lparr>thread_at := Run_head, link_socket := Closed_socket, link := (link s)\<lparr>receiving := False\<rparr>\<rparr>
      | In_recv \<Rightarrow>
          (case delivers a of
             None \<Rightarrow> connection_lost s
           | Some r \<Rightarrow>
               (let c = run_step env (Received r) (link s) in
                if receiving c then s\<lparr>thread_at := Consume_head, link := c\<rparr>
                else s\<lparr>thread_at := Run_head, link_socket := No_socket, link := c\<rparr>)))"

section \<open>The other operations\<close>

text \<open>\<^verbatim>\<open>start\<close> of the connector: a thread that is alive is left alone.\<close>

definition start_service :: "service \<Rightarrow> service" where
  "start_service s = (if thread_at s \<noteq> Ended then s else s\<lparr>keep_running := True, thread_at := Run_head\<rparr>)"

definition stop_service :: "service \<Rightarrow> service" where
  "stop_service s =
     s\<lparr>keep_running := False, link_socket := (if link_socket s = No_socket then No_socket else Closed_socket)\<rparr>"

definition aws_json :: "aws_status \<Rightarrow> json" where
  "aws_json a = JObject
     ([(py ''timestamp'', JString (aws_timestamp a)), (py ''uploaded'', JBool (uploaded a)),
       (py ''message'', JString (aws_message a))] @
      (case s3_key a of None \<Rightarrow> []
       | Some k \<Rightarrow> [(py ''s3_key'', case k of Some key \<Rightarrow> JString key | None \<Rightarrow> JNull)]))"

definition chat_json :: "chat_entry \<Rightarrow> json" where
  "chat_json e = JObject
     [(py ''from'', entry_from e), (py ''text'', entry_text e), (py ''timestamp'', entry_timestamp e)]"

definition snapshot :: "dash_env \<Rightarrow> service \<Rightarrow> json \<times> service" where
  "snapshot env s =
     (let d = dash (link s);
          (now, d') = utc_timestamp env d
      in (JObject
            [(py ''server'', JObject
               [(py ''connected'', JBool (connected d)), (py ''host'', JString (target_host s)),
                (py ''port'', JInt (target_port s)),
                (py ''last_event'', case last_event d of Some t \<Rightarrow> JString t | None \<Rightarrow> JNull)]),
             (py ''metrics'', JObject (state_metrics d)), (py ''alerts'', JArray (state_alerts d)),
             (py ''chat'', JArray (map chat_json (state_chat d))), (py ''rules'', state_rules d),
             (py ''aws'', aws_json (state_aws d)), (py ''generated_at'', JString now)],
          s\<lparr>link := (link s)\<lparr>dash := d'\<rparr>\<rparr>))"

datatype send_error = Not_connected | Send_failed

text \<open>
  \<^verbatim>\<open>_send\<close>: \<open>taken\<close> is \<open>None\<close> when \<^verbatim>\<open>sendall\<close> succeeds, otherwise the
  number of bytes that had gone out when it raised, which were not all.
\<close>

definition service_send :: "nat option \<Rightarrow> cpp_string \<Rightarrow> service \<Rightarrow> send_error option \<times> service" where
  "service_send taken message s =
     (case link_socket s of
        No_socket \<Rightarrow> (Some Not_connected, s)
      | Closed_socket \<Rightarrow> (Some Send_failed, s)
      | Open_socket \<Rightarrow>
          (let raw = message @ [CHR_nl]; c = link s in
           case taken of
             None \<Rightarrow> (None, s\<lparr>link := c\<lparr>sent_bytes := sent_bytes c @ raw\<rparr>\<rparr>)
           | Some n \<Rightarrow> (Some Send_failed, s\<lparr>link := c\<lparr>sent_bytes := sent_bytes c @ take (min n (length message)) raw\<rparr>\<rparr>)))"

definition service_upload :: "dash_env \<Rightarrow> service \<Rightarrow> json \<times> service" where
  "service_upload env s =
     (let (status, d) = upload_latest_alert env (dash (link s))
      in (aws_json status, s\<lparr>link := (link s)\<lparr>dash := d\<rparr>\<rparr>))"

section \<open>Stopping\<close>

lemma thread_step_ended: "thread_at s = Ended \<Longrightarrow> fold (thread_step env) as s = s"
  by (induction as) (simp_all add: thread_step_def)

text \<open>
  C37: A dashboard that is stopped and started again while its thread waits for data stays down. \<open>start\<close>
  returns because the old thread is alive; when the wait ends without data the loop of
  \<^verbatim>\<open>_consume\<close> returns instead of raising, and the thread ends after at most three steps. The
  pages go on to show a connection, which only an exception would reset, and whatever is
  sent fails on the closed socket.
\<close>

theorem restarted_dashboard_stays_down:
  assumes "thread_at s = In_recv" and "receiving (link s)" and "connected (dash (link s))" and "link_socket s = Open_socket"
    and "delivers a = Some Timeout" and "2 \<le> length as"
  shows "let s' = fold (thread_step env) (a # as) (start_service (stop_service s))
    in thread_at s' = Ended \<and> connected (dash (link s')) \<and> service_send taken message s' = (Some Send_failed, s')"
proof -
  let ?down = "(stop_service s)\<lparr>thread_at := Ended, link_socket := Closed_socket, link := (link s)\<lparr>receiving := False\<rparr>\<rparr>"
  obtain b c cs where as: "as = b # c # cs" using assms(6) by (cases as; cases "tl as") auto
  have "start_service (stop_service s) = stop_service s" using assms(1) by (simp add: start_service_def stop_service_def)
  moreover have "thread_step env c (thread_step env b (thread_step env a (stop_service s))) = ?down"
    using assms(1,2,5) by (simp add: thread_step_def stop_service_def run_step_def)
  ultimately have "fold (thread_step env) (a # as) (start_service (stop_service s)) = ?down"
    using thread_step_ended [of ?down env cs] by (simp add: as)
  then show ?thesis using assms(3) by (simp add: service_send_def Let_def)
qed

section \<open>The invariant\<close>

datatype service_event =
  Start | Stop | Thread net_answer | Get_state | Send "nat option" cpp_string | Upload

definition service_step :: "dash_env \<Rightarrow> service_event \<Rightarrow> service \<Rightarrow> service" where
  "service_step env e s =
     (case e of
        Start \<Rightarrow> start_service s
      | Stop \<Rightarrow> stop_service s
      | Thread a \<Rightarrow> thread_step env a s
      | Get_state \<Rightarrow> snd (snapshot env s)
      | Send taken message \<Rightarrow> snd (service_send taken message s)
      | Upload \<Rightarrow> snd (service_upload env s))"

text \<open>
  The socket of the connector is open only while its thread reads from it; the flag the pages show is
  right unless \<open>stop\<close> has closed the socket.
\<close>

definition service_ok :: "service \<Rightarrow> bool" where
  "service_ok s \<longleftrightarrow>
     dash_ok (dash (link s)) \<and>
     (receiving (link s) \<longleftrightarrow> thread_at s = Consume_head \<or> thread_at s = In_recv) \<and>
     (receiving (link s) \<longrightarrow> link_socket s \<noteq> No_socket \<and> 10 \<notin> set (py_buffer (link s)) \<and> connected (dash (link s))) \<and>
     (link_socket s = Open_socket \<longrightarrow> receiving (link s)) \<and>
     (link_socket s = No_socket \<longrightarrow> \<not> connected (dash (link s)))"

lemma dash_ok_same: "same_state d d' \<Longrightarrow> dash_ok d' = dash_ok d" "same_state d d' \<Longrightarrow> connected d' = connected d"
  by (simp_all add: same_state_def dash_ok_def)

lemma upload_latest_same: "same_state d (snd (upload_latest_alert env d))"
proof -
  have "same_state d (d1\<lparr>state_aws := a\<rparr>)" if "same_state d d1" for d1 a using that by (simp add: same_state_def)
  then show ?thesis using same_state_upload [of d env] same_state_time(2) [of d env]
    by (simp add: upload_latest_alert_def Let_def case_prod_unfold)
qed

lemma connection_lost_ok: "dash_ok (dash (link s)) \<Longrightarrow> service_ok (connection_lost s)"
  by (simp add: connection_lost_def service_ok_def disconnect_def dash_ok_def)

lemma thread_step_ok:
  assumes "service_ok s"
  shows "service_ok (thread_step env a s)"
proof (cases "thread_at s")
  case Ended
  then show ?thesis using assms by (simp add: thread_step_def)
next
  case Run_head
  have "service_ok (s\<lparr>thread_at := Ended\<rparr>)" using assms Run_head by (auto simp: service_ok_def)
  moreover have "service_ok (s\<lparr>thread_at := Consume_head, link_socket := Open_socket, link := run_step env Connection_made (link s)\<rparr>)"
    using assms Run_head by (simp add: service_ok_def run_step_def dash_ok_def)
  moreover have "service_ok (connection_lost s)" using assms by (intro connection_lost_ok) (simp add: service_ok_def)
  ultimately show ?thesis using Run_head by (simp add: thread_step_def)
next
  case Consume_head
  then show ?thesis using assms by (simp add: thread_step_def service_ok_def)
next
  case In_recv
  have r: "receiving (link s)" "connector_ok (link s)" using assms In_recv by (simp_all add: service_ok_def connector_ok_def)
  have c: "connector_ok (run_step env i (link s))" for i using run_step_ok [OF r(2)] .
  have "service_ok (connection_lost s)" using assms by (intro connection_lost_ok) (simp add: service_ok_def)
  then show ?thesis
    using In_recv r(1) assms c [of "Received r" for r]
    by (auto simp: thread_step_def Let_def service_ok_def connector_ok_def split: option.split)
qed

lemma same_state_ok: "service_ok s \<Longrightarrow> same_state (dash (link s)) d \<Longrightarrow> service_ok (s\<lparr>link := (link s)\<lparr>dash := d\<rparr>\<rparr>)"
  using dash_ok_same [of "dash (link s)" d] by (auto simp: service_ok_def)

lemma service_step_ok: "service_ok s \<Longrightarrow> service_ok (service_step env e s)"
proof (cases e)
  case (Thread a)
  then show "service_ok s \<Longrightarrow> ?thesis" by (simp add: service_step_def thread_step_ok)
next
  case (Send taken message)
  then show "service_ok s \<Longrightarrow> ?thesis"
    by (auto simp: service_step_def service_send_def service_ok_def Let_def split: py_socket.split option.split)
next
  case Upload
  then show "service_ok s \<Longrightarrow> ?thesis"
    using same_state_ok [OF _ upload_latest_same] by (simp add: service_step_def service_upload_def case_prod_unfold Let_def)
next
  case Get_state
  then show "service_ok s \<Longrightarrow> ?thesis"
    using same_state_ok [OF _ same_state_time(2)] by (simp add: service_step_def snapshot_def case_prod_unfold Let_def)
qed (auto simp: service_step_def start_service_def stop_service_def service_ok_def)

lemma initial_service_ok: "service_ok (initial_service host port (initial_dashboard b bk tp px now))"
  using initial_connector_ok [of b bk tp px now]
  by (simp add: service_ok_def initial_service_def connector_ok_def initial_connector_def)

interpretation svc: transition_system
    "\<lambda>s. \<exists>host port b bk tp px now. s = initial_service host port (initial_dashboard b bk tp px now)"
    "\<lambda>s e s'. s' = service_step env e s" for env .

lemma reach_service:
  "svc.reach env (fold (service_step env) es (initial_service host port (initial_dashboard b bk tp px now)))"
proof (induction es rule: rev_induct)
  case Nil
  show ?case unfolding fold.simps id_apply by (rule svc.reach_start) blast
next
  case (snoc e es)
  then show ?case by (auto intro: svc.reach_step)
qed

lemma reachable_service_ok:
  "service_ok (fold (service_step env) es (initial_service host port (initial_dashboard b bk tp px now)))"
  using reach_service by (rule svc.invariant_rule) (auto intro: initial_service_ok service_step_ok)

text \<open>
  C15: Whatever the dashboard's service receives and is asked, over any sequence of starts and stops,
  connections and failures, chunks of arbitrary bytes, messages sent, uploads and queries: it keeps
  at most 50 alerts and 80 chat entries, its table of reports has one entry per host, each entry being an
  object whose host field is its key, no complete line is left waiting while it reads, it has an open
  socket only while its thread reads from it, and it shows a connection exactly then, as long as it was
  never stopped while connected.
\<close>

theorem service_invariant:
  "let s = fold (service_step env) es (initial_service host port (initial_dashboard b bk tp px now)); d = dash (link s)
   in length (state_alerts d) \<le> 50 \<and> length (state_chat d) \<le> 80 \<and> distinct (map fst (state_metrics d)) \<and>
      list_all (\<lambda>(h, v). case v of JObject m \<Rightarrow> map_of m (py ''host'') = Some (JString h) | _ \<Rightarrow> False) (state_metrics d) \<and>
      \<not> (receiving (link s) \<and> 10 \<in> set (py_buffer (link s))) \<and>
      (link_socket s = Closed_socket \<or>
       connected d = receiving (link s) \<and> (link_socket s = Open_socket) = receiving (link s))"
proof -
  let ?s = "fold (service_step env) es (initial_service host port (initial_dashboard b bk tp px now))"
  have ok: "service_ok ?s" by (rule reachable_service_ok)
  show ?thesis
    using ok hosts_ok_list [of "state_metrics (dash (link ?s))"] py_socket.exhaust [of "link_socket ?s"]
    by (auto simp: service_ok_def dash_ok_def Let_def simp del: py_simps)
qed

section \<open>Examples\<close>

definition web_answer :: "recv_result option \<Rightarrow> net_answer" where
  "web_answer r = \<lparr>connects = True, delivers = r\<rparr>"

text \<open>A dashboard that was started, connected and waits for data.\<close>

definition waiting_service :: service where
  "waiting_service = fold (service_step calm_env) [Start, Thread (web_answer None), Thread (web_answer None)]
     (initial_service (py ''127.0.0.1'') 9090 (initial_dashboard False [] [] [] []))"

lemma waiting_service_facts:
  "thread_at waiting_service = In_recv" "link_socket waiting_service = Open_socket" "receiving (link waiting_service)"
  "connected (dash (link waiting_service))" "sent_bytes (link waiting_service) = dash_register"
  by (simp_all add: waiting_service_def service_step_def start_service_def thread_step_def initial_service_def
      web_answer_def run_step_def initial_connector_def)

theorem restarted_dashboard_stays_down_example:
  "let s' = fold (thread_step calm_env) (replicate 5 (web_answer (Some Timeout))) (start_service (stop_service waiting_service))
   in thread_at s' = Ended \<and> connected (dash (link s'))"
proof -
  have "delivers (web_answer (Some Timeout)) = Some Timeout" "2 \<le> length (replicate 4 (web_answer (Some Timeout)))"
    by (simp_all add: web_answer_def)
  moreover have "replicate 5 x = x # replicate 4 x" for x :: net_answer by (simp add: numeral_eq_Suc)
  ultimately show ?thesis
    using restarted_dashboard_stays_down [OF waiting_service_facts(1,3,4,2), of "web_answer (Some Timeout)"
        "replicate 4 (web_answer (Some Timeout))" calm_env]
    by (simp add: Let_def)
qed

end
