(* ===== verification/Dashboard_Web.thy ===== *)
theory Dashboard_Web
  imports Dashboard_Commands Dashboard_Mirror Dashboard_Service
begin

text \<open>
  The routes of the web application, \<^verbatim>\<open>python/dashboard/app.py\<close>, and what a request can do to
  the server. A request is the JSON of its body, if it is JSON; the framework turns an exception into
  a reply of status 500. Whatever is posted, the server reads commands and chat lines.
\<close>

section \<open>Requests\<close>

datatype reply = Reply nat json | Internal_error

text \<open>\<^verbatim>\<open>str.strip\<close>.\<close>

definition py_strip :: "py_str \<Rightarrow> py_str" where
  "py_strip u = rev (dropWhile py_space (rev (dropWhile py_space u)))"

text \<open>\<^verbatim>\<open>request.get_json(silent=True) or {}\<close>.\<close>

definition payload_of :: "json option \<Rightarrow> json" where
  "payload_of body = (case body of Some v \<Rightarrow> if truthy v then v else JObject [] | None \<Rightarrow> JObject [])"

definition stripped_field :: "dash_env \<Rightarrow> (py_str \<times> json) list \<Rightarrow> string \<Rightarrow> string \<Rightarrow> py_str" where
  "stripped_field env m key fallback = py_strip (str_of env (get_or m key (JString (py fallback))))"

definition refusal :: "string \<Rightarrow> reply" where
  "refusal message = Reply 400 (JObject [(py ''ok'', JBool False), (py ''message'', JString (py message))])"

definition post_command :: "dash_env \<Rightarrow> json option \<Rightarrow> nat option \<Rightarrow> service \<Rightarrow> reply \<times> service" where
  "post_command env body taken s =
     (case payload_of body of
        JObject m \<Rightarrow>
          (let t = stripped_field env m ''text'' [] in
           if t = [] then (refusal ''Command text is required'', s)
           else (case service_send taken (command_message t) s of
                   (Some e, s') \<Rightarrow> (Internal_error, s')
                 | (None, s') \<Rightarrow>
                     (Reply 200 (JObject [(py ''ok'', JBool True), (py ''message'', JString (py ''Command sent'')),
                        (py ''text'', JString t)]), s')))
      | _ \<Rightarrow> (Internal_error, s))"

definition post_chat :: "dash_env \<Rightarrow> json option \<Rightarrow> nat option \<Rightarrow> service \<Rightarrow> reply \<times> service" where
  "post_chat env body taken s =
     (case payload_of body of
        JObject m \<Rightarrow>
          (let named = stripped_field env m ''from'' ''dashboard'';
               sender = (if named = [] then py ''dashboard'' else named);
               t = stripped_field env m ''text'' []
           in if t = [] then (refusal ''Chat text is required'', s)
              else (case service_send taken (chat_message sender t) s of
                      (Some e, s') \<Rightarrow> (Internal_error, s')
                    | (None, s') \<Rightarrow>
                        (Reply 200 (JObject [(py ''ok'', JBool True), (py ''message'', JString (py ''Chat sent''))]), s')))
      | _ \<Rightarrow> (Internal_error, s))"

definition get_state :: "dash_env \<Rightarrow> service \<Rightarrow> reply \<times> service" where
  "get_state env s = (let (v, s') = snapshot env s in (Reply 200 v, s'))"

definition post_upload :: "dash_env \<Rightarrow> service \<Rightarrow> reply \<times> service" where
  "post_upload env s = (let (v, s') = service_upload env s in (Reply 200 v, s'))"

datatype web_request = Post_command "json option" | Post_chat "json option" | Post_upload | Get_api_state

text \<open>
  A request, with what \<^verbatim>\<open>sendall\<close> does if it sends (\<open>taken\<close> as in \<open>service_send\<close>), and a
  sequence of them.
\<close>

definition serve_request :: "dash_env \<Rightarrow> nat option \<Rightarrow> web_request \<Rightarrow> service \<Rightarrow> reply \<times> service" where
  "serve_request env taken r s =
     (case r of
        Post_command body \<Rightarrow> post_command env body taken s
      | Post_chat body \<Rightarrow> post_chat env body taken s
      | Post_upload \<Rightarrow> post_upload env s
      | Get_api_state \<Rightarrow> get_state env s)"

fun web_run :: "dash_env \<Rightarrow> (nat option \<times> web_request) list \<Rightarrow> service \<Rightarrow> reply list \<times> service" where
  "web_run env [] s = ([], s)"
| "web_run env ((taken, r) # rs) s =
     (let (p, s1) = serve_request env taken r s; (ps, s2) = web_run env rs s1 in (p # ps, s2))"

section \<open>What the server reads of a chat line\<close>

lemma chat_message_shape:
  "chat_message a u = CHR ''{'' # quoted_key ''type'' @ CHR '':'' # CHR '' '' # quoted_key ''chat'' @ CHR '','' #
     CHR '' '' # quoted_key ''from'' @ CHR '':'' # CHR '' '' # CHR_quote # dumped a @ CHR_quote # CHR '','' #
     CHR '' '' # quoted_key ''text'' @ CHR '':'' # CHR '' '' # CHR_quote # dumped u @ CHR_quote # ''}''"
  by (simp add: chat_message_def dumps_string_def quoted_key_def dumped_def)

lemma heard_dumped: "heard u = takeWhile (\<lambda>c. c \<noteq> CHR_quote) (dumped u)"
  by (simp add: heard_def dumped_def)

lemma token_dumped: "string_token (dropWhile isspace (CHR '' '' # CHR_quote # dumped u @ CHR_quote # s)) = Some (heard u)"
  by (simp add: string_token_def heard_dumped takeWhile_until isspace_def spaces_def)

lemma chat_type: "str_field (chat_message a u) ''type'' fb = ''chat''"
proof -
  have "string_token (quoted_key ''chat'' @ rest) = Some ''chat''" for rest
    using string_token_quoted [of "''chat''" rest] by (simp add: quoted_key_def)
  then have "json_get_string (chat_message a u) ''type'' = Some ''chat''"
    unfolding chat_message_shape
    by (subst str.get_skip_Cons, simp, intro str.get_here) (simp add: command_idents(3) quoted_key_def)
  then show ?thesis by (simp add: str_field_def value_or_def)
qed

lemma chat_after_type:
  assumes "ident key" and "key \<noteq> ''type''"
  shows "json_get_string (CHR ''{'' # quoted_key ''type'' @ CHR '':'' # CHR '' '' # quoted_key ''chat'' @ CHR '','' # CHR '' '' # s) key =
    json_get_string s key"
  using assms
  by (simp add: str.get_skip_Cons str.get_skip_key [OF assms(1) command_idents(1)]
      str.get_skip_quoted [OF assms(1), of "''chat''" "CHR '',''"] ident_char_def isspace_def spaces_def)

lemma chat_fields: "json_get_string (chat_message a u) ''from'' = Some (heard a)" "json_get_string (chat_message a u) ''text'' = Some (heard u)"
proof -
  have id: "ident ''from''" "ident ''text''" by (simp_all add: ident_def ident_char_def)
  let ?t = "quoted_key ''text'' @ CHR '':'' # CHR '' '' # CHR_quote # dumped u @ CHR_quote # ''}''"
  have here: "json_get_string (quoted_key ''from'' @ CHR '':'' # CHR '' '' # CHR_quote # dumped a @ CHR_quote # CHR '','' # CHR '' '' # ?t) ''from''
      = Some (heard a)"
    "json_get_string ?t ''text'' = Some (heard u)"
    using str.get_here [OF token_dumped] by simp_all
  then show "json_get_string (chat_message a u) ''from'' = Some (heard a)"
    unfolding chat_message_shape by (simp add: chat_after_type id)
  have q: "field_value ''text'' (CHR_quote # dumped a @ CHR_quote # CHR '','' # CHR '' '' # ?t) = None"
    by (rule str.field_value_dumped [OF id(2)]) (simp_all add: isspace_def spaces_def)
  have "json_get_string (quoted_key ''from'' @ CHR '':'' # CHR '' '' # CHR_quote # dumped a @ CHR_quote # CHR '','' # CHR '' '' # ?t) ''text''
      = json_get_string (dumped a @ CHR_quote # CHR '','' # CHR '' '' # ?t) ''text''"
    using str.get_skip_key [OF id(2,1)] by (simp add: str.get_skip_Cons str.get_miss [OF q])
  also have "\<dots> = json_get_string ?t ''text''"
    by (subst str.get_skip_dumped [OF id(2)]) (simp_all add: isspace_def spaces_def ident_char_def str.get_skip_Cons)
  finally show "json_get_string (chat_message a u) ''text'' = Some (heard u)"
    using here(2) unfolding chat_message_shape by (simp add: chat_after_type id)
qed

lemma chat_line: "handle_line env i (chat_message a u) s =
    (let (now, s1) = server_clock env s
     in Inr (broadcast_to_dashboards env
          (chat_event_to_json \<lparr>chat_sender = heard a, chat_text = heard u, chat_timestamp = iso_timestamp now\<rparr>) s1))"
  by (simp add: handle_line_def chat_type handle_chat_def str_field_def [of _ "''from''"] str_field_def [of _ "''text''"]
      chat_fields value_or_def Let_def case_prod_unfold)

lemma nl_free_chat: "nl_free (chat_message a u)"
  using nl_free_dumps_char by (auto simp: chat_message_def dumps_string_def)

lemma trim_chat: "trim (chat_message a u) = chat_message a u"
proof -
  have "trim ([] @ chat_message a u @ []) = chat_message a u"
    by (rule trim_eqI) (simp_all add: chat_message_def isspace_def spaces_def)
  then show ?thesis by simp
qed

section \<open>What requests send\<close>

text \<open>The line an accepted request sends.\<close>

definition posted_line :: "cpp_string \<Rightarrow> bool" where
  "posted_line l \<longleftrightarrow> (\<exists>u. l = command_message u) \<or> (\<exists>a u. l = chat_message a u)"

definition accepted_post :: "web_request \<Rightarrow> reply \<Rightarrow> bool" where
  "accepted_post r p \<longleftrightarrow> (case r of Post_command b \<Rightarrow> True | Post_chat b \<Rightarrow> True | _ \<Rightarrow> False) \<and> (\<exists>v. p = Reply 200 v)"

text \<open>
  A request that is accepted sends a whole line; any other at most the beginning of one.
\<close>

definition posts :: "service \<Rightarrow> bool \<Rightarrow> service \<Rightarrow> bool" where
  "posts s ok s' \<longleftrightarrow>
     (if ok then \<exists>l. posted_line l \<and> sent_bytes (link s') = sent_bytes (link s) @ l @ [CHR_nl]
      else \<exists>l n. posted_line l \<and> sent_bytes (link s') = sent_bytes (link s) @ take n l)"

lemma posts_nothing: "sent_bytes (link s') = sent_bytes (link s) \<Longrightarrow> posts s False s'"
  unfolding posts_def by (auto simp: posted_line_def intro!: exI [of _ "command_message []"] exI [of _ 0])

lemma service_send_posts:
  assumes "service_send taken l s = (e, s')" and "posted_line l"
  shows "posts s (e = None) s'"
proof -
  have part: "posts s False s'" if "sent_bytes (link s') = sent_bytes (link s) @ take n l" for n
    using that assms(2) unfolding posts_def by auto
  show ?thesis
  proof (cases "link_socket s")
    case Open_socket
    show ?thesis
    proof (cases taken)
      case None
      then show ?thesis using assms Open_socket by (auto simp: service_send_def Let_def posts_def)
    next
      case (Some n)
      then show ?thesis using assms Open_socket part [of "min n (length l)"] by (auto simp: service_send_def Let_def)
    qed
  qed (use assms in \<open>auto simp: service_send_def intro: posts_nothing\<close>)
qed

lemma post_command_posts: "post_command env body taken s = (p, s') \<Longrightarrow> posts s (\<exists>v. p = Reply 200 v) s'"
  using service_send_posts [of taken "command_message _" s]
  by (fastforce simp: post_command_def refusal_def Let_def posted_line_def intro: posts_nothing
      split: json.splits if_splits prod.splits option.splits)

lemma post_chat_posts: "post_chat env body taken s = (p, s') \<Longrightarrow> posts s (\<exists>v. p = Reply 200 v) s'"
  using service_send_posts [of taken "chat_message _ _" s]
  by (fastforce simp: post_chat_def refusal_def Let_def posted_line_def intro: posts_nothing
      split: json.splits if_splits prod.splits option.splits)

lemma serve_request_posts: "serve_request env taken r s = (p, s') \<Longrightarrow> posts s (accepted_post r p) s'"
  using post_command_posts post_chat_posts
  by (cases r)
    (auto simp: serve_request_def accepted_post_def post_upload_def service_upload_def get_state_def snapshot_def Let_def
      case_prod_unfold intro: posts_nothing)

section \<open>Lines with the beginnings of others before them\<close>

text \<open>
  What a refused \<^verbatim>\<open>sendall\<close> has sent stays in the stream, before the next message.
\<close>

inductive glued :: "cpp_string \<Rightarrow> bool" where
  whole: "posted_line l \<Longrightarrow> glued l"
| part: "posted_line l \<Longrightarrow> glued g \<Longrightarrow> glued (take n l @ g)"

lemma posted_line_free: "posted_line l \<Longrightarrow> nl_free l"
  using nl_free_command nl_free_chat by (auto simp: posted_line_def)

definition type_header :: cpp_string where
  "type_header = CHR ''{'' # quoted_key ''type'' @ CHR '':'' # CHR '' '' # [CHR_quote]"

lemma posted_line_header:
  "posted_line l \<Longrightarrow> \<exists>k r. k \<in> {''command'', ''chat''} \<and> l = type_header @ k @ CHR_quote # r"
  by (auto simp: posted_line_def command_message_def chat_message_def type_header_def quoted_key_def)

lemma glued_shape: "glued g \<Longrightarrow> (\<exists>r. g = CHR ''{'' # r \<and> CHR_quote \<in> set r) \<and> last g = CHR ''}'' \<and> nl_free g"
proof (induction rule: glued.induct)
  case (whole l)
  moreover have "last l = CHR ''}''"
    using whole by (auto simp: posted_line_def command_message_def chat_message_def)
  ultimately show ?case
    using posted_line_header [of l] posted_line_free by (auto simp: type_header_def)
next
  case (part l g n)
  have "nl_free (take n l)" using posted_line_free [OF part(1)] by (auto dest: in_set_takeD)
  moreover have "take n l = [] \<or> (\<exists>u. take n l = CHR ''{'' # u)"
    using posted_line_header [OF part(1)] by (cases n) (auto simp: type_header_def)
  ultimately show ?case using part.IH by auto
qed

lemma short_header:
  assumes "n < length type_header"
  shows "json_get_string (take n type_header @ CHR ''{'' # g) ''type'' = json_get_string (CHR ''{'' # g) ''type''"
proof -
  have "n \<in> {0, 1, 2, 3, 4, 5, 6, 7, 8, 9}" using assms by (auto simp: type_header_def quoted_key_def)
  then show ?thesis
    by (auto simp: type_header_def str.get_Cons field_value_def quoted_key_def string_token_def isspace_def spaces_def)
qed

lemma long_header:
  assumes "CHR_quote \<in> set s"
  shows "json_get_string (type_header @ s) ''type'' = Some (takeWhile (\<lambda>c. c \<noteq> CHR_quote) s)"
proof -
  have "string_token (dropWhile isspace (CHR '' '' # CHR_quote # s)) = Some (takeWhile (\<lambda>c. c \<noteq> CHR_quote) s)"
    using assms by (simp add: string_token_def isspace_def spaces_def)
  then have "json_get_string (quoted_key ''type'' @ CHR '':'' # CHR '' '' # CHR_quote # s) ''type'' =
      Some (takeWhile (\<lambda>c. c \<noteq> CHR_quote) s)"
    by (rule str.get_here)
  then show ?thesis by (simp add: type_header_def str.get_skip_Cons)
qed

lemma glued_type:
  "glued g \<Longrightarrow> \<exists>v. json_get_string g ''type'' = Some v \<and> (v \<in> {''command'', ''chat''} \<or> CHR ''{'' \<in> set v)"
proof (induction rule: glued.induct)
  case (whole l)
  obtain k r where k: "k \<in> {''command'', ''chat''}" "l = type_header @ k @ CHR_quote # r"
    using posted_line_header [OF whole] by blast
  then have "takeWhile (\<lambda>c. c \<noteq> CHR_quote) (k @ CHR_quote # r) = k" by auto
  then show ?case using long_header [of "k @ CHR_quote # r"] k by auto
next
  case (part l g n)
  obtain k r where k: "k \<in> {''command'', ''chat''}" "l = type_header @ k @ CHR_quote # r"
    using posted_line_header [OF part(1)] by blast
  obtain u where g: "g = CHR ''{'' # u" "CHR_quote \<in> set u" using glued_shape [OF part(2)] by blast
  show ?case
  proof (cases "n < length type_header")
    case True
    then show ?thesis using short_header [OF True, of u] part.IH k(2) g(1) by simp
  next
    case False
    let ?s = "take (n - length type_header) (k @ CHR_quote # r) @ g"
    have "take n l @ g = type_header @ ?s" using False k(2) by simp
    moreover have "CHR_quote \<in> set ?s" using g by simp
    moreover have "takeWhile (\<lambda>c. c \<noteq> CHR_quote) ?s \<in> {''command'', ''chat''} \<or>
        CHR ''{'' \<in> set (takeWhile (\<lambda>c. c \<noteq> CHR_quote) ?s)"
    proof (cases "length k < n - length type_header")
      case True
      then obtain m where "n - length type_header = length k + Suc m" by (metis less_imp_Suc_add add_Suc_right)
      then have "?s = k @ CHR_quote # take m r @ g" by simp
      then show ?thesis using k(1) by auto
    next
      case False
      then have s: "?s = take (n - length type_header) k @ CHR ''{'' # u" by (simp add: g(1))
      have "\<forall>c \<in> set (take (n - length type_header) k). c \<noteq> CHR_quote" using k(1) by (auto dest: in_set_takeD)
      then show ?thesis unfolding s by (simp add: takeWhile_append)
    qed
    ultimately show ?thesis using long_header [of ?s] by auto
  qed
qed

text \<open>A server that handles such a line answers a command, relays a chat line, or answers that it does not know it.\<close>

lemma glued_handled:
  assumes "glued g" and "handle_line env i g srv = Inr srv'"
  shows "clients srv' = clients srv \<and> latest_metrics srv' = latest_metrics srv"
proof -
  obtain v where v: "str_field g ''type'' [] = v" "v \<in> {''command'', ''chat''} \<or> CHR ''{'' \<in> set v"
    using glued_type [OF assms(1)] by (auto simp: str_field_def value_or_def)
  then have ne: "v \<noteq> ''register''" "v \<noteq> ''metrics''" by auto
  show ?thesis
  proof (cases "v = ''command''")
    case True
    then have "handle_command env (fd (clients srv ! i)) (str_field g ''text'' []) srv = Inr srv'"
      using assms(2) v(1) by (simp add: handle_line_def)
    then show ?thesis by (rule handle_command_cases) simp_all
  next
    case other: False
    show ?thesis
    proof (cases "v = ''chat''")
      case True
      then have "srv' = handle_chat env i g srv" using assms(2) v(1) by (simp add: handle_line_def)
      then show ?thesis by (simp add: handle_chat_def Let_def case_prod_unfold)
    next
      case False
      then have "srv' = server_send env (fd (clients srv ! i)) (error_event_to_json ''unsupported message'') srv"
        using assms(2) v(1) ne other by (simp add: handle_line_def)
      then show ?thesis by (simp add: server_send_def)
    qed
  qed
qed

lemma glued_trim: "glued g \<Longrightarrow> trim g = g"
proof -
  assume "glued g"
  then obtain r where g: "g = CHR ''{'' # r" "last g = CHR ''}''" using glued_shape by blast
  then have "trim ([] @ g @ []) = g" by (intro trim_eqI) (simp_all add: isspace_def spaces_def)
  then show ?thesis by simp
qed

section \<open>What requests can do to the server\<close>

lemma web_run_bytes:
  assumes "web_run env rs s = (ps, s')" and "sent_bytes (link s) = unlines ks @ rest" and "nl_free rest"
    and "\<And>g. glued g \<Longrightarrow> glued (rest @ g)"
  shows "\<exists>ls rest'. sent_bytes (link s') = unlines (ks @ ls) @ rest' \<and> nl_free rest' \<and> (\<forall>l \<in> set ls. glued l) \<and>
    length ls = length (filter (\<lambda>((taken, r), p). accepted_post r p) (zip rs ps))"
  using assms
proof (induction rs arbitrary: s ps ks rest)
  case Nil
  then show ?case by (intro exI [of _ "[]"] exI [of _ rest]) auto
next
  case (Cons tr rs)
  obtain taken r where tr: "tr = (taken, r)" by (cases tr)
  obtain p s1 qs where r: "serve_request env taken r s = (p, s1)" "web_run env rs s1 = (qs, s')" "ps = p # qs"
    using Cons.prems(1) by (auto simp: tr split: prod.splits)
  note posted = serve_request_posts [OF r(1)]
  show ?case
  proof (cases "accepted_post r p")
    case True
    then obtain l where l: "posted_line l" "sent_bytes (link s1) = sent_bytes (link s) @ l @ [CHR_nl]"
      using posted by (auto simp: posts_def)
    have sent: "sent_bytes (link s1) = unlines (ks @ [rest @ l]) @ []" using l(2) Cons.prems(2) by simp
    have "glued (rest @ l)" using Cons.prems(4) whole [OF l(1)] .
    moreover obtain ls rest' where "sent_bytes (link s') = unlines ((ks @ [rest @ l]) @ ls) @ rest'" "nl_free rest'"
        "\<forall>l \<in> set ls. glued l" "length ls = length (filter (\<lambda>((taken, r), p). accepted_post r p) (zip rs qs))"
      using Cons.IH [OF r(2) sent] by auto
    ultimately show ?thesis using True r(3) tr
      by (intro exI [of _ "(rest @ l) # ls"] exI [of _ rest']) auto
  next
    case False
    then obtain l n where l: "posted_line l" "sent_bytes (link s1) = sent_bytes (link s) @ take n l"
      using posted by (auto simp: posts_def)
    have sent: "sent_bytes (link s1) = unlines ks @ (rest @ take n l)" using l(2) Cons.prems(2) by simp
    have "nl_free (rest @ take n l)" using Cons.prems(3) posted_line_free [OF l(1)] by (auto dest: in_set_takeD)
    moreover have "glued ((rest @ take n l) @ g)" if "glued g" for g
      using Cons.prems(4) [OF part [OF l(1) that, of n]] by simp
    ultimately show ?thesis using Cons.IH [OF r(2) sent] False r(3) tr by auto
  qed
qed

text \<open>
  C8: Whatever is posted to the web application over one connection, in any sequence of requests with any JSON
  as their bodies, and however many bytes of a message go out before a \<^verbatim>\<open>sendall\<close> that fails
  raises: the server gets one complete line for each request that is answered with success. Such a line
  may begin with what failed requests had sent, and so may the incomplete line that is left. But no text
  smuggles in a line of its own, and none of the lines, damaged or not, makes the server register a
  client or store a report.
\<close>

theorem web_requests_cannot_forge:
  assumes "sent_bytes (link s) = unlines ks"
  shows "\<exists>ls rest. sent_bytes (link (snd (web_run wenv rs s))) = unlines (ks @ ls) @ rest \<and> nl_free rest \<and>
     length ls = length (filter (\<lambda>((taken, r), p). accepted_post r p) (zip rs (fst (web_run wenv rs s)))) \<and>
     (\<forall>l \<in> set ls. nl_free l \<and> trim l = l \<and>
        (\<forall>env i srv srv'. handle_line env i l srv = Inr srv' \<longrightarrow>
           clients srv' = clients srv \<and> latest_metrics srv' = latest_metrics srv))"
proof -
  obtain ps s' where run: "web_run wenv rs s = (ps, s')" by fastforce
  obtain ls rest where ls: "sent_bytes (link s') = unlines (ks @ ls) @ rest" "nl_free rest" "\<forall>l \<in> set ls. glued l"
      "length ls = length (filter (\<lambda>((taken, r), p). accepted_post r p) (zip rs ps))"
    using web_run_bytes [OF run, of ks "[]"] assms by auto
  moreover have "nl_free l \<and> trim l = l \<and> (\<forall>env i srv srv'. handle_line env i l srv = Inr srv' \<longrightarrow>
      clients srv' = clients srv \<and> latest_metrics srv' = latest_metrics srv)" if "l \<in> set ls" for l
  proof -
    have "glued l" using ls(3) that by blast
    then show ?thesis using glued_shape [of l] glued_trim [of l] glued_handled [of l] by simp
  qed
  ultimately show ?thesis by (intro exI [of _ ls] exI [of _ rest]) (simp add: run)
qed

section \<open>A chat line, from a page to all pages\<close>

lemma last_last_n: "0 < n \<Longrightarrow> last (last_n n (xs @ [x])) = x"
  by (simp add: last_n_def)

lemma chat_entry:
  "last (state_chat (feed denv [Chat c] d)) =
     \<lparr>entry_from = JString (text_of (chat_sender c)), entry_text = JString (text_of (chat_text c)),
      entry_timestamp = JString (text_of (chat_timestamp c))\<rparr>"
  by (simp add: chat_event_text_def dict_of_distinct dash_event_types get_or_def append_chat_def last_last_n del: py_simps)

lemma command_safe_printable: "command_safe t \<Longrightarrow> printable t"
  by (simp add: command_safe_def printable_def)

lemma post_chat_sends:
  assumes "map_of m (py ''from'') = Some (JString a)" and "py_strip a = py name" and "name \<noteq> []"
    and "map_of m (py ''text'') = Some (JString u)" and "py_strip u = py t" and "t \<noteq> []"
    and "link_socket s = Open_socket"
  shows "\<exists>v. post_chat wenv (Some (JObject m)) None s =
    (Reply 200 v, s\<lparr>link := (link s)\<lparr>sent_bytes := sent_bytes (link s) @ chat_message (py name) (py t) @ [CHR_nl]\<rparr>\<rparr>)"
proof -
  have "m \<noteq> []" using assms(1) by auto
  moreover have "py name \<noteq> []" "py t \<noteq> []" using assms(3,6) by (simp_all add: py_def)
  ultimately show ?thesis
    using assms by (simp add: post_chat_def payload_of_def stripped_field_def get_or_def str_of_def service_send_def Let_def
        del: py_simps)
qed

text \<open>
  C7: A chat line crosses the whole system. A user posts a name and a text on one dashboard's page;
  the request succeeds, the server gets the line in whatever pieces and sends every dashboard one
  message, and each dashboard that reads it, in whatever chunks, has as its newest chat entry the name
  and the text as they were typed, without the white space around them. They must be printable and
  without quotes and backslashes, which the server does not undo.
\<close>

theorem chat_reaches_every_page:
  assumes "map_of m (py ''from'') = Some (JString a)" and "py_strip a = py name" and "name \<noteq> []"
    and "map_of m (py ''text'') = Some (JString u)" and "py_strip u = py t" and "t \<noteq> []"
    and "command_safe name" and "command_safe t" and "link_socket s = Open_socket"
    and "post_chat wenv (Some (JObject m)) None s = (p, s')"
    and "sent_bytes (link s') = sent_bytes (link s) @ concat chunks" and "\<forall>ch \<in> set chunks. recv_chunk ch"
    and "reliable env" and "distinct_fds srv" and "i < length (clients srv)" and "buffer (clients srv ! i) = []"
  shows "\<exists>v srv'. p = Reply 200 v \<and> read_chunks env i chunks srv = Inr srv' \<and>
    (\<forall>g \<in> set (dashboards (clients srv)). \<exists>sent. stream (net srv') g = stream (net srv) g @ sent \<and>
       (\<forall>denv pieces c. chunks_of pieces sent \<and> receiving c \<and> py_buffer c = [] \<longrightarrow>
          last (state_chat (dash (fold (run_step denv) (map (\<lambda>ch. Received (Data ch)) pieces) c))) =
            \<lparr>entry_from = JString (py name), entry_text = JString (py t),
             entry_timestamp = JString (py (iso_timestamp (clock_at env (clock_reads (net srv)))))\<rparr>))"
proof -
  let ?now = "fst (server_clock env srv)" and ?s1 = "snd (server_clock env srv)"
  let ?chat = "\<lparr>chat_sender = name, chat_text = t, chat_timestamp = iso_timestamp ?now\<rparr>"
  let ?srv' = "broadcast_to_dashboards env (event_line (Chat ?chat)) ?s1"
  obtain v where v: "p = Reply 200 v" and "concat chunks = chat_message (py name) (py t) @ [CHR_nl]"
    using post_chat_sends [OF assms(1-6,9), of wenv] assms(10,11) by auto
  then have "read_chunks env i chunks srv = map_result (set_buffer i []) (handle_line env i (chat_message (py name) (py t)) srv)"
    using assms(12,15,16) nl_free_chat trim_chat by (intro single_line_read) (simp_all add: chat_message_def)
  also have "\<dots> = Inr (set_buffer i [] ?srv')"
    using assms(7,8) by (simp add: chat_line heard_safe Let_def case_prod_unfold)
  also have "set_buffer i [] ?srv' = ?srv'" using assms(16) conn.put_get [of i ?srv'] by simp
  finally have read: "read_chunks env i chunks srv = Inr ?srv'" .
  have valid: "printable_event (Chat ?chat)"
    using assms(7,8) command_safe_printable printable_iso_timestamp by simp
  have "stream (net ?srv') g = stream (net srv) g @ unlines (map event_line [Chat ?chat])"
    if "g \<in> set (dashboards (clients srv))" for g
    using broadcast_stream [OF assms(13), of ?s1] assms(14) that by (simp add: distinct_fds_def server_clock_stream)
  moreover have "last (state_chat (dash (fold (run_step denv) (map (\<lambda>ch. Received (Data ch)) pieces) c))) =
      \<lparr>entry_from = JString (py name), entry_text = JString (py t), entry_timestamp = JString (py (iso_timestamp ?now))\<rparr>"
    if "chunks_of pieces (unlines (map event_line [Chat ?chat]))" "receiving c" "py_buffer c = []" for denv pieces c
    using dashboard_reads_events [of "[Chat ?chat]" c pieces denv] that valid assms(7,8)
    by (simp add: chat_entry printable_valid command_safe_printable printable_iso_timestamp del: feed.simps)
  ultimately show ?thesis using v read
    by (intro exI [of _ v] exI [of _ ?srv'] conjI ballI exI [of _ "unlines (map event_line [Chat ?chat])"]) simp_all
qed

section \<open>Examples\<close>

lemma strip_examples:
  "py_strip (py '' ops '') = py ''ops''" "py_strip (py ''hello'') = py ''hello''" "py_strip (py ''/clients'') = py ''/clients''"
  by code_simp+

text \<open>A command of which twelve bytes go out before the call fails, and the same command again: a single line, which the server does not know.\<close>

theorem web_requests_cannot_forge_example:
  "\<exists>l srv'. sent_bytes (link (snd (web_run calm_env
       [(Some 12, Post_command (Some (JObject [(py ''text'', JString (py ''/clients''))]))),
        (None, Post_command (Some (JObject [(py ''text'', JString (py ''/clients''))])))] waiting_service))) =
       dash_register @ unlines [l] \<and>
     l = take 12 (command_message (py ''/clients'')) @ command_message (py ''/clients'') \<and>
     handle_line steady_env 0 l (sample_server Dashboard) = Inr srv' \<and> clients srv' = clients (sample_server Dashboard)"
proof -
  let ?c = "Post_command (Some (JObject [(py ''text'', JString (py ''/clients''))]))" and ?m = "command_message (py ''/clients'')"
  let ?rs = "[(Some 12, ?c), (None, ?c)]" and ?l = "take 12 ?m @ ?m"
  have ne: "py ''/clients'' \<noteq> []" by (simp add: py_def)
  have len: "12 \<le> length ?m" by (simp add: command_message_def)
  have one: "\<exists>v. serve_request calm_env taken ?c s = (case service_send taken ?m s of
      (Some e, s') \<Rightarrow> (Internal_error, s') | (None, s') \<Rightarrow> (Reply 200 v, s'))" for taken s
    using ne strip_examples(3)
    by (auto simp: serve_request_def post_command_def payload_of_def stripped_field_def get_or_def str_of_def Let_def
        simp del: py_simps)
  define s1 where "s1 = waiting_service\<lparr>link := (link waiting_service)\<lparr>sent_bytes := dash_register @ take 12 ?m\<rparr>\<rparr>"
  have "service_send (Some 12) ?m waiting_service = (Some Send_failed, s1)"
    using waiting_service_facts(2,5) len by (simp add: service_send_def s1_def Let_def)
  moreover have "link_socket s1 = Open_socket" using waiting_service_facts(2) by (simp add: s1_def)
  then obtain s2 where "service_send None ?m s1 = (None, s2)" "sent_bytes (link s2) = dash_register @ ?l @ [CHR_nl]"
    by (auto simp: service_send_def s1_def Let_def)
  ultimately have run: "\<exists>v s'. web_run calm_env ?rs waiting_service = ([Internal_error, Reply 200 v], s') \<and>
      sent_bytes (link s') = dash_register @ ?l @ [CHR_nl]"
    using one [of "Some 12" waiting_service] one [of None s1] by (auto simp: Let_def)
  then obtain v s' where r: "web_run calm_env ?rs waiting_service = ([Internal_error, Reply 200 v], s')"
      "sent_bytes (link s') = dash_register @ ?l @ [CHR_nl]" by blast
  obtain k where k: "dash_register = unlines [k]" using register_text_fields(1) by auto
  obtain ls rest where ls: "sent_bytes (link s') = unlines ([k] @ ls) @ rest" "nl_free rest" "length ls = 1"
      "\<forall>l \<in> set ls. nl_free l \<and> (\<forall>env i srv srv'. handle_line env i l srv = Inr srv' \<longrightarrow> clients srv' = clients srv)"
    using web_requests_cannot_forge [of waiting_service "[k]" calm_env ?rs] r(1) waiting_service_facts(5) k
    by (auto simp: accepted_post_def)
  then obtain l where l: "ls = [l]" by (cases ls) auto
  have "dash_register @ l @ CHR_nl # rest = dash_register @ ?l @ CHR_nl # []"
    using ls(1) unfolding r(2) l k by simp
  then have "l @ CHR_nl # rest = ?l @ CHR_nl # []" by (simp only: same_append_eq)
  moreover have "nl_free ?l" using nl_free_command by (auto dest: in_set_takeD)
  ultimately have l': "l = ?l" using ls(4) l by (metis before_after_newline_append(1) list.set_intros(1))
  have "take 12 ?m @ ?m = type_header @ ''co'' @ ?m" by (simp add: command_message_def type_header_def quoted_key_def)
  moreover have "takeWhile (\<lambda>c. c \<noteq> CHR_quote) (''co'' @ ?m) = ''co{''" "CHR_quote \<in> set (''co'' @ ?m)"
    by (simp_all add: command_message_def)
  ultimately have "str_field l ''type'' [] = ''co{''"
    using long_header [of "''co'' @ ?m"] by (simp add: l' str_field_def value_or_def)
  then obtain t where t: "handle_line steady_env 0 l (sample_server Dashboard) = Inr t" by (simp add: handle_line_def)
  then have "clients t = clients (sample_server Dashboard)" using ls(4) l by auto
  then show ?thesis using t r ls(1) k l l' by (intro exI [of _ l] exI [of _ t]) simp
qed

definition sample_chat :: "(py_str \<times> json) list" where
  "sample_chat = [(py ''from'', JString (py '' ops '')), (py ''text'', JString (py ''hello''))]"

theorem chat_reaches_every_page_example:
  "\<exists>v s' srv' sent. post_chat calm_env (Some (JObject sample_chat)) None waiting_service = (Reply 200 v, s') \<and>
     read_chunks steady_env 0 (map (\<lambda>b. [b]) (drop (length dash_register) (sent_bytes (link s')))) (sample_server Dashboard) =
       Inr srv' \<and>
     stream (net srv') 5 = sent \<and>
     last (state_chat (dash (fold (run_step calm_env) (map (\<lambda>ch. Received (Data ch)) (map (\<lambda>b. [b]) sent)) registered_connector))) =
       \<lparr>entry_from = JString (py ''ops''), entry_text = JString (py ''hello''),
        entry_timestamp = JString (py ''1970-01-01T00:00:00Z'')\<rparr>"
proof -
  let ?line = "chat_message (py ''ops'') (py ''hello'')"
  have m: "map_of sample_chat (py ''from'') = Some (JString (py '' ops ''))"
      "map_of sample_chat (py ''text'') = Some (JString (py ''hello''))"
    by (simp_all add: sample_chat_def del: py_simps)
  have safe: "command_safe ''ops''" "command_safe ''hello''" by (simp_all add: command_safe_def plain_def)
  obtain v where p: "post_chat calm_env (Some (JObject sample_chat)) None waiting_service = (Reply 200 v,
      waiting_service\<lparr>link := (link waiting_service)\<lparr>sent_bytes := dash_register @ ?line @ [CHR_nl]\<rparr>\<rparr>)"
    using post_chat_sends [OF m(1) strip_examples(1) _ m(2) strip_examples(2) _ waiting_service_facts(2), of calm_env]
      waiting_service_facts(5) by auto
  let ?s' = "waiting_service\<lparr>link := (link waiting_service)\<lparr>sent_bytes := dash_register @ ?line @ [CHR_nl]\<rparr>\<rparr>"
  let ?chunks = "map (\<lambda>b. [b]) (?line @ [CHR_nl])"
  have ch: "concat ?chunks = ?line @ [CHR_nl]" "\<forall>c \<in> set ?chunks. recv_chunk c"
    using single_bytes [of "?line @ [CHR_nl]"] by (auto simp: chunks_of_def recv_chunk_def)
  have bytes: "sent_bytes (link ?s') = sent_bytes (link waiting_service) @ concat ?chunks"
    unfolding ch(1) by (simp add: waiting_service_facts(5))
  have srv: "distinct_fds (sample_server Dashboard)" "0 < length (clients (sample_server Dashboard))"
      "buffer (clients (sample_server Dashboard) ! 0) = []" "5 \<in> set (dashboards (clients (sample_server Dashboard)))"
      "stream (net (sample_server Dashboard)) 5 = []" "clock_at steady_env n = 0" for n
    by (simp_all add: sample_server_def sample_client_def distinct_fds_def dashboards_def stream_def initial_world_def steady_env_def)
  have iso: "iso_timestamp 0 = ''1970-01-01T00:00:00Z''" by code_simp
  from chat_reaches_every_page [OF m(1) strip_examples(1) _ m(2) strip_examples(2) _ safe waiting_service_facts(2) p bytes ch(2)
      reliable_steady_env srv(1-3)]
  obtain srv' where srv': "read_chunks steady_env 0 ?chunks (sample_server Dashboard) = Inr srv'"
      "\<exists>sent. stream (net srv') 5 = sent \<and>
         (\<forall>denv pieces c. chunks_of pieces sent \<and> receiving c \<and> py_buffer c = [] \<longrightarrow>
            last (state_chat (dash (fold (run_step denv) (map (\<lambda>ch. Received (Data ch)) pieces) c))) =
              \<lparr>entry_from = JString (py ''ops''), entry_text = JString (py ''hello''),
               entry_timestamp = JString (py ''1970-01-01T00:00:00Z'')\<rparr>)"
    using srv(4-6) by (auto simp: iso simp del: py_simps)
  then obtain sent where sent: "stream (net srv') 5 = sent"
      "last (state_chat (dash (fold (run_step calm_env) (map (\<lambda>ch. Received (Data ch)) (map (\<lambda>b. [b]) sent)) registered_connector))) =
         \<lparr>entry_from = JString (py ''ops''), entry_text = JString (py ''hello''),
          entry_timestamp = JString (py ''1970-01-01T00:00:00Z'')\<rparr>"
    using single_bytes registered_connector_simps(1,2) by metis
  have "drop (length dash_register) (sent_bytes (link ?s')) = ?line @ [CHR_nl]" by simp
  then show ?thesis
    using p srv'(1) sent by (intro exI [of _ v] exI [of _ ?s'] exI [of _ srv'] exI [of _ sent] conjI) (simp_all only:)
qed

end
