(* ===== verification/Spec2Isabelle.thy ===== *)
theory Spec2Isabelle
  imports Common_Time Agent_Counters Agent_Reconnect Server_Abort Alert_Delivery Dashboard_Faults Dashboard_Web
begin

text \<open>
  \<^bold>\<open>SysNetMon: a verification of the agent, the monitoring server and the dashboard's service.\<close>

  \<^bold>\<open>The program.\<close> An agent runs on every host. It samples the processor, the memory,
  the disk and the network, and sends one report per interval as a line of JSON over TCP. The
  server reads lines from all its connections in a single-threaded \<^verbatim>\<open>select\<close> loop. A
  connection registers as an agent or as a dashboard. Reports of agents are kept, the last one per
  host, relayed to the dashboards and compared with the alert rules; an alert is announced when a
  rule starts to hold for a host. Any connection may send commands (\<^verbatim>\<open>/alert\<close>,
  \<^verbatim>\<open>/listalerts\<close>, \<^verbatim>\<open>/clients\<close>) and chat lines. The files are
  \<^verbatim>\<open>src/cpp/include/common.hpp\<close> (messages, field readers, rules, sending),
  \<^verbatim>\<open>platform.hpp\<close> (sockets), \<^verbatim>\<open>metrics.hpp\<close> (sampling),
  \<^verbatim>\<open>src/cpp/server/main.cpp\<close> and \<^verbatim>\<open>src/cpp/client/main.cpp\<close>. A web
  dashboard in Python, \<^verbatim>\<open>src/python/dashboard/services.py\<close>, connects to the server as a
  client, keeps what it is told in a state its pages show, publishes alerts to a cloud service, and
  sends the commands and chat lines of its users, which the routes of \<^verbatim>\<open>app.py\<close> take from
  them.

  \<^bold>\<open>The theories\<close>, in import order.

  \<^item> \<open>Sysnet_Prelude\<close>: the result type (\<open>Inl\<close> is how the process ends), its sequencing
    \<open>and_then\<close>, the collections of frame facts, the locale \<open>transition_system\<close> with its rule
    for invariants, and facts on lists.
  \<^item> \<open>Cpp_Strings\<close>: \<open>Maybe\<close>, \<open>trim\<close>, \<open>lower_copy\<close>, \<open>escape_json\<close> of
    \<^verbatim>\<open>common.hpp\<close>, and a JSON string reader as the specification of the escaping.
  \<^item> \<open>Cpp_Regex\<close>: the ECMAScript regular expressions the program uses, as a backtracking
    matcher (leftmost match, greedy repetition, captures).
  \<^item> \<open>Common_Json\<close>: \<open>json_get_string\<close>, \<open>json_get_number\<close>, \<open>json_get_integer\<close>, with
    \<^verbatim>\<open>std::stod\<close> and \<^verbatim>\<open>std::stoll\<close> and their exceptions.
  \<^item> \<open>Cpp_Rounding\<close>, \<open>Cpp_Doubles\<close>: binary64 numbers as exact dyadic values with
    round-to-nearest-even, their arithmetic, conversions and printing to two decimals.
  \<^item> \<open>Common_Events\<close>: the message structs and all encoders, \<open>iso_timestamp\<close>.
  \<^item> \<open>Common_Time\<close>: \<open>iso_timestamp\<close> against a calendar that is advanced second by second.
  \<^item> \<open>Common_Alerts\<close>: \<open>parse_alert_command\<close>, \<open>metric_value_for_key\<close>, \<open>rule_matches\<close>.
  \<^item> \<open>Net_Sockets\<close>: \<^verbatim>\<open>platform.hpp\<close> for both platforms, and \<open>send_line\<close>. The
    \<open>world\<close> holds the bytes each socket has taken and the sockets opened and closed so far.
  \<^item> \<open>Server_State\<close>: the class \<open>MonitorServer\<close> as a record and every handler a line reaches.
    The locale \<open>unordered_map\<close> states what the server uses of \<^verbatim>\<open>std::unordered_map\<close>; it
    is interpreted on the association lists of the record.
  \<^item> \<open>Server_Loop\<close>: \<open>read_client\<close>, one iteration of \<open>run\<close>, \<open>run\<close>, \<open>start\<close>,
    \<open>shutdown_all\<close> and \<open>main\<close>.
  \<^item> \<open>Server_Framing\<close>: lines are handled independently of how the bytes arrive (locale
    \<open>framed_input\<close>, interpreted on a connection of the server).
  \<^item> \<open>Server_Alerts\<close>: alerts are the rising edges of the rules (locale \<open>edge_trigger\<close>,
    interpreted on the latch table of the server).
  \<^item> \<open>Server_Invariant\<close>: the invariant of the event loop (interpretation of
    \<open>transition_system\<close>) and the account of sockets.
  \<^item> \<open>Server_Replies\<close>: who receives what.
  \<^item> \<open>Cpp_Streams\<close>: extraction of words and numbers from a text stream.
  \<^item> \<open>Agent_Metrics\<close>: \<^verbatim>\<open>metrics.hpp\<close>, its Windows, macOS and Linux branches over a
    record of what the system answers.
  \<^item> \<open>Agent_Main\<close>: the arguments, \<open>connect_to_server\<close>, and the two loops of \<open>main\<close> as a
    state machine whose states are the loop heads (a second interpretation of
    \<open>transition_system\<close>).
  \<^item> \<open>Agent_Counters\<close>: the rate reported from 32-bit counters that restart.
  \<^item> \<open>Agent_Server\<close>: the wire format from the agent's sampling to the server's table.
  \<^item> \<open>Agent_Reconnect\<close>: a report that is interrupted, and the connection after it.
  \<^item> \<open>Dashboard_Json\<close>: what the dashboard uses of Python's library, the decoding of UTF-8 and
    \<^verbatim>\<open>json.loads\<close>.
  \<^item> \<open>Dashboard_Encoding\<close>: the structure that each encoder of the server prints, and that the
    reader gets it back, by induction on the structure.
  \<^item> \<open>Dashboard_State\<close>: the classes \<open>AwsAlertPublisher\<close> and \<open>MonitorConnector\<close>: the upload of
    alerts, \<^verbatim>\<open>_handle_event\<close> (\<open>dash_event\<close>), \<^verbatim>\<open>_consume\<close>
    (\<open>consume_lines\<close>, \<open>consume_chunk\<close>), \<^verbatim>\<open>_run\<close> (\<open>run_step\<close>) and what it sends.
  \<^item> \<open>Dashboard_Invariant\<close>: bounded histories and a well-formed table, whatever is received.
  \<^item> \<open>Dashboard_Service\<close>: \<open>MonitorConnector\<close> as a whole: its thread as a state machine between
    \<open>start\<close> and \<open>stop\<close>, \<open>snapshot\<close>, \<open>_send\<close> and the upload (a third interpretation of
    \<open>transition_system\<close>).
  \<^item> \<open>Dashboard_Feed\<close>: the messages of the server as a datatype, and what each does to the
    dashboard.
  \<^item> \<open>Server_Feed\<close>: what the server sends to one client, as a sequence of those messages: every
    handler, read and iteration of the loop keeps the invariant \<open>feeding\<close>, by which a client
    that is a dashboard has been told the server's table.
  \<^item> \<open>Dashboard_Mirror\<close>: server and dashboard composed; the dashboard's table and rules
    refine the server's.
  \<^item> \<open>Dashboard_Faults\<close>: the two kinds of message that end a dashboard's connection.
  \<^item> \<open>Dashboard_Commands\<close>: from \<^verbatim>\<open>send_command\<close> to the server's \<open>handle_command\<close>.
  \<^item> \<open>Dashboard_Web\<close>: the routes of \<^verbatim>\<open>app.py\<close>, what requests can make the server do, and a
    chat line on its way from one page to all of them.
  \<^item> \<open>Line_Protocol\<close>: the specification of the event loop as a server of whole lines
    (\<open>line_step\<close>), and the lines of what connections deliver (\<open>spoken\<close>).
  \<^item> \<open>Server_Order\<close>: \<open>run_iteration\<close> refines it; the abstraction forgets the buffers.
  \<^item> \<open>Server_Abort\<close>: which lines end the server, and which iterations.
  \<^item> \<open>Report_Delivery\<close>: agent, server and dashboard composed, among arbitrary other clients.
  \<^item> \<open>Alert_Delivery\<close>: the alerts of a report, from the rules of the server to every page.

  \<^bold>\<open>How the model corresponds to the code.\<close> A struct is a record with the fields of the
  source, \<open>ClientRole\<close> a datatype, a vector a list, an unordered map an association list, a
  \<^verbatim>\<open>double\<close> an element of \<open>double\<close>, a counter a 64-bit word. Methods of
  \<open>MonitorServer\<close> take the record and return it updated. What the program calls and the
  repository does not define (the kernel, the clock, the C library's resolver) is an argument:
  \<open>env\<close> answers each \<^verbatim>\<open>send\<close> and clock read, a \<open>poll\<close> says what
  \<^verbatim>\<open>select\<close>, \<^verbatim>\<open>accept\<close> and \<^verbatim>\<open>recv\<close> answer in one iteration, a
  \<open>probe\<close> what the system says of itself, an \<open>agent_input\<close> what happens between two loop
  heads of the agent, a \<open>run_input\<close> or \<open>net_answer\<close> what the dashboard's thread receives, \<open>dash_env\<close>
  the clock and the cloud client of the dashboard, a \<open>json\<close> the body of a request. An exception that nothing catches, an undefined \<^verbatim>\<open>FD_SET\<close> and a
  \<^verbatim>\<open>SIGPIPE\<close> are values of the error type.

  \<^bold>\<open>What is shown.\<close> The invariant of the server and of the agent over all runs, and that
  every socket opened is closed once; that framing does not depend on the transport, and the event loop is a server
  that handles one line of one client at a time; that alerts
  are announced exactly on rising edges; that the parsers accept exactly their grammars; that a
  report survives the way from the agent to the server's table and on to the dashboards, whatever
  other clients do in between, as long as none of them uses the agent's name; that the alerts of a
  report are what every dashboard shows next; that a
  dashboard keeps a copy of the server's table and of its rules over any run of the loop in which the input is
  printable text, and the two ways in which other text ends its connection; that no requests to the web
  application, also when their messages are sent in part only, make the server do anything but answer commands
  and relay chat lines, and that a chat line
  reaches every page; that the
  sampled figures are the correctly rounded ones and stay in their ranges, also across wrap-around
  of 64-bit counters, and what the 32-bit counters of Windows and macOS do to the reported rate; exactly which
  lines end the server, and that no iteration of the loop ends it otherwise; and that a report the network
  interrupts leads to a new connection unless the kernel raises \<^verbatim>\<open>SIGPIPE\<close>.

  \<^bold>\<open>Bounds.\<close> No definition has fuel: the loops that are not structural
  (\<open>process_lines\<close>, \<open>send_loop\<close>, the regular expression matcher) have termination proofs, and
  the two endless loops (\<open>run\<close> and the agent's) consume a list of environment answers of any
  length. Statements on percentages assume that a hundred times the total is exactly
  representable (at most \<open>2 ^ 53\<close>); statements on the wire format assume that a number has
  fewer than \<open>2 ^ 52\<close> hundredths, so that two decimals determine it. The first covers a disk
  of 90 TB, the second rates of 40 PB per second.

  \<^bold>\<open>Not modelled.\<close> The log lines on stdout and stderr and the texts of
  \<open>last_socket_error\<close>, which only go there; the Windows build of the two main programs (the
  sampling and the socket helpers are modelled for all platforms); the recursion limit of the
  library's regular expression matcher, which is taken to find the match it is defined to find;
  memory exhaustion; the narrowing of a length to \<^verbatim>\<open>int\<close> in \<open>send_line\<close>, which differs for lines of
  2 GiB and more; the contents of \<^verbatim>\<open>hostent\<close> beyond the first address. Of
  the dashboard, what the browser draws (\<^verbatim>\<open>app.js\<close>, \<^verbatim>\<open>index.html\<close>), the
  parsing of requests by the web framework, the lock (its operations are single steps), and hosts
  that are numbers (which the server never sends); the cloud client is a parameter. The container files and the scripts are deployment of this core.
\<close>

section \<open>From the agent to the server\<close>

text \<open>
  C9: An agent that connects to a server over a network that loses nothing, and reports a number of
  times, is understood: whatever pieces its bytes arrive in, the server registers the connection as
  an agent under the agent's name, leaves the other clients and the buffer alone, and holds the
  last report as the latest of that host, to within the two decimals of the wire format.
\<close>

theorem agent_to_server:
  assumes "reliable env" and "phase a = Outer" and "agent_step env config i a = Inr a1" and "phase a1 = Inner f"
    and "stream (agent_net a) f = []" and "\<forall>j \<in> set inputs. running j"
    and "plain_text (agent_name config)" and "\<forall>m \<in> set (reports env config inputs a1). wire_ok m"
    and "k < length (clients s)" and "buffer (clients s ! k) = []"
  shows "\<exists>a'. agent_run env config (i # inputs) a = Inr a' \<and> length (reports env config inputs a1) = length inputs \<and>
    (\<forall>chunks. (\<forall>c \<in> set chunks. recv_chunk c) \<and> concat chunks = stream (agent_net a') f \<longrightarrow>
       (\<exists>s'. read_chunks server_env k chunks s = Inr s' \<and>
          clients s' = (clients s)[k := (clients s ! k)\<lparr>declared_host := agent_name config, role := Agent, buffer := []\<rparr>] \<and>
          (inputs \<noteq> [] \<longrightarrow> (\<exists>m'. map_of (latest_metrics s') (agent_name config) = Some m' \<and>
             same_report (last (reports env config inputs a1)) m'))))"
proof -
  let ?ms = "reports env config inputs a1"
  obtain a' where run: "agent_run env config (i # inputs) a = Inr a'" "length ?ms = length inputs"
      "\<forall>m \<in> set ?ms. ms_host m = agent_name config" "stream (agent_net a') f = agent_bytes (agent_name config) ?ms"
    using agent_sends [OF assms(1-6)] by blast
  have "?ms \<noteq> [] \<longleftrightarrow> inputs \<noteq> []" using run(2) by (metis length_0_conv)
  then show ?thesis
    using server_reads_agent [OF assms(9,10,7), of ?ms _ server_env] run assms(8)
    by (intro exI [of _ a'] conjI allI impI) auto
qed

theorem agent_to_server_example:
  "\<exists>a' s' m'. agent_run steady_env web_config [connecting_input, reporting_input] (initial_agent sample_probe 0) = Inr a' \<and>
     read_chunks steady_env 0 (map (\<lambda>c. [c]) (stream (agent_net a') 7)) (sample_server Unknown) = Inr s' \<and>
     role (clients s' ! 0) = Agent \<and> map_of (latest_metrics s') ''web1'' = Some m' \<and> memory_total_mb m' = 16"
proof -
  let ?a = "initial_agent sample_probe 0"
  obtain a1 where step: "agent_step steady_env web_config connecting_input ?a = Inr a1" "phase a1 = Inner 7"
      "previous_cpu a1 = no_cpu" "previous_net a1 = no_net" "previous_tick a1 = 0"
    using sample_connects by blast
  let ?m = "next_report steady_env web_config reporting_input a1"
  note sample = sample_input_plausible [OF step(3-5)]
  have ok: "\<forall>m \<in> set (reports steady_env web_config [reporting_input] a1). wire_ok m"
    using next_report_wire_ok [OF sample(1) sample_meminfo_facts sample_memory sample(2-8)] by (simp split: sum.split)
  have last: "last (reports steady_env web_config [reporting_input] a1) = ?m" by (simp split: sum.split)
  obtain metric cpu net where c: "collect_metrics (agent_name web_config) (fst (read_clock steady_env (agent_net a1)))
      (system reporting_input) (previous_cpu a1) (previous_net a1)
      (elapsed_seconds (steady_now reporting_input - previous_tick a1)) = (metric, cpu, net)"
    by (metis prod_cases3)
  then have total: "memory_total_mb ?m = 16"
    using collect_linux(5) [OF sample(1) sample_meminfo_facts sample_memory sample(2-4) c] by (simp add: next_report_def)
  have s: "0 < length (clients (sample_server Unknown))" "buffer (clients (sample_server Unknown) ! 0) = []"
    by (simp_all add: sample_server_def sample_client_def)
  have "stream (agent_net ?a) 7 = []" "\<forall>j \<in> set [reporting_input]. running j"
    by (simp_all add: initial_agent_def initial_world_def stream_def reporting_input_def connecting_input_def)
  from agent_to_server [OF reliable_steady_env _ step(1,2) this sample(8) ok s, of steady_env]
  obtain a' where run: "agent_run steady_env web_config [connecting_input, reporting_input] ?a = Inr a'"
    and server: "\<forall>chunks. (\<forall>c \<in> set chunks. recv_chunk c) \<and> concat chunks = stream (agent_net a') 7 \<longrightarrow>
      (\<exists>s'. read_chunks steady_env 0 chunks (sample_server Unknown) = Inr s' \<and>
        clients s' = (clients (sample_server Unknown))[0 := (clients (sample_server Unknown) ! 0)
          \<lparr>declared_host := agent_name web_config, role := Agent, buffer := []\<rparr>] \<and>
        (\<exists>m'. map_of (latest_metrics s') (agent_name web_config) = Some m' \<and> same_report ?m m'))"
    unfolding last by (auto simp: initial_agent_def)
  have "\<forall>c \<in> set (map (\<lambda>c. [c]) (stream (agent_net a') 7)). recv_chunk c"
      "concat (map (\<lambda>c. [c]) (stream (agent_net a') 7)) = stream (agent_net a') 7"
    by (auto simp: recv_chunk_def)
  moreover have "agent_name web_config = ''web1''" by (simp add: web_config_def)
  ultimately show ?thesis using server run s(1) total
    by (fastforce simp: same_report_def)
qed

end
